(* ===== verification/Prelude.thy ===== *)
theory Prelude
  imports Complex_Main "HOL-Library.Word" "HOL-Library.AList"
begin

text \<open>
  Shared vocabulary of the development.

  \<^item> \<open>res_bind\<close>, \<open>res_map\<close>: fallible operations. A thrown exception or a structured failure is
    \<open>Inl\<close>, a normal return is \<open>Inr\<close>.
  \<^item> \<open>js_number\<close>: an ECMAScript number as far as the sources observe it (a finite rational, the
    infinities, NaN), with \<open>Number.isSafeInteger\<close>, \<open>Number.isInteger\<close> and \<open>Number.isFinite\<close>.
  \<^item> \<open>js_map\<close>: an ECMAScript \<open>Map\<close> as its list of entries in insertion order. Writing an existing
    key keeps the position of its entry, a new key is appended (\<^const>\<open>AList.update\<close>), deleting
    removes the entry (\<^const>\<open>AList.delete\<close>).
  \<^item> \<open>reachable\<close> and the locale \<open>guarded_system\<close>: the states a component can get into and the rule that an
    invariant kept by every step holds in all of them, under an assumption about the environment.
  \<^item> \<open>event_machine\<close>: the same for a component driven by a list of events, with the history visible.
  \<^item> \<open>chunked_stream\<close>: the contract of a streaming consumer whose result does not depend on how
    the transport cuts its input into chunks.

  The collections \<open>res_simps\<close> and \<open>map_simps\<close> hold the rewriting rules that the component theories
  use; \<open>invs\<close> collects the lemmas that an operation keeps an invariant.
\<close>

named_theorems res_simps "rewriting of fallible computations"
named_theorems map_simps "rewriting of ECMAScript maps"
named_theorems invs "preservation of component invariants"

section \<open>Fallible computations\<close>

type_synonym ('e, 'a) res = "'e + 'a"

definition res_bind :: "('e, 'a) res \<Rightarrow> ('a \<Rightarrow> ('e, 'b) res) \<Rightarrow> ('e, 'b) res" where
  "res_bind r f = (case r of Inl e \<Rightarrow> Inl e | Inr a \<Rightarrow> f a)"

definition res_map :: "('a \<Rightarrow> 'b) \<Rightarrow> ('e, 'a) res \<Rightarrow> ('e, 'b) res" where
  "res_map f r = (case r of Inl e \<Rightarrow> Inl e | Inr a \<Rightarrow> Inr (f a))"

text \<open>\<open>res_all f xs\<close> runs \<open>f\<close> over the elements in order and stops at the first failure, as a
  \<open>map\<close> whose callback throws does.\<close>

primrec res_all :: "('a \<Rightarrow> ('e, 'b) res) \<Rightarrow> 'a list \<Rightarrow> ('e, 'b list) res" where
  "res_all f [] = Inr []"
| "res_all f (x # xs) = res_bind (f x) (\<lambda>y. res_map ((#) y) (res_all f xs))"

lemma res_bind_simps [simp, res_simps]:
  "res_bind (Inl e) f = Inl e"
  "res_bind (Inr a) f = f a"
  by (simp_all add: res_bind_def)

lemma res_map_simps [simp, res_simps]:
  "res_map f (Inl e) = Inl e"
  "res_map f (Inr a) = Inr (f a)"
  by (simp_all add: res_map_def)

lemma res_bind_Inr_iff [res_simps]:
  "res_bind r f = Inr b \<longleftrightarrow> (\<exists>a. r = Inr a \<and> f a = Inr b)"
  by (cases r) simp_all

lemma res_bind_Inl_iff [res_simps]:
  "res_bind r f = Inl e \<longleftrightarrow> r = Inl e \<or> (\<exists>a. r = Inr a \<and> f a = Inl e)"
  by (cases r) auto

lemma res_map_Inr_iff [res_simps]:
  "res_map f r = Inr b \<longleftrightarrow> (\<exists>a. r = Inr a \<and> b = f a)"
  by (cases r) auto

lemma res_map_Inl_iff [res_simps]: "res_map f r = Inl e \<longleftrightarrow> r = Inl e"
  by (cases r) auto

lemma res_bind_assoc: "res_bind (res_bind r f) g = res_bind r (\<lambda>a. res_bind (f a) g)"
  by (cases r) simp_all

lemma res_map_comp: "res_map f (res_map g r) = res_map (f \<circ> g) r"
  by (cases r) simp_all

lemma res_map_ident [simp]: "res_map (\<lambda>a. a) r = r" "res_map id r = r"
  by (cases r; simp)+

lemma res_map_bind: "res_map f (res_bind r g) = res_bind r (\<lambda>a. res_map f (g a))"
  by (cases r) simp_all

lemma res_bind_map: "res_bind (res_map f r) g = res_bind r (\<lambda>a. g (f a))"
  by (cases r) simp_all

lemma res_all_cong [fundef_cong]: "xs = ys \<Longrightarrow> (\<And>x. x \<in> set ys \<Longrightarrow> f x = g x) \<Longrightarrow> res_all f xs = res_all g ys"
  by (induction ys arbitrary: xs) auto

lemma res_all_length: "res_all f xs = Inr ys \<Longrightarrow> length ys = length xs"
  by (induction xs arbitrary: ys) (auto simp: res_simps)

lemma res_all_set:
  "res_all f xs = Inr ys \<Longrightarrow> y \<in> set ys \<Longrightarrow> \<exists>x\<in>set xs. f x = Inr y"
  by (induction xs arbitrary: ys) (auto simp: res_simps)

text \<open>A chain of guards that return early.\<close>

lemma guard_Some [res_simps]: "(if c then None else x) = Some y \<longleftrightarrow> \<not> c \<and> x = Some y"
  by simp

section \<open>Numbers\<close>

datatype js_number = Num rat | Infinity | NegInfinity | NaN

definition MAX_SAFE_INTEGER :: int where
  "MAX_SAFE_INTEGER = 9007199254740991"

fun isInteger :: "js_number \<Rightarrow> bool" where
  "isInteger (Num q) = (of_int \<lfloor>q\<rfloor> = q)"
| "isInteger _ = False"

fun isSafeInteger :: "js_number \<Rightarrow> bool" where
  "isSafeInteger (Num q) = (of_int \<lfloor>q\<rfloor> = q \<and> \<bar>\<lfloor>q\<rfloor>\<bar> \<le> MAX_SAFE_INTEGER)"
| "isSafeInteger _ = False"

fun isFinite :: "js_number \<Rightarrow> bool" where
  "isFinite (Num q) = True"
| "isFinite _ = False"

text \<open>The integer a safe-integer number denotes.\<close>

fun int_of :: "js_number \<Rightarrow> int" where
  "int_of (Num q) = \<lfloor>q\<rfloor>"
| "int_of _ = 0"

abbreviation js_int :: "int \<Rightarrow> js_number" where
  "js_int i \<equiv> Num (of_int i)"

text \<open>The comparison \<open>\<le>\<close>; every comparison with NaN is false.\<close>

fun num_le :: "js_number \<Rightarrow> js_number \<Rightarrow> bool" where
  "num_le NaN _ = False"
| "num_le _ NaN = False"
| "num_le NegInfinity _ = True"
| "num_le _ Infinity = True"
| "num_le (Num p) (Num q) = (p \<le> q)"
| "num_le _ _ = False"

lemma isSafeInteger_int [simp]: "isSafeInteger (js_int i) \<longleftrightarrow> \<bar>i\<bar> \<le> MAX_SAFE_INTEGER"
  by simp

lemma isSafeIntegerE:
  assumes "isSafeInteger n"
  obtains i where "n = js_int i" and "int_of n = i" and "\<bar>i\<bar> \<le> MAX_SAFE_INTEGER"
proof (cases n)
  case (Num q)
  with assms have "n = js_int \<lfloor>q\<rfloor>" and "\<bar>\<lfloor>q\<rfloor>\<bar> \<le> MAX_SAFE_INTEGER" by auto
  with Num that show thesis by simp
qed (use assms in auto)

section \<open>Maps in insertion order\<close>

type_synonym ('k, 'v) js_map = "('k \<times> 'v) list"

abbreviation js_get :: "('k, 'v) js_map \<Rightarrow> 'k \<Rightarrow> 'v option" where
  "js_get m k \<equiv> map_of m k"

abbreviation js_has :: "('k, 'v) js_map \<Rightarrow> 'k \<Rightarrow> bool" where
  "js_has m k \<equiv> map_of m k \<noteq> None"

abbreviation js_set :: "'k \<Rightarrow> 'v \<Rightarrow> ('k, 'v) js_map \<Rightarrow> ('k, 'v) js_map" where
  "js_set \<equiv> AList.update"

abbreviation js_delete :: "'k \<Rightarrow> ('k, 'v) js_map \<Rightarrow> ('k, 'v) js_map" where
  "js_delete \<equiv> AList.delete"

abbreviation js_keys :: "('k, 'v) js_map \<Rightarrow> 'k list" where
  "js_keys \<equiv> map fst"

abbreviation js_values :: "('k, 'v) js_map \<Rightarrow> 'v list" where
  "js_values \<equiv> map snd"

abbreviation wf_map :: "('k, 'v) js_map \<Rightarrow> bool" where
  "wf_map m \<equiv> distinct (map fst m)"

lemma wf_map_set [simp, invs]: "wf_map m \<Longrightarrow> wf_map (js_set k v m)"
  by (rule distinct_update)

lemma wf_map_delete [simp, invs]: "wf_map m \<Longrightarrow> wf_map (js_delete k m)"
  by (rule distinct_delete)

lemma wf_map_filter [simp, invs]: "wf_map m \<Longrightarrow> wf_map (filter P m)"
  by (induction m) auto

lemma js_get_set [map_simps]: "js_get (js_set k v m) k' = (if k' = k then Some v else js_get m k')"
  by (simp add: update_conv')

lemma js_get_delete [map_simps]: "js_get (js_delete k m) k' = (if k' = k then None else js_get m k')"
  by (simp add: delete_conv')

lemma js_set_absent: "k \<notin> set (js_keys m) \<Longrightarrow> js_set k v m = m @ [(k, v)]"
  by (induction m) auto

lemma js_get_None_iff [map_simps]: "js_get m k = None \<longleftrightarrow> k \<notin> set (js_keys m)"
  by (simp add: map_of_eq_None_iff)

lemma js_get_Some_iff [map_simps]: "wf_map m \<Longrightarrow> js_get m k = Some v \<longleftrightarrow> (k, v) \<in> set m"
  by (rule map_of_eq_Some_iff)

lemma length_js_set:
  "length (js_set k v m) = (if k \<in> set (js_keys m) then length m else Suc (length m))"
  by (induction m) auto

lemma set_js_set:
  "wf_map m \<Longrightarrow> set (js_set k v m) = insert (k, v) {e \<in> set m. fst e \<noteq> k}"
  by (induction m) (auto, force)

lemma set_js_delete: "set (js_delete k m) = {e \<in> set m. fst e \<noteq> k}"
  by (induction m) auto

lemma fold_js_delete: "fold js_delete ks m = filter (\<lambda>(k, _). k \<notin> set ks) m"
  by (induction ks arbitrary: m) (auto simp: AList.delete_eq intro!: filter_cong)

text \<open>The sum of a quantity over the entries of a map.\<close>

definition map_sum :: "('v \<Rightarrow> 'b::comm_monoid_add) \<Rightarrow> ('k, 'v) js_map \<Rightarrow> 'b" where
  "map_sum f m = sum_list (map (f \<circ> snd) m)"

lemma map_sum_simps [simp]:
  "map_sum f [] = 0" "map_sum f (e # m) = f (snd e) + map_sum f m"
  "map_sum f (m @ m') = map_sum f m + map_sum f m'"
  by (simp_all add: map_sum_def)

lemma map_sum_set_new:
  "js_get m k = None \<Longrightarrow> map_sum f (js_set k v m) = map_sum f m + f v"
  by (simp add: js_get_None_iff js_set_absent)

lemma map_sum_set:
  fixes f :: "'v \<Rightarrow> 'b::ab_group_add"
  shows "wf_map m \<Longrightarrow> js_get m k = Some v \<Longrightarrow> map_sum f (js_set k v' m) = map_sum f m - f v + f v'"
  by (induction m) (auto simp: algebra_simps split: if_splits)

lemma map_sum_delete:
  fixes f :: "'v \<Rightarrow> 'b::ab_group_add"
  shows "wf_map m \<Longrightarrow> js_get m k = Some v \<Longrightarrow> map_sum f (js_delete k m) = map_sum f m - f v"
  by (induction m) (auto simp: algebra_simps split: if_splits)

section \<open>Streams cut into chunks\<close>

text \<open>
  \<open>absorb p s c\<close> consumes one chunk in state \<open>s\<close> with a fixed configuration \<open>p\<close> and returns the
  next state and what it produced. The two laws say that an empty chunk is a no-op and that
  absorbing a concatenation is absorbing the parts in turn. Every client lemma below is about
  \<open>feed\<close>, the loop that hands the chunks of a transport to \<open>absorb\<close> until the first failure.
\<close>

primrec feed ::
  "('s \<Rightarrow> 'b list \<Rightarrow> ('e, 's \<times> 'm list) res) \<Rightarrow> 's \<Rightarrow> 'b list list \<Rightarrow> ('e, 's \<times> 'm list) res" where
  "feed f s [] = Inr (s, [])"
| "feed f s (c # cs) =
     res_bind (f s c) (\<lambda>(s', ms). res_map (\<lambda>(s'', ms'). (s'', ms @ ms')) (feed f s' cs))"

locale chunked_stream =
  fixes absorb :: "'p \<Rightarrow> 's \<Rightarrow> 'b list \<Rightarrow> ('e, 's \<times> 'm list) res"
    and invar :: "'s \<Rightarrow> bool"
  assumes absorb_Nil: "invar s \<Longrightarrow> absorb p s [] = Inr (s, [])"
    and absorb_append: "invar s \<Longrightarrow> absorb p s (xs @ ys) =
      res_bind (absorb p s xs) (\<lambda>(s', ms). res_map (\<lambda>(s'', ms'). (s'', ms @ ms')) (absorb p s' ys))"
    and absorb_invar: "invar s \<Longrightarrow> absorb p s xs = Inr (s', ms) \<Longrightarrow> invar s'"
begin

lemma feed_concat: "invar s \<Longrightarrow> feed (absorb p) s cs = absorb p s (concat cs)"
proof (induction cs arbitrary: s)
  case Nil
  then show ?case by (simp add: absorb_Nil)
next
  case (Cons c cs)
  show ?case
  proof (cases "absorb p s c")
    case (Inl e)
    with Cons.prems show ?thesis by (simp add: absorb_append)
  next
    case (Inr r)
    then obtain s' ms where r: "absorb p s c = Inr (s', ms)" by (cases r) auto
    with Cons.prems have "invar s'" by (rule absorb_invar)
    with r Cons show ?thesis by (simp add: absorb_append)
  qed
qed

lemma feed_chunking_irrelevant:
  "invar s \<Longrightarrow> concat cs = concat cs' \<Longrightarrow> feed (absorb p) s cs = feed (absorb p) s cs'"
  by (simp add: feed_concat)

end

section \<open>Reachable states\<close>

inductive reachable :: "('s \<Rightarrow> bool) \<Rightarrow> ('s \<Rightarrow> 's \<Rightarrow> bool) \<Rightarrow> 's \<Rightarrow> bool" for init step where
  reach_init: "init s \<Longrightarrow> reachable init step s"
| reach_step: "reachable init step s \<Longrightarrow> step s s' \<Longrightarrow> reachable init step s'"

text \<open>A component in an environment \<open>p\<close>: where it starts, how it moves, what it keeps. \<open>good\<close> is what the component
  relies on in its environment.\<close>

locale guarded_system =
  fixes good :: "'p \<Rightarrow> bool"
    and init :: "'p \<Rightarrow> 's \<Rightarrow> bool"
    and step :: "'p \<Rightarrow> 's \<Rightarrow> 's \<Rightarrow> bool"
    and keeps :: "'p \<Rightarrow> 's \<Rightarrow> bool"
  assumes init_keeps: "good p \<Longrightarrow> init p s \<Longrightarrow> keeps p s"
    and step_keeps: "good p \<Longrightarrow> keeps p s \<Longrightarrow> step p s s' \<Longrightarrow> keeps p s'"
begin

lemma reachable_keeps: "good p \<Longrightarrow> reachable (init p) (step p) s \<Longrightarrow> keeps p s"
  by (rotate_tac, induction rule: reachable.induct) (auto intro: init_keeps step_keeps)

lemma steps_keep: "good p \<Longrightarrow> keeps p s \<Longrightarrow> (step p)\<^sup>*\<^sup>* s s' \<Longrightarrow> keeps p s'"
  by (rotate_tac 2, induction rule: rtranclp_induct) (auto intro: step_keeps)

end

text \<open>A component that is driven by a sequence of events: what it keeps may refer to the events so far.\<close>

locale event_machine =
  fixes start :: "'p \<Rightarrow> 's"
    and happen :: "'e \<Rightarrow> 's \<Rightarrow> 's"
    and keeps :: "'p \<Rightarrow> 'e list \<Rightarrow> 's \<Rightarrow> bool"
  assumes start_keeps: "keeps p [] (start p)"
    and happen_keeps: "keeps p h s \<Longrightarrow> keeps p (h @ [ev]) (happen ev s)"
begin

lemma run_keeps: "keeps p h (fold happen h (start p))"
  by (induction h rule: rev_induct) (simp_all add: start_keeps happen_keeps)

end

end
