(* ===== verification/Framing.thy ===== *)
theory Framing
  imports Prelude
begin

unbundle bit_operations_syntax

text \<open>
  Wire framing (\<open>src/packages/protocol/src/framing.ts\<close>, with the error codes of \<open>errors.ts\<close> and the
  constants of \<open>limits.ts\<close>): a 4-byte big-endian length prefix followed by a body.

  \<^item> \<open>decoder\<close> is \<open>BufferedFrameDecoder\<close> with its private fields: the backing array, the offsets
    \<open>#start\<close> and \<open>#end\<close> of the unconsumed bytes, and the failure that poisons it.
  \<^item> \<open>push\<close>, \<open>pushOrThrow\<close>, \<open>readLength\<close>, \<open>append_chunk\<close>, \<open>compact\<close> follow the methods line by line;
    \<open>decodeLoop\<close> is the \<open>for (;;)\<close> loop of \<open>#pushOrThrow\<close>. The body codec \<open>decodeBody\<close> is an
    argument \<open>dec\<close> of the loop.
  \<^item> \<open>frames\<close> is the abstract specification: the frames that a byte sequence contains and the
    incomplete rest. \<open>pushOrThrow_frames\<close> is the refinement.
\<close>

section \<open>Violations and limits\<close>

datatype violation =
    FrameOversized | FrameMalformed | FrameEncoding | DecoderPoisoned
  | DtoScalar | DtoString | DtoAlias | DtoAccessor | DtoSymbol | DtoPrototype
  | DtoSparse | DtoKey | DtoDepth | MarkerArgument

text \<open>What a \<open>throw\<close> inside the decoder carries: a \<open>ProtocolViolation\<close>, or any other error (here the
  \<open>RangeError\<close> of an out-of-range \<open>Uint8Array.set\<close>).\<close>

datatype thrown = Violation violation | OtherError

record limits =
  maxFrameBytesL :: nat
  maxSnapshotBytes :: nat
  maxNodes :: nat
  maxDepthL :: nat
  maxStringBytes :: nat
  maxRelationTargets :: nat
  maxQueuedFrames :: nat
  maxPendingWaiters :: nat
  maxSessions :: nat
  maxLogRecordBytes :: nat
  maxLogQueue :: nat

definition DEFAULT_LIMITS :: limits where
  "DEFAULT_LIMITS = \<lparr>maxFrameBytesL = 1 * 1024 * 1024, maxSnapshotBytes = 2 * 1024 * 1024,
     maxNodes = 5000, maxDepthL = 64, maxStringBytes = 16 * 1024, maxRelationTargets = 64,
     maxQueuedFrames = 32, maxPendingWaiters = 256, maxSessions = 16,
     maxLogRecordBytes = 32 * 1024, maxLogQueue = 1000\<rparr>"

definition ABSOLUTE_LIMITS :: limits where
  "ABSOLUTE_LIMITS = \<lparr>maxFrameBytesL = 8 * 1024 * 1024, maxSnapshotBytes = 8 * 1024 * 1024,
     maxNodes = 50000, maxDepthL = 256, maxStringBytes = 256 * 1024, maxRelationTargets = 1024,
     maxQueuedFrames = 256, maxPendingWaiters = 4096, maxSessions = 128,
     maxLogRecordBytes = 256 * 1024, maxLogQueue = 10000\<rparr>"

section \<open>The decoder\<close>

type_synonym byte = "8 word"

record decoder =
  maxFrameBytes :: nat
  buffer :: "byte list"
  start_at :: nat
  end_at :: nat
  failure :: "violation option"

definition FRAME_HEADER_BYTES :: nat where
  "FRAME_HEADER_BYTES = 4"

definition assertPositiveByteCeiling :: "js_number \<Rightarrow> (violation, unit) res" where
  "assertPositiveByteCeiling n =
     (if \<not> isSafeInteger n \<or> num_le n (js_int 0) then Inl FrameMalformed else Inr ())"

definition createFrameDecoder :: "js_number \<Rightarrow> (violation, decoder) res" where
  "createFrameDecoder n =
     res_map (\<lambda>_. \<lparr>maxFrameBytes = nat (int_of n), buffer = [], start_at = 0, end_at = 0, failure = None\<rparr>)
       (assertPositiveByteCeiling n)"

definition buffered :: "decoder \<Rightarrow> nat" where
  "buffered d = end_at d - start_at d"

text \<open>\<open>Uint8Array.prototype.subarray\<close> and \<open>set\<close>; the latter raises outside the target.\<close>

definition subarray :: "'a list \<Rightarrow> nat \<Rightarrow> nat \<Rightarrow> 'a list" where
  "subarray xs i j = take (j - i) (drop i xs)"

definition array_set :: "'a list \<Rightarrow> nat \<Rightarrow> 'a list \<Rightarrow> (thrown, 'a list) res" where
  "array_set target offset source =
     (if offset + length source \<le> length target
      then Inr (take offset target @ source @ drop (offset + length source) target)
      else Inl OtherError)"

definition readLength :: "decoder \<Rightarrow> nat" where
  "readLength d =
     (let b = (\<lambda>k. unat (buffer d ! (start_at d + k)))
      in (b 0 * 0x1000000 + (push_bit 16 (b 1) OR push_bit 8 (b 2) OR b 3)) mod 2 ^ 32)"

definition append_chunk :: "decoder \<Rightarrow> byte list \<Rightarrow> (thrown, decoder) res" where
  "append_chunk d chunk =
     (let kept = end_at d - start_at d; needed = kept + length chunk
      in res_bind
           (if needed > length (buffer d) - start_at d
            then res_map (\<lambda>next. d\<lparr>buffer := next, start_at := 0, end_at := kept\<rparr>)
                   (array_set (replicate needed 0) 0 (subarray (buffer d) (start_at d) (end_at d)))
            else Inr d)
           (\<lambda>d. res_map (\<lambda>buf. d\<lparr>buffer := buf, end_at := end_at d + length chunk\<rparr>)
                  (array_set (buffer d) (end_at d) chunk)))"

definition compact :: "decoder \<Rightarrow> (thrown, decoder) res" where
  "compact d =
     (if start_at d = 0 then Inr d
      else let kept = end_at d - start_at d
      in if kept = 0 then Inr (d\<lparr>buffer := [], start_at := 0, end_at := kept\<rparr>)
         else res_map (\<lambda>next. d\<lparr>buffer := next, start_at := 0, end_at := kept\<rparr>)
                (array_set (replicate kept 0) 0 (subarray (buffer d) (start_at d) (end_at d))))"

function decodeLoop ::
  "(byte list \<Rightarrow> (violation, 'm) res) \<Rightarrow> decoder \<Rightarrow> 'm list \<Rightarrow> (thrown, decoder \<times> 'm list) res" where
  "decodeLoop dec d messages =
     (let available = end_at d - start_at d
      in if available < FRAME_HEADER_BYTES then Inr (d, messages)
         else let len = readLength d
         in if len = 0 then Inl (Violation FrameMalformed)
            else if len > maxFrameBytes d then Inl (Violation FrameOversized)
            else if available < FRAME_HEADER_BYTES + len then Inr (d, messages)
            else let bodyStart = start_at d + FRAME_HEADER_BYTES
            in case dec (subarray (buffer d) bodyStart (bodyStart + len)) of
                 Inl v \<Rightarrow> Inl (Violation v)
               | Inr m \<Rightarrow> decodeLoop dec (d\<lparr>start_at := bodyStart + len\<rparr>) (messages @ [m]))"
  by pat_completeness auto
termination
  by (relation "measure (\<lambda>(_, d, _). end_at d - start_at d)") (auto simp: FRAME_HEADER_BYTES_def)

declare decodeLoop.simps [simp del]

definition pushOrThrow ::
  "(byte list \<Rightarrow> (violation, 'm) res) \<Rightarrow> decoder \<Rightarrow> byte list \<Rightarrow> (thrown, decoder \<times> 'm list) res" where
  "pushOrThrow dec d chunk =
     res_bind (append_chunk d chunk) (\<lambda>d.
     res_bind (decodeLoop dec d []) (\<lambda>(d, messages).
     res_bind (compact d) (\<lambda>d.
       if buffered d > maxFrameBytes d + FRAME_HEADER_BYTES
       then Inl (Violation FrameOversized)
       else Inr (d, messages))))"

definition push ::
  "(byte list \<Rightarrow> (violation, 'm) res) \<Rightarrow> decoder \<Rightarrow> byte list \<Rightarrow> (violation, 'm list) res \<times> decoder" where
  "push dec d chunk =
     (case failure d of
        Some _ \<Rightarrow> (Inl DecoderPoisoned, d)
      | None \<Rightarrow>
          (case pushOrThrow dec d chunk of
             Inr (d', messages) \<Rightarrow> (Inr messages, d')
           | Inl err \<Rightarrow>
               (let f = (case err of Violation v \<Rightarrow> v | OtherError \<Rightarrow> FrameMalformed)
                in (Inl f, d\<lparr>failure := Some f, buffer := [], start_at := 0, end_at := 0\<rparr>))))"

section \<open>The encoder\<close>

text \<open>The header bytes of a body of \<open>n\<close> bytes; \<open>>>>\<close> works on \<open>n\<close> modulo \<open>2\<^sup>3\<^sup>2\<close>.\<close>

definition frame_header :: "nat \<Rightarrow> byte list" where
  "frame_header n =
     [word_of_nat (drop_bit 24 (n mod 2 ^ 32) AND 255),
      word_of_nat (drop_bit 16 (n mod 2 ^ 32) AND 255),
      word_of_nat (drop_bit 8 (n mod 2 ^ 32) AND 255),
      word_of_nat (n mod 2 ^ 32 AND 255)]"

text \<open>\<open>stringify\<close> is \<open>JSON.stringify\<close>: it may throw (\<open>Inl\<close>), return undefined (\<open>Inr None\<close>) or a text;
  \<open>encode\<close> is \<open>TextEncoder.encode\<close>.\<close>

definition encodeFrame ::
  "('v \<Rightarrow> (unit, 't option) res) \<Rightarrow> ('t \<Rightarrow> byte list) \<Rightarrow> 'v \<Rightarrow> js_number \<Rightarrow> (violation, byte list) res" where
  "encodeFrame stringify encode message n =
     res_bind (assertPositiveByteCeiling n) (\<lambda>_.
       case stringify message of
         Inl _ \<Rightarrow> Inl FrameMalformed
       | Inr None \<Rightarrow> Inl DtoScalar
       | Inr (Some text) \<Rightarrow>
           (let body = encode text
            in if int (length body) > int_of n then Inl FrameOversized
               else Inr (frame_header (length body) @ body)))"

section \<open>Abstract specification\<close>

text \<open>The number that four big-endian bytes denote.\<close>

fun be32 :: "byte list \<Rightarrow> nat" where
  "be32 (a # b # c # d # _) = unat a * 2 ^ 24 + unat b * 2 ^ 16 + unat c * 2 ^ 8 + unat d"
| "be32 _ = 0"

text \<open>\<open>frames m dec bs\<close>: the decoded frames at the front of \<open>bs\<close> and the incomplete rest.\<close>

function frames ::
  "nat \<Rightarrow> (byte list \<Rightarrow> (violation, 'm) res) \<Rightarrow> byte list \<Rightarrow> (thrown, byte list \<times> 'm list) res" where
  "frames m dec bs =
     (if length bs < 4 then Inr (bs, [])
      else if be32 bs = 0 then Inl (Violation FrameMalformed)
      else if be32 bs > m then Inl (Violation FrameOversized)
      else if length bs < 4 + be32 bs then Inr (bs, [])
      else case dec (take (be32 bs) (drop 4 bs)) of
             Inl v \<Rightarrow> Inl (Violation v)
           | Inr x \<Rightarrow> res_map (\<lambda>(r, xs). (r, x # xs)) (frames m dec (drop (4 + be32 bs) bs)))"
  by pat_completeness auto
termination
  by (relation "measure (\<lambda>(_, _, bs). length bs)") auto

declare frames.simps [simp del]

text \<open>A byte sequence at which \<open>frames\<close> stops: too short for a header, or an admissible header with
  an incomplete body.\<close>

definition incomplete :: "nat \<Rightarrow> byte list \<Rightarrow> bool" where
  "incomplete m bs \<longleftrightarrow> length bs < 4 \<or> (0 < be32 bs \<and> be32 bs \<le> m \<and> length bs < 4 + be32 bs)"

text \<open>The state between two calls: the array holds exactly the unconsumed bytes.\<close>

definition decoder_inv :: "decoder \<Rightarrow> bool" where
  "decoder_inv d \<longleftrightarrow> start_at d = 0 \<and> end_at d = length (buffer d) \<and> incomplete (maxFrameBytes d) (buffer d)"

section \<open>Lengths\<close>

lemma nat_OR_eq_plus:
  fixes x y :: nat
  assumes "y < 2 ^ n"
  shows "push_bit n x OR y = push_bit n x + y"
proof (rule disjunctive_add_eq_or [symmetric], rule bit_eqI)
  fix k
  have "bit y k \<Longrightarrow> k < n"
    using assms by (metis bit_take_bit_iff take_bit_nat_eq_self)
  then show "bit (push_bit n x AND y) k \<longleftrightarrow> bit (0 :: nat) k"
    by (auto simp: bit_simps)
qed

lemma unat_byte_lt: "unat (b :: byte) < 256"
  using unsigned_less [of b, where 'a = nat] by simp

lemma bytes_or:
  "push_bit 16 (unat (b :: byte)) OR push_bit 8 (unat (c :: byte)) OR unat (d :: byte)
     = unat b * 2 ^ 16 + unat c * 2 ^ 8 + unat d"
proof -
  have cd: "push_bit 8 (unat c) OR unat d = push_bit 8 (unat c) + unat d"
    by (rule nat_OR_eq_plus) (simp add: unat_byte_lt)
  have "push_bit 8 (unat c) + unat d < 2 ^ 16"
    using unat_byte_lt [of c] unat_byte_lt [of d] by (simp add: push_bit_nat_def)
  then show ?thesis
    by (simp add: cd or.assoc nat_OR_eq_plus) (simp add: push_bit_nat_def)
qed

lemma be32_lt: "be32 bs < 2 ^ 32"
proof (cases bs rule: be32.cases)
  case (1 a b c d r)
  then show ?thesis
    using unat_byte_lt [of a] unat_byte_lt [of b] unat_byte_lt [of c] unat_byte_lt [of d] by simp
qed auto

lemma be32_append: "4 \<le> length xs \<Longrightarrow> be32 (xs @ ys) = be32 xs"
  by (cases xs rule: be32.cases) auto

lemma four_le_lengthE:
  fixes xs :: "byte list"
  assumes "4 \<le> length xs"
  obtains a b c d r where "xs = a # b # c # d # r"
  using assms by (cases xs rule: be32.cases) auto

lemma readLength_be32:
  assumes "4 \<le> length (drop (start_at d) (buffer d))"
  shows "readLength d = be32 (drop (start_at d) (buffer d))"
proof -
  from assms obtain a b c e r where dr: "drop (start_at d) (buffer d) = a # b # c # e # r"
    by (rule four_le_lengthE)
  then have "\<And>k. k < 4 \<Longrightarrow> buffer d ! (start_at d + k) = (a # b # c # e # r) ! k"
    using assms by (metis add.commute dr length_drop nth_drop le_add1 less_diff_conv nat_le_linear
        diff_is_0_eq' not_less_zero order_less_le_trans)
  from this [of 0] this [of 1] this [of 2] this [of 3]
  have "buffer d ! start_at d = a" "buffer d ! (start_at d + 1) = b"
    "buffer d ! (start_at d + 2) = c" "buffer d ! (start_at d + 3) = e" by simp_all
  then
  have "readLength d = be32 (a # b # c # e # r) mod 2 ^ 32"
    by (simp add: readLength_def bytes_or add.assoc)
  with dr be32_lt [of "a # b # c # e # r"] show ?thesis by simp
qed

lemma frame_header_length [simp]: "length (frame_header n) = 4"
  by (simp add: frame_header_def)

lemma be32_frame_header:
  assumes "n < 2 ^ 32"
  shows "be32 (frame_header n @ bs) = n"
proof -
  have byte: "unat (word_of_nat (k AND 255) :: byte) = k mod 256" for k :: nat
  proof -
    have "k AND 255 = k mod 256"
      using take_bit_eq_mask [of 8 k] by (simp add: take_bit_eq_mod mask_eq_exp_minus_1)
    then show ?thesis by (simp add: unat_of_nat)
  qed
  have "n = n div 2 ^ 24 mod 256 * 2 ^ 24 + n div 2 ^ 16 mod 256 * 2 ^ 16 + n div 2 ^ 8 mod 256 * 2 ^ 8 + n mod 256"
  proof -
    define p q r where "p = n div 256" and "q = p div 256" and "r = q div 256"
    have "n = p * 256 + n mod 256" "p = q * 256 + p mod 256" "q = r * 256 + q mod 256"
      by (simp_all add: p_def q_def r_def)
    moreover have "n div 2 ^ 8 = p" "n div 2 ^ 16 = q" "n div 2 ^ 24 = r"
      by (simp_all add: p_def q_def r_def flip: div_mult2_eq)
    moreover have "r < 256" using assms by (simp add: p_def q_def r_def flip: div_mult2_eq)
    ultimately show ?thesis by simp
  qed
  with assms show ?thesis
    by (simp add: frame_header_def byte drop_bit_eq_div)
qed

section \<open>The specification\<close>

lemma frames_incomplete: "incomplete m bs \<Longrightarrow> frames m dec bs = Inr (bs, [])"
  by (subst frames.simps) (auto simp: incomplete_def)

lemma frames_rest:
  "frames m dec bs = Inr (r, xs) \<Longrightarrow> incomplete m r \<and> (\<exists>k \<le> length bs. r = drop k bs)"
proof (induction m dec bs arbitrary: r xs rule: frames.induct)
  case (1 m dec bs)
  show ?case
  proof (cases "incomplete m bs")
    case True
    with "1.prems" have "r = bs" by (simp add: frames_incomplete)
    with True show ?thesis by (auto intro: exI [of _ 0])
  next
    case False
    with "1.prems" obtain x ys where
      dec: "dec (take (be32 bs) (drop 4 bs)) = Inr x" and
      rest: "frames m dec (drop (4 + be32 bs) bs) = Inr (r, ys)" and
      c: "\<not> length bs < 4" "be32 bs \<noteq> 0" "\<not> m < be32 bs" "\<not> length bs < 4 + be32 bs"
      by (subst (asm) frames.simps) (auto simp: incomplete_def res_simps split: if_splits sum.splits)
    from "1.IH" [OF c dec rest]
    obtain k where "incomplete m r" "k \<le> length bs - (4 + be32 bs)" "r = drop k (drop (4 + be32 bs) bs)"
      by auto
    then show ?thesis using c by (auto intro!: exI [of _ "4 + be32 bs + k"] simp: add.commute)
  qed
qed

lemma frames_append:
  "frames m dec (xs @ ys) =
     res_bind (frames m dec xs) (\<lambda>(r, ms). res_map (\<lambda>(r', ms'). (r', ms @ ms')) (frames m dec (r @ ys)))"
proof (induction m dec xs rule: frames.induct)
  case (1 m dec xs)
  show ?case
  proof (cases "incomplete m xs")
    case True
    then show ?thesis by (simp add: frames_incomplete split_def)
  next
    case False
    then have len: "4 \<le> length xs" by (auto simp: incomplete_def)
    then have be: "be32 (xs @ ys) = be32 xs" by (rule be32_append)
    consider "be32 xs = 0" | "be32 xs \<noteq> 0" "m < be32 xs"
      | "be32 xs \<noteq> 0" "\<not> m < be32 xs" "\<not> length xs < 4 + be32 xs"
      using False by (auto simp: incomplete_def)
    then show ?thesis
    proof cases
      case 3
      with 1 len show ?thesis
        by (subst (1 2) frames.simps)
          (auto simp: be res_map_comp res_map_bind res_bind_map split_def comp_def split: sum.split)
    qed (use len be in \<open>subst (1 2) frames.simps, simp\<close>)+
  qed
qed

section \<open>Refinement\<close>

lemma array_set_prefix [simp]:
  "array_set (replicate (length xs) z) 0 xs = Inr xs"
  by (simp add: array_set_def)

lemma append_chunk_canonical:
  assumes "start_at d = 0" and "end_at d = length (buffer d)"
  shows "append_chunk d chunk =
    Inr (d\<lparr>buffer := buffer d @ chunk, start_at := 0, end_at := length (buffer d) + length chunk\<rparr>)"
  using assms
  by (cases d; cases "chunk = []") (auto simp: append_chunk_def array_set_def subarray_def Let_def)

lemma decodeLoop_frames:
  assumes "end_at d = length (buffer d)" and "start_at d \<le> end_at d"
  shows "decodeLoop dec d ms =
    res_map (\<lambda>(r, xs). (d\<lparr>start_at := length (buffer d) - length r\<rparr>, ms @ xs))
      (frames (maxFrameBytes d) dec (drop (start_at d) (buffer d)))"
  using assms
proof (induction dec d ms rule: decodeLoop.induct)
  case (1 dec d ms)
  let ?bs = "drop (start_at d) (buffer d)"
  show ?case
  proof (cases "4 \<le> length ?bs")
    case False
    with 1 show ?thesis
      by (subst decodeLoop.simps, subst frames.simps) (auto simp: FRAME_HEADER_BYTES_def)
  next
    case True
    note len = readLength_be32 [OF True]
    consider "be32 ?bs = 0" | "be32 ?bs \<noteq> 0" "maxFrameBytes d < be32 ?bs"
      | "be32 ?bs \<noteq> 0" "\<not> maxFrameBytes d < be32 ?bs" "length ?bs < 4 + be32 ?bs"
      | v where "be32 ?bs \<noteq> 0" "\<not> maxFrameBytes d < be32 ?bs" "\<not> length ?bs < 4 + be32 ?bs"
          "dec (take (be32 ?bs) (drop 4 ?bs)) = Inl v"
      | x where "be32 ?bs \<noteq> 0" "\<not> maxFrameBytes d < be32 ?bs" "\<not> length ?bs < 4 + be32 ?bs"
          "dec (take (be32 ?bs) (drop 4 ?bs)) = Inr x"
      by (cases "dec (take (be32 ?bs) (drop 4 ?bs))") blast+
    then show ?thesis
    proof cases
      case (5 x)
      let ?n = "start_at d + 4 + be32 ?bs"
      have body: "subarray (buffer d) (start_at d + 4) ?n = take (be32 ?bs) (drop 4 ?bs)"
        by (simp add: subarray_def add.commute)
      have "?n \<le> end_at d" using 5 "1.prems" by auto
      then have IH: "decodeLoop dec (d\<lparr>start_at := ?n\<rparr>) (ms @ [x]) =
          res_map (\<lambda>(r, xs). (d\<lparr>start_at := length (buffer d) - length r\<rparr>, (ms @ [x]) @ xs))
            (frames (maxFrameBytes d) dec (drop ?n (buffer d)))"
        using "1.IH" [OF refl _ refl _ _ _ refl, of x] 5 True "1.prems" body
        by (simp add: len FRAME_HEADER_BYTES_def)
      with 5 True "1.prems" body show ?thesis
        by (subst decodeLoop.simps, subst frames.simps)
          (simp add: len FRAME_HEADER_BYTES_def Let_def res_map_comp comp_def split_def
            ac_simps)
    qed (use True "1.prems" in \<open>subst decodeLoop.simps, subst frames.simps,
           simp add: len FRAME_HEADER_BYTES_def subarray_def add.commute\<close>)+
  qed
qed

lemma compact_suffix:
  assumes "end_at d = length (buffer d)" and "k \<le> length (buffer d)"
  shows "compact (d\<lparr>start_at := k\<rparr>) =
    Inr (d\<lparr>buffer := drop k (buffer d), start_at := 0, end_at := length (buffer d) - k\<rparr>)"
proof (cases "k = 0")
  case True
  with assms show ?thesis by (cases d) (simp add: compact_def)
next
  case False
  with assms array_set_prefix [of "drop k (buffer d)" 0] show ?thesis
    by (auto simp: compact_def subarray_def Let_def)
qed

lemma incomplete_length: "incomplete m bs \<Longrightarrow> length bs < m + 4 \<or> length bs < 4"
  by (auto simp: incomplete_def)

lemma pushOrThrow_frames:
  assumes "decoder_inv d"
  shows "pushOrThrow dec d chunk =
    res_map (\<lambda>(r, xs). (d\<lparr>buffer := r, start_at := 0, end_at := length r\<rparr>, xs))
      (frames (maxFrameBytes d) dec (buffer d @ chunk))"
proof -
  let ?d = "d\<lparr>buffer := buffer d @ chunk, start_at := 0, end_at := length (buffer d) + length chunk\<rparr>"
  have app: "append_chunk d chunk = Inr ?d"
    using assms by (simp add: append_chunk_canonical decoder_inv_def)
  have loop: "decodeLoop dec ?d [] =
    res_map (\<lambda>(r, xs). (?d\<lparr>start_at := length (buffer d @ chunk) - length r\<rparr>, xs))
      (frames (maxFrameBytes d) dec (buffer d @ chunk))"
    by (simp add: decodeLoop_frames)
  show ?thesis
  proof (cases "frames (maxFrameBytes d) dec (buffer d @ chunk)")
    case (Inl e)
    with app loop show ?thesis by (simp add: pushOrThrow_def)
  next
    case (Inr p)
    then obtain r xs where fr: "frames (maxFrameBytes d) dec (buffer d @ chunk) = Inr (r, xs)"
      by (cases p) auto
    from frames_rest [OF fr] obtain k where inc: "incomplete (maxFrameBytes d) r"
      and k: "k \<le> length (buffer d @ chunk)" and r: "r = drop k (buffer d @ chunk)" by blast
    have "compact (?d\<lparr>start_at := length (buffer d @ chunk) - length r\<rparr>) =
        Inr (?d\<lparr>buffer := r, start_at := 0, end_at := length r\<rparr>)"
    proof -
      have "length (buffer d @ chunk) - length r = k" and "length r = length (buffer d @ chunk) - k"
        using k r by (simp_all del: drop_append)
      then show ?thesis using k r compact_suffix [of ?d k] by (simp del: drop_append)
    qed
    with app loop fr inc show ?thesis
      by (auto simp: pushOrThrow_def buffered_def FRAME_HEADER_BYTES_def dest: incomplete_length)
  qed
qed

lemma pushOrThrow_inv [invs]:
  assumes "decoder_inv d" and "pushOrThrow dec d chunk = Inr (d', xs)"
  shows "decoder_inv d' \<and> maxFrameBytes d' = maxFrameBytes d \<and> failure d' = failure d"
  using assms by (auto simp: pushOrThrow_frames res_simps decoder_inv_def dest: frames_rest)

interpretation decoder_stream: chunked_stream pushOrThrow decoder_inv
proof
  fix dec :: "byte list \<Rightarrow> (violation, 'm) res" and d :: decoder and xs ys :: "byte list"
  assume inv: "decoder_inv d"
  then show "pushOrThrow dec d [] = Inr (d, [])"
    by (cases d) (simp add: pushOrThrow_frames decoder_inv_def frames_incomplete)
  show "pushOrThrow dec d (xs @ ys) = res_bind (pushOrThrow dec d xs)
      (\<lambda>(s', ms). res_map (\<lambda>(s'', ms'). (s'', ms @ ms')) (pushOrThrow dec s' ys))"
  proof (cases "frames (maxFrameBytes d) dec (buffer d @ xs)")
    case (Inl e)
    with inv frames_append [of "maxFrameBytes d" dec "buffer d @ xs" ys] show ?thesis
      by (simp add: pushOrThrow_frames)
  next
    case (Inr p)
    then obtain r ms where fr: "frames (maxFrameBytes d) dec (buffer d @ xs) = Inr (r, ms)"
      by (cases p) auto
    have "decoder_inv (d\<lparr>buffer := r, start_at := 0, end_at := length r\<rparr>)"
      using frames_rest [OF fr] by (simp add: decoder_inv_def)
    with inv fr frames_append [of "maxFrameBytes d" dec "buffer d @ xs" ys] show ?thesis
      by (simp add: pushOrThrow_frames res_map_comp comp_def split_def)
  qed
next
  fix dec :: "byte list \<Rightarrow> (violation, 'm) res" and d d' :: decoder and xs ms
  assume "decoder_inv d" and "pushOrThrow dec d xs = Inr (d', ms)"
  then show "decoder_inv d'" by (simp add: pushOrThrow_inv)
qed

section \<open>Runs of the decoder\<close>

text \<open>\<open>pushes\<close> hands a list of chunks to \<open>push\<close> and stops at the first violation. \<open>decoder_reach\<close> holds
  of every state a decoder created with a valid ceiling can get into, whatever is pushed.\<close>

primrec pushes ::
  "(byte list \<Rightarrow> (violation, 'm) res) \<Rightarrow> decoder \<Rightarrow> byte list list \<Rightarrow> (violation, decoder \<times> 'm list) res" where
  "pushes dec d [] = Inr (d, [])"
| "pushes dec d (c # cs) =
     (case push dec d c of
        (Inl v, _) \<Rightarrow> Inl v
      | (Inr ms, d') \<Rightarrow> res_map (\<lambda>(d'', ms'). (d'', ms @ ms')) (pushes dec d' cs))"

inductive decoder_reach :: "(byte list \<Rightarrow> (violation, 'm) res) \<Rightarrow> decoder \<Rightarrow> bool" for dec where
  created: "createFrameDecoder n = Inr d \<Longrightarrow> decoder_reach dec d"
| pushed: "decoder_reach dec d \<Longrightarrow> decoder_reach dec (snd (push dec d chunk))"

definition thrown_violation :: "thrown \<Rightarrow> violation" where
  "thrown_violation t = (case t of Violation v \<Rightarrow> v | OtherError \<Rightarrow> FrameMalformed)"

lemma createFrameDecoder_Inr:
  "createFrameDecoder n = Inr d \<longleftrightarrow>
     (\<exists>i. n = js_int i \<and> 0 < i \<and> i \<le> MAX_SAFE_INTEGER \<and>
        d = \<lparr>maxFrameBytes = nat i, buffer = [], start_at = 0, end_at = 0, failure = None\<rparr>)"
  by (auto simp: createFrameDecoder_def assertPositiveByteCeiling_def res_simps
      elim!: isSafeIntegerE split: if_splits)

lemma create_inv [invs]: "createFrameDecoder n = Inr d \<Longrightarrow> decoder_inv d \<and> failure d = None"
  by (auto simp: createFrameDecoder_Inr decoder_inv_def incomplete_def)

lemma push_healthy:
  assumes "failure d = None"
  shows "push dec d c =
    (case pushOrThrow dec d c of
       Inr (d', ms) \<Rightarrow> (Inr ms, d')
     | Inl t \<Rightarrow> (Inl (thrown_violation t),
         d\<lparr>failure := Some (thrown_violation t), buffer := [], start_at := 0, end_at := 0\<rparr>))"
  using assms by (auto simp: push_def thrown_violation_def Let_def split: sum.split)

lemma decoder_inv_reset:
  "decoder_inv (d\<lparr>failure := f, buffer := [], start_at := 0, end_at := 0\<rparr>)"
  by (simp add: decoder_inv_def incomplete_def)

lemma push_inv [invs]: "decoder_inv d \<Longrightarrow> decoder_inv (snd (push dec d c))"
  by (cases "failure d"; cases "pushOrThrow dec d c")
    (auto simp: push_def Let_def decoder_inv_reset pushOrThrow_inv split: prod.split)

lemma push_maxFrameBytes [simp]: "decoder_inv d \<Longrightarrow> maxFrameBytes (snd (push dec d c)) = maxFrameBytes d"
  by (cases "failure d"; cases "pushOrThrow dec d c")
    (auto simp: push_def Let_def pushOrThrow_inv split: prod.split)

lemma reach_inv: "decoder_reach dec d \<Longrightarrow> decoder_inv d"
  by (induction rule: decoder_reach.induct) (auto simp: create_inv push_inv)

lemma pushes_feed:
  assumes "decoder_inv d" and "failure d = None"
  shows "pushes dec d cs =
    (case feed (pushOrThrow dec) d cs of Inl t \<Rightarrow> Inl (thrown_violation t) | Inr r \<Rightarrow> Inr r)"
  using assms
proof (induction cs arbitrary: d)
  case (Cons c cs)
  show ?case
  proof (cases "pushOrThrow dec d c")
    case (Inl t)
    with Cons show ?thesis by (simp add: push_healthy)
  next
    case (Inr p)
    with Cons pushOrThrow_inv [of d dec c "fst p" "snd p"] show ?thesis
      by (auto simp: push_healthy res_map_def split: prod.split sum.split)
  qed
qed simp

lemma frames_encoded:
  assumes "length body < 2 ^ 32" and "body \<noteq> []" and "length body \<le> m"
  shows "frames m dec (frame_header (length body) @ body @ rest) =
    (case dec body of Inl v \<Rightarrow> Inl (Violation v)
     | Inr x \<Rightarrow> res_map (\<lambda>(r, xs). (r, x # xs)) (frames m dec rest))"
  using assms be32_frame_header [of "length body" "body @ rest"]
  by (subst frames.simps) (simp add: not_less split: sum.split)

text \<open>C13: the result of a run does not depend on how the transport cuts the byte stream into chunks.
  From a freshly created decoder, two chunkings of the same bytes both fail with the same violation,
  or both deliver the same messages and end in the same state.\<close>

theorem push_chunking_irrelevant:
  assumes "createFrameDecoder n = Inr d" and "concat cs = concat cs'"
  shows "pushes dec d cs = pushes dec d cs'"
proof -
  from assms(1) have inv: "decoder_inv d" "failure d = None" by (simp_all add: create_inv)
  from decoder_stream.feed_chunking_irrelevant [OF inv(1) assms(2), where p = dec] inv
  show ?thesis by (simp add: pushes_feed)
qed

theorem push_chunking_irrelevant_witness:
  "pushes (\<lambda>b. Inr b) \<lparr>maxFrameBytes = 8, buffer = [], start_at = 0, end_at = 0, failure = None\<rparr>
       [[0, 0], [0, 1, 65], []]
   = pushes (\<lambda>b. Inr b) \<lparr>maxFrameBytes = 8, buffer = [], start_at = 0, end_at = 0, failure = None\<rparr>
       [[0, 0, 0, 1, 65]]"
  by (rule push_chunking_irrelevant [of "js_int 8"]) (simp_all add: createFrameDecoder_Inr MAX_SAFE_INTEGER_def)

text \<open>C14: round trip over the wire. Let every message be encoded by \<open>encodeFrame\<close> under the decoder's own
  ceiling, below 4 GiB, and let the body codec invert the serialisation of these messages (which is never
  empty). Then pushing the frames, cut into chunks in any way, delivers exactly the messages, in order, and
  leaves nothing buffered.\<close>

theorem encode_push_roundtrip:
  assumes created: "createFrameDecoder n = Inr d" and ceiling: "int_of n < 2 ^ 32"
    and encoded: "res_all (\<lambda>m. encodeFrame stringify encode m n) ms = Inr fs"
    and codec: "\<And>m t. m \<in> set ms \<Longrightarrow> stringify m = Inr (Some t) \<Longrightarrow> encode t \<noteq> [] \<and> dec (encode t) = Inr m"
    and chunks: "concat cs = concat fs"
  shows "pushes dec d cs = Inr (d, ms)"
proof -
  have inv: "decoder_inv d" "failure d = None" using created by (simp_all add: create_inv)
  have max: "maxFrameBytes d = nat (int_of n)" "buffer d = []" "start_at d = 0" "end_at d = 0"
    using created by (auto simp: createFrameDecoder_Inr)
  have "frames (maxFrameBytes d) dec (concat fs) = Inr ([], ms)"
    using encoded codec
  proof (induction ms arbitrary: fs)
    case Nil
    then show ?case by (simp add: frames_incomplete incomplete_def)
  next
    case (Cons m ms)
    then obtain t gs where "stringify m = Inr (Some t)" and len: "int (length (encode t)) \<le> int_of n"
      and fs: "fs = (frame_header (length (encode t)) @ encode t) # gs"
      and gs: "res_all (\<lambda>m. encodeFrame stringify encode m n) ms = Inr gs"
      by (auto simp: res_simps encodeFrame_def Let_def split: sum.splits option.splits if_splits)
    have "encode t \<noteq> [] \<and> dec (encode t) = Inr m"
      using Cons.prems(2) [of m t] \<open>stringify m = Inr (Some t)\<close> by simp
    moreover have "frames (maxFrameBytes d) dec (concat gs) = Inr ([], ms)"
      by (rule Cons.IH [OF gs]) (use Cons.prems(2) in auto)
    moreover have "int (length (encode t)) < int (2 ^ 32)" using len ceiling by simp
    then have "length (encode t) < 2 ^ 32" by (simp only: of_nat_less_iff)
    moreover have "length (encode t) \<le> maxFrameBytes d" using len max by simp
    ultimately show ?case using fs by (simp add: frames_encoded)
  qed
  then have "pushOrThrow dec d (concat cs) = Inr (d, ms)"
    using inv max chunks by (cases d) (simp add: pushOrThrow_frames)
  with inv show ?thesis
    by (simp add: pushes_feed decoder_stream.feed_concat)
qed

theorem encode_push_roundtrip_witness:
  "pushes (\<lambda>b. Inr (length b)) \<lparr>maxFrameBytes = 8, buffer = [], start_at = 0, end_at = 0, failure = None\<rparr>
     [[0, 0, 0], [1, 65, 0, 0, 0, 2], [65, 65]] =
   Inr (\<lparr>maxFrameBytes = 8, buffer = [], start_at = 0, end_at = 0, failure = None\<rparr>, [1, 2])"
proof (rule encode_push_roundtrip [where n = "js_int 8" and stringify = "\<lambda>k. Inr (Some k)"
      and encode = "\<lambda>k. replicate k 65" and fs = "[[0, 0, 0, 1, 65], [0, 0, 0, 2, 65, 65]]"])
  have "replicate 2 65 = [65, 65 :: byte]" by (simp add: numeral_2_eq_2)
  moreover have "frame_header 1 = [0, 0, 0, 1]" "frame_header 2 = [0, 0, 0, 2]"
    by (simp_all add: frame_header_def)
  then have "frame_header (Suc (Suc 0)) = [0, 0, 0, 2]" "frame_header (Suc 0) = [0, 0, 0, 1]"
    by (simp_all add: numeral_2_eq_2)
  ultimately show "res_all (\<lambda>m. encodeFrame (\<lambda>k. Inr (Some k)) (\<lambda>k. replicate k (65 :: byte)) m (js_int 8)) [1, 2] =
      Inr [[0, 0, 0, 1, 65], [0, 0, 0, 2, 65, 65]]"
    by (simp add: encodeFrame_def assertPositiveByteCeiling_def MAX_SAFE_INTEGER_def Let_def)
qed (auto simp: createFrameDecoder_Inr MAX_SAFE_INTEGER_def)

text \<open>memory bound and early rejection. In every reachable state fewer than \<open>maxFrameBytes + 4\<close> bytes are
  buffered, so the final overflow check of \<open>#pushOrThrow\<close> never fires; and as soon as the four header bytes of
  the pending frame announce more than the ceiling, \<open>push\<close> fails with \<open>frame-oversized\<close> whatever follows.\<close>

theorem decoder_bounded:
  assumes "decoder_reach dec d"
  shows "buffered d < maxFrameBytes d + FRAME_HEADER_BYTES \<and>
    (failure d = None \<and> 4 \<le> length (buffer d @ chunk) \<and> maxFrameBytes d < be32 (buffer d @ chunk) \<longrightarrow>
      fst (push dec d chunk) = Inl FrameOversized)"
proof (intro conjI impI)
  from assms have inv: "decoder_inv d" by (rule reach_inv)
  then show "buffered d < maxFrameBytes d + FRAME_HEADER_BYTES"
    by (auto simp: decoder_inv_def incomplete_def buffered_def FRAME_HEADER_BYTES_def)
  assume "failure d = None \<and> 4 \<le> length (buffer d @ chunk) \<and> maxFrameBytes d < be32 (buffer d @ chunk)"
  with inv show "fst (push dec d chunk) = Inl FrameOversized"
    by (simp add: push_healthy pushOrThrow_frames, subst frames.simps) (simp add: thrown_violation_def)
qed

theorem decoder_bounded_witness:
  "fst (push (\<lambda>b. Inr b) \<lparr>maxFrameBytes = 8, buffer = [], start_at = 0, end_at = 0, failure = None\<rparr>
     [0, 0, 0, 9]) = Inl FrameOversized"
proof -
  have "decoder_reach (\<lambda>b. Inr b :: (violation, byte list) res)
      \<lparr>maxFrameBytes = 8, buffer = [], start_at = 0, end_at = 0, failure = None\<rparr>"
    by (rule decoder_reach.created [of "js_int 8"]) (simp add: createFrameDecoder_Inr MAX_SAFE_INTEGER_def)
  from decoder_bounded [OF this, of "[0, 0, 0, 9]"] show ?thesis by simp
qed

text \<open>a decoder fails closed. After a push of a reachable decoder has thrown, nothing stays buffered, and
  every later sequence of pushes leaves the decoder as it is and throws \<open>decoder-poisoned\<close> at its first
  push.\<close>

theorem failed_push_poisons:
  assumes "fst (push dec d chunk) = Inl v" and "failure d = None" and "d' = snd (push dec d chunk)"
  shows "buffered d' = 0 \<and> buffer d' = [] \<and> failure d' = Some v \<and>
    (\<forall>chunk'. push dec d' chunk' = (Inl DecoderPoisoned, d')) \<and>
    (\<forall>c cs. pushes dec d' (c # cs) = Inl DecoderPoisoned)"
proof -
  from assms obtain t where "pushOrThrow dec d chunk = Inl t" "v = thrown_violation t"
    by (auto simp: push_healthy split: sum.splits)
  with assms have "d' = d\<lparr>failure := Some v, buffer := [], start_at := 0, end_at := 0\<rparr>"
    by (simp add: push_healthy)
  then show ?thesis by (simp add: buffered_def push_def)
qed

theorem failed_push_poisons_witness:
  "let d = snd (push (\<lambda>b. Inr b) \<lparr>maxFrameBytes = 8, buffer = [], start_at = 0, end_at = 0, failure = None\<rparr>
     [0, 0, 0, 9])
   in pushes (\<lambda>b. Inr b) d [[0, 0, 0, 1, 65]] = Inl DecoderPoisoned"
proof -
  have "fst (push (\<lambda>b. Inr b) \<lparr>maxFrameBytes = 8, buffer = [], start_at = 0, end_at = 0, failure = None\<rparr>
      [0, 0, 0, 9]) = Inl FrameOversized"
    by (simp add: push_def pushOrThrow_def append_chunk_def array_set_def subarray_def
        decodeLoop.simps readLength_def FRAME_HEADER_BYTES_def Let_def)
  from failed_push_poisons [OF this _ refl] show ?thesis by (simp add: Let_def)
qed

end
