(* ===== verification/Broker_Inv.thy ===== *)
theory Broker_Inv
  imports ResourceBroker
begin

text \<open>
  The invariant of the resource broker and its preservation by every operation.

  The invariant is split per attempt. \<open>queue_of s aid\<close> and \<open>leases_of s aid\<close> are what the queue and the lease
  map hold for one attempt id; \<open>attempt_inv\<close> relates them to the attempt object (or to its absence);
  \<open>global_inv\<close> holds the facts about all entries. An operation that works on one attempt leaves the views of
  all others unchanged (\<open>attempt_inv_cong\<close>), so each proof is about one attempt and the totals.
  \<open>broker_reach\<close> is reachability under any interleaving of the public operations and timer or abort events.
\<close>

section \<open>The invariant\<close>

definition queue_of :: "broker \<Rightarrow> string \<Rightarrow> pending_acquire list" where
  "queue_of s aid = filter (\<lambda>p. attemptId (pendOwner p) = aid) (queue s)"

definition leases_of :: "broker \<Rightarrow> string \<Rightarrow> (string, lease_record) js_map" where
  "leases_of s aid = filter (\<lambda>(_, l). attemptId (leaseOwner l) = aid) (leases s)"

abbreviation lease_units :: "(string, lease_record) js_map \<Rightarrow> (string, units) js_map" where
  "lease_units \<equiv> map (\<lambda>(lid, l). (lid, leaseUnits l))"

definition active_worker :: "broker \<Rightarrow> attempt_identity \<Rightarrow> bool" where
  "active_worker s i \<longleftrightarrow> js_get (workers s) (workerId i) = Some (workerEpoch i) \<and> runId i = brokerRun s"

text \<open>\<open>attempt_pre\<close> holds while an operation is under way; between operations an attempt object also has
  something to keep it alive.\<close>

definition attempt_pre :: "broker \<Rightarrow> string \<Rightarrow> attempt_state \<Rightarrow> bool" where
  "attempt_pre s aid a \<longleftrightarrow>
     attemptId (owner a) = aid \<and> active_worker s (owner a) \<and>
     attemptLeases a = lease_units (leases_of s aid) \<and>
     reservation a = lease_sum (attemptLeases a) \<and>
     queued a = int (length (queue_of s aid)) \<and>
     (\<forall>l \<in> snd ` set (leases_of s aid). leaseOwner l = owner a) \<and>
     (\<forall>p \<in> set (queue_of s aid). sameWorker (owner a) (pendOwner p))"

definition attempt_inv :: "broker \<Rightarrow> string \<Rightarrow> bool" where
  "attempt_inv s aid \<longleftrightarrow>
     (case js_get (attempts s) aid of
        None \<Rightarrow> queue_of s aid = [] \<and> leases_of s aid = []
      | Some a \<Rightarrow> attempt_pre s aid a \<and> (leases_of s aid \<noteq> [] \<or> queue_of s aid \<noteq> []))"

definition lease_inv :: "env \<Rightarrow> broker \<Rightarrow> string \<times> lease_record \<Rightarrow> bool" where
  "lease_inv e s = (\<lambda>(lid, l). leaseId l = lid \<and> \<not> leaseReleased l \<and>
     (\<exists>k < draws s. lid = ''lease:'' @ uuid e k) \<and> (\<forall>r. 0 \<le> leaseUnits l r))"

definition pending_inv :: "broker \<Rightarrow> pending_acquire \<Rightarrow> bool" where
  "pending_inv s p \<longleftrightarrow> pendSequence p \<notin> settled s \<and> pendSequence p \<le> sequence s \<and>
     (\<forall>r. 0 \<le> pendUnits p r \<and> pendUnits p r \<le> capacities s r)"

definition global_inv :: "env \<Rightarrow> broker \<Rightarrow> bool" where
  "global_inv e s \<longleftrightarrow>
     wf_map (attempts s) \<and> wf_map (leases s) \<and>
     (\<forall>x \<in> set (leases s). lease_inv e s x) \<and>
     (\<forall>p \<in> set (queue s). pending_inv s p) \<and> distinct (map pendSequence (queue s)) \<and>
     distinct (map fst (settlements s)) \<and> fst ` set (settlements s) \<subseteq> settled s \<and>
     settled s \<subseteq> {..sequence s} \<and>
     (\<forall>r. used s r \<le> capacities s r) \<and>
     (\<forall>r. map_sum (\<lambda>a. reservation a r) (attempts s) = used s r)"

definition broker_inv :: "env \<Rightarrow> broker \<Rightarrow> bool" where
  "broker_inv e s \<longleftrightarrow> global_inv e s \<and> (\<forall>aid. attempt_inv s aid)"

lemma lease_inv_mono: "draws s \<le> draws s' \<Longrightarrow> lease_inv e s x \<Longrightarrow> lease_inv e s' x"
  by (auto simp: lease_inv_def intro: order_less_le_trans)

lemma broker_invD:
  assumes "broker_inv e s"
  shows "global_inv e s" and "\<And>aid. attempt_inv s aid"
  using assms by (simp_all add: broker_inv_def)

lemma attempt_inv_cong:
  "js_get (attempts s') aid = js_get (attempts s) aid \<Longrightarrow> queue_of s' aid = queue_of s aid \<Longrightarrow>
   leases_of s' aid = leases_of s aid \<Longrightarrow> workers s' = workers s \<Longrightarrow> brokerRun s' = brokerRun s \<Longrightarrow>
   attempt_inv s' aid = attempt_inv s aid"
  by (simp add: attempt_inv_def attempt_pre_def active_worker_def split: option.split)

text \<open>To restore the invariant after a change to one attempt, look at this attempt and the totals only.\<close>

lemma broker_inv_update:
  assumes "broker_inv e s" and "global_inv e s'" and "attempt_inv s' aid"
    and "\<And>aid'. aid' \<noteq> aid \<Longrightarrow> js_get (attempts s') aid' = js_get (attempts s) aid' \<and>
        queue_of s' aid' = queue_of s aid' \<and> leases_of s' aid' = leases_of s aid'"
    and "workers s' = workers s" and "brokerRun s' = brokerRun s"
  shows "broker_inv e s'"
  unfolding broker_inv_def
proof (intro conjI allI)
  fix aid'
  show "attempt_inv s' aid'"
    using assms attempt_inv_cong [of s' aid' s] by (cases "aid' = aid") (auto simp: broker_inv_def)
qed (rule assms)

text \<open>Fields that the invariant does not read.\<close>

lemma broker_inv_frame [simp]:
  "broker_inv e (s\<lparr>reads := n\<rparr>) = broker_inv e s"
  "broker_inv e (s\<lparr>releasePromises := m\<rparr>) = broker_inv e s"
  "broker_inv e (s\<lparr>highestEpoch := h\<rparr>) = broker_inv e s"
  by (simp_all add: broker_inv_def global_inv_def attempt_inv_def attempt_pre_def queue_of_def leases_of_def
      active_worker_def pending_inv_def lease_inv_def cong: option.case_cong)

lemma RESOURCE_CLASSES_all: "r \<in> set RESOURCE_CLASSES"
  by (cases r) (simp_all add: RESOURCE_CLASSES_def)

lemma fits_iff: "fits s u \<longleftrightarrow> (\<forall>r. used s r + u r \<le> capacities s r)"
  using RESOURCE_CLASSES_all by (auto simp: fits_def list_all_iff)

lemma length_filter_remove:
  "distinct (map f xs) \<Longrightarrow> x \<in> set xs \<Longrightarrow> length (filter (\<lambda>y. f y \<noteq> f x) xs) = length xs - 1"
proof (induction xs)
  case (Cons y ys)
  show ?case
  proof (cases "x = y")
    case True
    with Cons.prems have "f x \<notin> f ` set ys" by simp
    then have "filter (\<lambda>z. f z \<noteq> f x) ys = ys" by (intro filter_True) (auto simp: image_iff)
    with True show ?thesis by simp
  next
    case False
    with Cons have "f y \<noteq> f x" "length (filter (\<lambda>z. f z \<noteq> f x) ys) = length ys - 1" "ys \<noteq> []" by auto
    then show ?thesis by (cases ys) auto
  qed
qed simp

section \<open>Fresh lease ids\<close>

lemma freshLeaseId_inj:
  assumes "inj (uuid e)" and "\<forall>x \<in> set (leases s). \<exists>k < draws s. fst x = ''lease:'' @ uuid e k"
  shows "freshLeaseId (Suc n) e s = (Some (''lease:'' @ uuid e (draws s)), s\<lparr>draws := Suc (draws s)\<rparr>)"
proof -
  have "''lease:'' @ uuid e (draws s) \<notin> set (js_keys (leases s))"
    using assms by (fastforce dest: injD)
  then show ?thesis by (simp add: js_get_None_iff Let_def)
qed

lemma lease_ids_drawn:
  "global_inv e s \<Longrightarrow> \<forall>x \<in> set (leases s). \<exists>k < draws s. fst x = ''lease:'' @ uuid e k"
  by (auto simp: global_inv_def lease_inv_def)

section \<open>Operations on one attempt\<close>

text \<open>\<open>weak_inv e s aid a\<close>: the invariant, except that the attempt \<open>a\<close> may be empty.\<close>

definition weak_inv :: "env \<Rightarrow> broker \<Rightarrow> string \<Rightarrow> attempt_state \<Rightarrow> bool" where
  "weak_inv e s aid a \<longleftrightarrow> global_inv e s \<and> (\<forall>aid'. aid' \<noteq> aid \<longrightarrow> attempt_inv s aid') \<and>
     js_get (attempts s) aid = Some a \<and> attempt_pre s aid a"

lemma weak_inv_update:
  assumes "\<forall>aid'. aid' \<noteq> aid \<longrightarrow> attempt_inv s aid'" and "global_inv e s'"
    and "js_get (attempts s') aid = Some a" and "attempt_pre s' aid a"
    and "\<And>aid'. aid' \<noteq> aid \<Longrightarrow> js_get (attempts s') aid' = js_get (attempts s) aid' \<and>
        queue_of s' aid' = queue_of s aid' \<and> leases_of s' aid' = leases_of s aid'"
    and "workers s' = workers s" and "brokerRun s' = brokerRun s"
  shows "weak_inv e s' aid a"
  using assms attempt_inv_cong [of s' _ s] by (auto simp: weak_inv_def)

lemma weak_inv_nonempty:
  "weak_inv e s aid a \<Longrightarrow> leases_of s aid \<noteq> [] \<or> queue_of s aid \<noteq> [] \<Longrightarrow> broker_inv e s"
  unfolding broker_inv_def
proof (intro conjI allI)
  fix aid'
  assume "weak_inv e s aid a" "leases_of s aid \<noteq> [] \<or> queue_of s aid \<noteq> []"
  then show "attempt_inv s aid'"
    by (cases "aid' = aid") (simp_all add: weak_inv_def attempt_inv_def)
qed (simp add: weak_inv_def)

lemma broker_weak_inv:
  "broker_inv e s \<Longrightarrow> js_get (attempts s) aid = Some a \<Longrightarrow> weak_inv e s aid a"
  using broker_invD [of e s] by (auto simp: broker_inv_def weak_inv_def attempt_inv_def dest: spec [of _ aid])

lemma deleteAttemptIfEmpty_inv:
  assumes "weak_inv e s aid a"
  shows "broker_inv e (deleteAttemptIfEmpty aid s)"
proof (cases "attemptLeases a = [] \<and> queued a = 0")
  case False
  with assms show ?thesis
    by (auto simp: deleteAttemptIfEmpty_def weak_inv_def attempt_pre_def intro!: weak_inv_nonempty)
next
  case True
  let ?s = "s\<lparr>attempts := js_delete aid (attempts s)\<rparr>"
  have empty: "queue_of s aid = []" "leases_of s aid = []" "reservation a = (\<lambda>_. 0)"
    using assms True by (auto simp: weak_inv_def attempt_pre_def lease_sum_def)
  have "map_sum (\<lambda>a. reservation a r) (js_delete aid (attempts s)) = used s r" for r
    using assms empty map_sum_delete [of "attempts s" aid a "\<lambda>a. reservation a r"]
    by (simp add: weak_inv_def global_inv_def)
  then have "global_inv e ?s"
    using assms by (auto simp: weak_inv_def global_inv_def pending_inv_def lease_inv_def)
  moreover have "attempt_inv ?s aid'" for aid'
  proof (cases "aid' = aid")
    case True
    with empty show ?thesis by (simp add: attempt_inv_def delete_conv' queue_of_def leases_of_def)
  next
    case False
    with assms show ?thesis
      using attempt_inv_cong [of ?s aid' s] by (simp add: weak_inv_def delete_conv' queue_of_def leases_of_def)
  qed
  ultimately show ?thesis
    using assms True by (simp add: deleteAttemptIfEmpty_def weak_inv_def broker_inv_def)
qed

lemma leases_of_frame [simp]:
  "leases_of (s\<lparr>attempts := x\<rparr>) = leases_of s" "leases_of (s\<lparr>used := y\<rparr>) = leases_of s"
  "leases_of (s\<lparr>queue := q\<rparr>) = leases_of s" "leases_of (s\<lparr>settled := z\<rparr>) = leases_of s"
  "leases_of (s\<lparr>draws := d\<rparr>) = leases_of s" "leases_of (s\<lparr>refs := d\<rparr>) = leases_of s"
  "leases_of (s\<lparr>reads := d\<rparr>) = leases_of s" "leases_of (s\<lparr>sequence := d\<rparr>) = leases_of s"
  "leases_of (s\<lparr>settlements := w\<rparr>) = leases_of s"
  by (simp_all add: leases_of_def fun_eq_iff)

lemma queue_of_frame [simp]:
  "queue_of (s\<lparr>attempts := x\<rparr>) = queue_of s" "queue_of (s\<lparr>used := y\<rparr>) = queue_of s"
  "queue_of (s\<lparr>leases := l\<rparr>) = queue_of s" "queue_of (s\<lparr>settled := z\<rparr>) = queue_of s"
  "queue_of (s\<lparr>draws := d\<rparr>) = queue_of s" "queue_of (s\<lparr>refs := d\<rparr>) = queue_of s"
  "queue_of (s\<lparr>reads := d\<rparr>) = queue_of s" "queue_of (s\<lparr>sequence := d\<rparr>) = queue_of s"
  "queue_of (s\<lparr>settlements := w\<rparr>) = queue_of s"
  by (simp_all add: queue_of_def fun_eq_iff)

lemma leases_of_keys: "set (js_keys (lease_units (leases_of s aid))) \<subseteq> set (js_keys (leases s))"
  by (force simp: leases_of_def)

lemma lease_sum_append [simp]: "lease_sum (m @ [(k, u)]) = (\<lambda>r. lease_sum m r + u r)"
  by (simp add: lease_sum_def)

lemma map_sum_reservation_set:
  "wf_map (attempts s) \<Longrightarrow> js_get (attempts s) aid = Some a \<Longrightarrow>
   map_sum (\<lambda>a. reservation a r) (js_set aid a' (attempts s)) =
     map_sum (\<lambda>a. reservation a r) (attempts s) - reservation a r + reservation a' r"
  by (rule map_sum_set)

lemma grant_fresh:
  fixes a :: attempt_state and u :: units
  assumes "global_inv e s" and "inj (uuid e)"
  defines "lid \<equiv> ''lease:'' @ uuid e (draws s)" and "aid \<equiv> attemptId (owner a)"
  defines "lease \<equiv> \<lparr>leaseRef = refs s, leaseId = lid, leaseToken = uuid e (Suc (draws s)), leaseOwner = owner a,
    leaseUnits = u, leaseAttachments = [], leaseReleased = False\<rparr>"
  defines "a' \<equiv> a\<lparr>reservation := (\<lambda>r. reservation a r + u r), attemptLeases := js_set lid u (attemptLeases a)\<rparr>"
  shows "grant e a u s = (Inr lease, s\<lparr>used := (\<lambda>r. used s r + u r), attempts := js_set aid a' (attempts s),
      leases := js_set lid lease (leases s), draws := Suc (Suc (draws s)), refs := Suc (refs s)\<rparr>)"
proof -
  let ?s = "s\<lparr>used := (\<lambda>r. used s r + u r),
    attempts := js_set aid (a\<lparr>reservation := (\<lambda>r. reservation a r + u r)\<rparr>) (attempts s)\<rparr>"
  have "freshLeaseId 8 e ?s = (Some lid, ?s\<lparr>draws := Suc (draws s)\<rparr>)"
    using freshLeaseId_inj [of e ?s 7] assms lease_ids_drawn [OF assms(1)]
    by (simp add: lid_def eval_nat_numeral del: freshLeaseId.simps)
  then show ?thesis by (simp add: grant_def Let_def lease_def a'_def aid_def)
qed

lemma grant_inv:
  assumes weak: "weak_inv e s aid a" and "inj (uuid e)" and "fits s u" and "\<forall>r. 0 \<le> u r"
    and eq: "grant e a u s = (r, s')"
  shows "broker_inv e s'" and "\<exists>l. r = Inr l"
proof -
  from weak have g: "global_inv e s" and aid: "attemptId (owner a) = aid" and
    wf: "wf_map (attempts s)" and get: "js_get (attempts s) aid = Some a"
    by (auto simp: weak_inv_def attempt_pre_def global_inv_def)
  define lid where "lid = ''lease:'' @ uuid e (draws s)"
  define lease where "lease = \<lparr>leaseRef = refs s, leaseId = lid, leaseToken = uuid e (Suc (draws s)),
    leaseOwner = owner a, leaseUnits = u, leaseAttachments = [], leaseReleased = False\<rparr>"
  define a' where "a' = a\<lparr>reservation := (\<lambda>r. reservation a r + u r), attemptLeases := js_set lid u (attemptLeases a)\<rparr>"
  have r: "r = Inr lease" and s': "s' = s\<lparr>used := (\<lambda>r. used s r + u r), attempts := js_set aid a' (attempts s),
      leases := js_set lid lease (leases s), draws := Suc (Suc (draws s)), refs := Suc (refs s)\<rparr>"
    using grant_fresh [OF g assms(2), of a u] eq aid by (simp_all add: lid_def lease_def a'_def)
  show "\<exists>l. r = Inr l" using r by blast
  have lown: "leaseOwner lease = owner a" "leaseUnits lease = u" by (simp_all add: lease_def)
  have fresh: "lid \<notin> set (js_keys (leases s))"
    using lease_ids_drawn [OF g] assms(2) by (fastforce simp: lid_def dest: injD)
  then have lset: "js_set lid lease (leases s) = leases s @ [(lid, lease)]" by (rule js_set_absent)
  have ls: "leases s' = leases s @ [(lid, lease)]" by (simp add: s' lset)
  have lof: "leases_of s' aid' = leases_of s aid' @ (if aid' = aid then [(lid, lease)] else [])" for aid'
    using aid lown by (simp add: leases_of_def s' lset)
  have qof: "queue_of s' = queue_of s" by (simp add: s' queue_of_def fun_eq_iff)
  have frame: "workers s' = workers s" "brokerRun s' = brokerRun s" by (simp_all add: s')
  have "lid \<notin> set (js_keys (attemptLeases a))"
    using fresh weak leases_of_keys [of s aid] by (auto simp: weak_inv_def attempt_pre_def)
  then have alease: "js_set lid u (attemptLeases a) = attemptLeases a @ [(lid, u)]" by (rule js_set_absent)
  have a'_fields: "owner a' = owner a" "queued a' = queued a" "attemptLeases a' = attemptLeases a @ [(lid, u)]"
    "reservation a' = (\<lambda>r. reservation a r + u r)"
    by (simp_all add: a'_def alease)
  have pre: "attempt_pre s' aid a'"
    using weak by (auto simp: weak_inv_def attempt_pre_def lof qof a'_fields active_worker_def lown frame)
  have glob: "global_inv e s'"
    unfolding global_inv_def
  proof (intro conjI)
    show "\<forall>r. map_sum (\<lambda>a. reservation a r) (attempts s') = used s' r"
      using g map_sum_reservation_set [OF wf get, of _ a'] by (simp add: s' global_inv_def a'_def)
    show "\<forall>r. used s' r \<le> capacities s' r" using assms(3) by (simp add: s' fits_iff)
    show "\<forall>x \<in> set (leases s'). lease_inv e s' x"
    proof -
      have "lease_inv e s' (lid, lease)"
        using assms(4) by (auto simp: lease_inv_def lease_def lid_def s' intro!: exI [of _ "draws s"])
      moreover have "\<forall>x \<in> set (leases s). lease_inv e s' x"
        using g lease_inv_mono [of s s' e] by (simp add: global_inv_def s')
      ultimately show ?thesis using ls by auto
    qed
    show "wf_map (leases s')" using g fresh by (auto simp: ls global_inv_def)
  qed (use g in \<open>auto simp: s' global_inv_def pending_inv_def\<close>)
  have "weak_inv e s' aid a'"
    by (rule weak_inv_update [of aid s]) (use weak glob pre lof qof in \<open>auto simp: weak_inv_def s' update_conv'\<close>)
  then show "broker_inv e s'" by (rule weak_inv_nonempty) (simp add: lof)
qed

lemma attempt_of_weak:
  assumes inv: "broker_inv e s" and "active_worker s i" and eq: "attempt_of i s = Inr (a, s')"
  shows "weak_inv e s' (attemptId i) a" and "sameWorker (owner a) i"
    and "queue s' = queue s" and "used s' = used s" and "capacities s' = capacities s"
proof -
  have "weak_inv e s' (attemptId i) a \<and> sameWorker (owner a) i \<and> queue s' = queue s \<and> used s' = used s \<and>
    capacities s' = capacities s"
  proof (cases "js_get (attempts s) (attemptId i)")
    case (Some b)
    with eq have "a = b" "s' = s" "sameWorker (owner b) i" by (auto simp: attempt_of_def split: if_splits)
    with Some inv show ?thesis by (auto intro: broker_weak_inv)
  next
    case None
    let ?a = "\<lparr>owner = i, attemptLeases = [], reservation = ZERO, queued = 0\<rparr>"
    from None eq have s': "a = ?a" "s' = s\<lparr>attempts := js_set (attemptId i) ?a (attempts s)\<rparr>"
      by (auto simp: attempt_of_def Let_def)
    have empty: "queue_of s (attemptId i) = []" "leases_of s (attemptId i) = []"
      using broker_invD(2) [OF inv, of "attemptId i"] None by (auto simp: attempt_inv_def)
    have "map_sum (\<lambda>a. reservation a r) (attempts s') = used s r" for r
      using broker_invD(1) [OF inv] map_sum_set_new [OF None, of "\<lambda>a. reservation a r" ?a]
      by (simp add: s' ZERO_def global_inv_def)
    then have "global_inv e s'"
      using broker_invD(1) [OF inv] by (auto simp: s' global_inv_def pending_inv_def lease_inv_def)
    moreover have "attempt_pre s' (attemptId i) ?a"
      using empty assms(2) by (simp add: attempt_pre_def s' lease_sum_def ZERO_def active_worker_def)
    ultimately have "weak_inv e s' (attemptId i) a"
      using inv by (intro weak_inv_update [of _ s]) (auto simp: s' update_conv' broker_inv_def)
    with s' show ?thesis by (simp add: sameWorker_def)
  qed
  then show "weak_inv e s' (attemptId i) a" "sameWorker (owner a) i" "queue s' = queue s" "used s' = used s"
    "capacities s' = capacities s" by blast+
qed

lemma dequeue_weak:
  assumes inv: "broker_inv e s" and p: "p \<in> set (queue s)"
    and get: "js_get (attempts s) (attemptId (pendOwner p)) = Some a"
    and eq: "settlePending p a (s\<lparr>queue := filter (\<lambda>q. pendSequence q \<noteq> pendSequence p) (queue s)\<rparr>) = (a', s')"
  shows "weak_inv e s' (attemptId (pendOwner p)) a'"
proof -
  let ?aid = "attemptId (pendOwner p)"
  from inv p have g: "global_inv e s" and seq: "pendSequence p \<notin> settled s" "pendSequence p \<le> sequence s"
    by (auto simp: broker_inv_def global_inv_def pending_inv_def)
  from broker_weak_inv [OF inv get] have pre: "attempt_pre s ?aid a" by (simp add: weak_inv_def)
  have a': "a' = a\<lparr>queued := queued a - 1\<rparr>"
    and s': "s' = s\<lparr>queue := filter (\<lambda>q. pendSequence q \<noteq> pendSequence p) (queue s),
      settled := insert (pendSequence p) (settled s), attempts := js_set ?aid a' (attempts s)\<rparr>"
    using eq seq pre by (auto simp: settlePending_def Let_def attempt_pre_def)
  have frame: "workers s' = workers s" "brokerRun s' = brokerRun s" "leases_of s' = leases_of s"
    by (simp_all add: s')
  have dist: "distinct (map pendSequence (queue s))" using g by (simp add: global_inv_def)
  have filter_other: "filter (\<lambda>q. pendSequence q \<noteq> pendSequence p) (queue_of s aid') = queue_of s aid'"
    if "aid' \<noteq> ?aid" for aid'
    using p dist that
    by (intro filter_True) (auto simp: queue_of_def distinct_map dest: inj_onD)
  have qof: "queue_of s' aid' = filter (\<lambda>q. pendSequence q \<noteq> pendSequence p) (queue_of s aid')" for aid'
    by (simp add: s' queue_of_def conj_commute)
  have "distinct (map pendSequence (queue_of s ?aid))" and "p \<in> set (queue_of s ?aid)"
    using dist p by (auto simp: queue_of_def distinct_map inj_on_def)
  then have len: "length (queue_of s' ?aid) = length (queue_of s ?aid) - 1" and
    pos: "0 < length (queue_of s ?aid)"
    by (auto simp: qof length_filter_remove)
  from pos have qn: "int (length (queue_of s ?aid) - 1) = int (length (queue_of s ?aid)) - 1" by linarith
  have "attempt_pre s' ?aid a'"
    using pre len qn frame by (auto simp: attempt_pre_def a' qof active_worker_def)
  moreover have "global_inv e s'"
    unfolding global_inv_def
  proof (intro conjI)
    show "\<forall>r. map_sum (\<lambda>a. reservation a r) (attempts s') = used s' r"
      using g map_sum_reservation_set [OF _ get, of _ a'] by (simp add: s' a' global_inv_def)
    show "distinct (map pendSequence (queue s'))"
      using dist by (simp add: s' distinct_map inj_on_def)
  qed (use g seq in \<open>auto simp: s' global_inv_def pending_inv_def lease_inv_def\<close>)
  ultimately show ?thesis
    using inv by (intro weak_inv_update [of _ s])
      (auto simp: frame qof filter_other broker_inv_def, simp_all add: s' update_conv')
qed

lemma settle_inv:
  "broker_inv e s \<Longrightarrow> n \<in> settled s \<Longrightarrow> n \<notin> fst ` set (settlements s) \<Longrightarrow> broker_inv e (settle n r s)"
  by (simp add: settle_def broker_inv_def global_inv_def attempt_inv_def attempt_pre_def active_worker_def
      pending_inv_def lease_inv_def cong: option.case_cong)

lemma weak_inv_settle:
  "weak_inv e s aid a \<Longrightarrow> n \<in> settled s \<Longrightarrow> n \<notin> fst ` set (settlements s) \<Longrightarrow> weak_inv e (settle n r s) aid a"
  by (simp add: settle_def weak_inv_def global_inv_def attempt_inv_def attempt_pre_def active_worker_def
      pending_inv_def lease_inv_def cong: option.case_cong)

lemma pending_attempt:
  assumes "broker_inv e s" and "p \<in> set (queue s)"
  obtains a where "js_get (attempts s) (attemptId (pendOwner p)) = Some a" and "sameWorker (owner a) (pendOwner p)"
    and "attempt_pre s (attemptId (pendOwner p)) a"
  using assms broker_invD(2) [OF assms(1), of "attemptId (pendOwner p)"]
  by (auto simp: attempt_inv_def attempt_pre_def queue_of_def filter_empty_conv split: option.splits)

lemma deleteAttemptIfEmpty_settle:
  "deleteAttemptIfEmpty aid (settle n r s) = settle n r (deleteAttemptIfEmpty aid s)"
  by (simp add: deleteAttemptIfEmpty_def settle_def split: option.split)

lemma settled_deleteAttemptIfEmpty [simp]:
  "settled (deleteAttemptIfEmpty aid s) = settled s" "settlements (deleteAttemptIfEmpty aid s) = settlements s"
  by (simp_all add: deleteAttemptIfEmpty_def split: option.split)

lemma cancel_core_inv:
  assumes inv: "broker_inv e s" and p: "p \<in> set (queue s)"
  shows "broker_inv e (cancel_core p err s)"
proof -
  obtain a where get: "js_get (attempts s) (attemptId (pendOwner p)) = Some a"
    using pending_attempt [OF inv p] .
  let ?s = "s\<lparr>queue := filter (\<lambda>q. pendSequence q \<noteq> pendSequence p) (queue s)\<rparr>"
  obtain a' s' where eq: "settlePending p a ?s = (a', s')" by (cases "settlePending p a ?s")
  from inv p have "pendSequence p \<notin> settled s" "fst ` set (settlements s) \<subseteq> settled s"
    by (auto simp: broker_inv_def global_inv_def pending_inv_def)
  then have "pendSequence p \<notin> settled s" "pendSequence p \<notin> fst ` set (settlements s)" by blast+
  then have "pendSequence p \<in> settled s'" "pendSequence p \<notin> fst ` set (settlements s')"
    using eq by (auto simp: settlePending_def Let_def)
  then have "broker_inv e (settle (pendSequence p) (Inl err) (deleteAttemptIfEmpty (attemptId (pendOwner p)) s'))"
    by (intro settle_inv deleteAttemptIfEmpty_inv [OF dequeue_weak [OF inv p get eq]]) simp_all
  with eq get show ?thesis by (simp add: cancel_core_def Let_def)
qed

section \<open>The drain loop\<close>

lemma remove_at_filter:
  "distinct (map f xs) \<Longrightarrow> i < length xs \<Longrightarrow> remove_at i xs = filter (\<lambda>y. f y \<noteq> f (xs ! i)) xs"
proof (induction xs arbitrary: i)
  case (Cons x xs)
  then have "filter (\<lambda>y. f y \<noteq> f x) xs = xs" by (intro filter_True) (auto simp: image_iff)
  moreover have "f x \<noteq> f (xs ! j)" if "i = Suc j" for j
    using Cons.prems that by (metis Suc_less_eq distinct.simps(2) image_eqI length_Cons list.set_map list.simps(9) nth_mem)
  ultimately show ?case
    using Cons by (cases i) (auto simp: remove_at_def)
qed simp

lemma settled_freshLeaseId [simp]:
  "settled (snd (freshLeaseId n e s)) = settled s" "settlements (snd (freshLeaseId n e s)) = settlements s"
  by (induction n arbitrary: s) (simp_all add: Let_def)

lemma settled_grant:
  assumes "grant e a u s = (r, s')"
  shows "settled s' = settled s" "settlements s' = settlements s"
proof -
  define s1 where "s1 = s\<lparr>used := (\<lambda>r. used s r + u r),
    attempts := js_set (attemptId (owner a)) (a\<lparr>reservation := (\<lambda>r. reservation a r + u r)\<rparr>) (attempts s)\<rparr>"
  obtain x s2 where fr: "freshLeaseId 8 e s1 = (x, s2)" by (cases "freshLeaseId 8 e s1")
  have s2: "settled s2 = settled s" "settlements s2 = settlements s"
    using settled_freshLeaseId [of 8 e s1, unfolded fr] by (simp_all add: s1_def)
  have "settled s' = settled s2 \<and> settlements s' = settlements s2"
    using assms fr unfolding grant_def Let_def s1_def [symmetric] by (cases x) auto
  with s2 show "settled s' = settled s" "settlements s' = settlements s" by simp_all
qed

lemma dequeued_grant_inv:
  assumes inv: "broker_inv e s" and inj: "inj (uuid e)" and i: "i < length (queue s)"
    and get: "js_get (attempts s) (attemptId (pendOwner (queue s ! i))) = Some a"
    and fits: "fits s (pendUnits (queue s ! i))"
    and eq: "grant e (fst (dequeued i a s)) (pendUnits (queue s ! i)) (snd (dequeued i a s)) = (r, s')"
  shows "broker_inv e s'" and "\<exists>l. r = Inr l" and "pendSequence (queue s ! i) \<in> settled s'"
    and "pendSequence (queue s ! i) \<notin> fst ` set (settlements s')"
proof -
  let ?p = "queue s ! i" and ?t = "tick s"
  have p: "?p \<in> set (queue s)" using i by simp
  have tinv: "broker_inv e ?t" using inv by simp
  from inv p have dist: "distinct (map pendSequence (queue s))" and pinv: "pending_inv s ?p"
    and sub: "fst ` set (settlements s) \<subseteq> settled s"
    by (auto simp: broker_inv_def global_inv_def)
  obtain a' s1 where d: "dequeued i a s = (a', s1)" by (cases "dequeued i a s")
  have "settlePending ?p a (?t\<lparr>queue := filter (\<lambda>q. pendSequence q \<noteq> pendSequence ?p) (queue ?t)\<rparr>) = (a', s1)"
    using d remove_at_filter [OF dist i] by simp
  from dequeue_weak [OF tinv _ _ this] have weak: "weak_inv e s1 (attemptId (pendOwner ?p)) a'"
    using p get by simp
  have s1: "used s1 = used s" "capacities s1 = capacities s" "pendSequence ?p \<in> settled s1"
      "settlements s1 = settlements s"
    using d pinv by (auto simp: settlePending_def Let_def pending_inv_def)
  from eq d have g: "grant e a' (pendUnits ?p) s1 = (r, s')" by simp
  show "broker_inv e s'" "\<exists>l. r = Inr l"
    using grant_inv [OF weak inj _ _ g] fits pinv s1 by (simp_all add: fits_iff pending_inv_def)
  show "pendSequence ?p \<in> settled s'" "pendSequence ?p \<notin> fst ` set (settlements s')"
    using settled_grant [OF g] s1 sub pinv by (auto simp: pending_inv_def)
qed

lemma drain_step_inv:
  assumes inv: "broker_inv e s" and inj: "inj (uuid e)"
  shows "case drain_step e s of Return s' \<Rightarrow> broker_inv e s' | Throw _ _ \<Rightarrow> False
    | Cancel s' \<Rightarrow> broker_inv e s' | Continue s' \<Rightarrow> broker_inv e s'"
proof (cases rule: drain_step_cases [of s e])
  case (expired i)
  then show ?thesis using cancel_core_inv [of e "tick s" "queue s ! i"] inv by simp
next
  case (orphan i)
  then show ?thesis using pending_attempt [OF inv, of "queue s ! i"] by fastforce
next
  case (thrown i a err s')
  with dequeued_grant_inv [OF inv inj] show ?thesis by blast
next
  case (granted i a lease s')
  then have "broker_inv e s'" and "pendSequence (queue s ! i) \<in> settled s'"
    "pendSequence (queue s ! i) \<notin> fst ` set (settlements s')"
    using dequeued_grant_inv [OF inv inj] by blast+
  with granted show ?thesis by (simp add: settle_inv)
qed (use inv in simp_all)

lemma drain_length: "length (queue (snd (drain e s))) \<le> length (queue s)"
proof (induction e s rule: drain.induct)
  case (1 e s)
  show ?case
  proof (cases "drain_step e s")
    case (Cancel s')
    with 1(1) drain_step_length [of e s s'] have "length (queue (snd (drain e s'))) < length (queue s)" by simp
    with Cancel 1(2) show ?thesis
      by (subst drain.simps) (fastforce split: prod.splits option.splits)
  next
    case (Continue s')
    with 1(3) drain_step_length [of e s s'] show ?thesis by (subst drain.simps) simp
  qed (use drain_step_length_le [of e s] in \<open>subst drain.simps, simp\<close>)+
qed

text \<open>A rule for the loop: what every iteration keeps holds at the end, and the loop ends with an iteration that
  returns.\<close>

lemma drain_rule:
  assumes step: "\<And>s. P s \<Longrightarrow> case drain_step e s of Return s' \<Rightarrow> P s' | Throw _ _ \<Rightarrow> False
      | Cancel s' \<Rightarrow> P s' | Continue s' \<Rightarrow> P s'"
    and "P s"
  shows "\<exists>s' s0. drain e s = (None, s') \<and> P s' \<and> P s0 \<and> drain_step e s0 = Return s'"
  using \<open>P s\<close>
proof (induction "length (queue s)" arbitrary: s rule: less_induct)
  case less
  show ?case
  proof (cases "drain_step e s")
    case (Return s')
    with step [OF less.prems] less.prems show ?thesis by (subst drain.simps) auto
  next
    case (Throw err s')
    with step [OF less.prems] show ?thesis by simp
  next
    case (Cancel s1)
    then have "length (queue s1) < length (queue s)" "P s1"
      using step [OF less.prems] drain_step_length [of e s s1] by simp_all
    with less.hyps obtain s2 where s2: "drain e s1 = (None, s2)" "P s2" by blast
    moreover have "length (queue s2) < length (queue s)"
      using drain_length [of e s1] s2 \<open>length (queue s1) < length (queue s)\<close> by simp
    ultimately show ?thesis
      using less.hyps [of s2] Cancel by (subst drain.simps) simp
  next
    case (Continue s')
    with step [OF less.prems] drain_step_length [of e s s'] less.hyps [of s'] show ?thesis
      by (subst drain.simps) simp
  qed
qed

lemma drain_inv:
  assumes "broker_inv e s" and "inj (uuid e)"
  obtains s' s0 where "drain e s = (None, s')" and "broker_inv e s'" and "broker_inv e s0"
    and "drain_step e s0 = Return s'"
  using drain_rule [of "broker_inv e" e s] drain_step_inv assms by blast

lemma js_delete_filter: "js_delete k m = filter (\<lambda>(k', _). k' \<notin> {k}) m"
  by (auto simp: AList.delete_eq intro!: filter_cong)

section \<open>Leases leave\<close>

lemma lease_sum_filter_le:
  "\<forall>(k, u) \<in> set m. \<forall>r. 0 \<le> u r \<Longrightarrow> lease_sum (filter P m) r \<le> lease_sum m r"
  by (induction m) (auto simp: lease_sum_def intro: add_mono add_increasing)

text \<open>Removing the leases with ids \<open>L\<close> of one attempt from both maps and recomputing its reservation.\<close>

definition drop_leases :: "string set \<Rightarrow> string \<Rightarrow> attempt_state \<Rightarrow> broker \<Rightarrow> attempt_state \<times> broker" where
  "drop_leases L aid a s =
     (let m = filter (\<lambda>(k, _). k \<notin> L) (attemptLeases a);
          a' = a\<lparr>attemptLeases := m, reservation := lease_sum m\<rparr>
      in (a', s\<lparr>leases := filter (\<lambda>(k, _). k \<notin> L) (leases s),
            used := (\<lambda>r. used s r + (lease_sum m r - reservation a r)),
            attempts := js_set aid a' (attempts s)\<rparr>))"

lemma drop_leases_weak:
  assumes weak: "weak_inv e s aid a" and L: "\<And>k l. (k, l) \<in> set (leases s) \<Longrightarrow> k \<in> L \<Longrightarrow> attemptId (leaseOwner l) = aid"
    and eq: "drop_leases L aid a s = (a', s')"
  shows "weak_inv e s' aid a'"
proof -
  from weak have g: "global_inv e s" and pre: "attempt_pre s aid a" and get: "js_get (attempts s) aid = Some a"
    by (auto simp: weak_inv_def)
  define m where "m = filter (\<lambda>(k, _). k \<notin> L) (attemptLeases a)"
  have a': "a' = a\<lparr>attemptLeases := m, reservation := lease_sum m\<rparr>"
    and s': "s' = s\<lparr>leases := filter (\<lambda>(k, _). k \<notin> L) (leases s),
      used := (\<lambda>r. used s r + (lease_sum m r - reservation a r)), attempts := js_set aid a' (attempts s)\<rparr>"
    using eq by (auto simp: drop_leases_def m_def Let_def)
  have lof: "leases_of s' aid = filter (\<lambda>(k, _). k \<notin> L) (leases_of s aid)"
    by (auto simp: s' leases_of_def intro!: filter_cong)
  have lof': "leases_of s' aid' = leases_of s aid'" if "aid' \<noteq> aid" for aid'
    using L that by (auto simp: s' leases_of_def intro!: filter_cong)
  have frame: "queue_of s' = queue_of s" "workers s' = workers s" "brokerRun s' = brokerRun s"
    by (simp_all add: s' queue_of_def fun_eq_iff)
  have m: "m = lease_units (leases_of s' aid)"
    using pre by (simp add: m_def lof attempt_pre_def filter_map comp_def split_def)
  have sub: "set (leases_of s' aid) \<subseteq> set (leases_of s aid)" by (auto simp: lof)
  have "\<forall>(k, u) \<in> set (attemptLeases a). \<forall>r. 0 \<le> u r"
    using pre g by (auto simp: attempt_pre_def leases_of_def global_inv_def lease_inv_def)
  then have le: "lease_sum m r \<le> reservation a r" for r
    using pre lease_sum_filter_le by (simp add: m_def attempt_pre_def)
  have "attempt_pre s' aid a'"
    using pre sub by (auto simp: attempt_pre_def a' frame active_worker_def m)
  moreover have "global_inv e s'"
    unfolding global_inv_def
  proof (intro conjI)
    show "\<forall>r. map_sum (\<lambda>a. reservation a r) (attempts s') = used s' r"
      using g map_sum_reservation_set [OF _ get, of _ a'] by (simp add: s' a' global_inv_def)
    show "\<forall>r. used s' r \<le> capacities s' r"
    proof
      fix r
      have "used s r \<le> capacities s r" using g by (simp add: global_inv_def)
      then show "used s' r \<le> capacities s' r" using le [of r] by (simp add: s')
    qed
  qed (use g in \<open>auto simp: s' global_inv_def pending_inv_def lease_inv_def\<close>)
  ultimately show ?thesis
    using weak by (intro weak_inv_update [of _ s]) (auto simp: frame lof' weak_inv_def, simp_all add: s' update_conv')
qed

lemma recompute_drop:
  assumes "js_get (attempts s) aid = Some a"
  shows "recomputeReservation aid (s\<lparr>leases := filter (\<lambda>(k, _). k \<notin> L) (leases s),
      attempts := js_set aid (a\<lparr>attemptLeases := filter (\<lambda>(k, _). k \<notin> L) (attemptLeases a)\<rparr>) (attempts s)\<rparr>)
    = snd (drop_leases L aid a s)"
  by (simp add: recomputeReservation_def drop_leases_def Let_def update_conv')

lemma lease_attempt:
  assumes inv: "broker_inv e s" and "(lid, l) \<in> set (leases s)"
  obtains a where "js_get (attempts s) (attemptId (leaseOwner l)) = Some a" and "owner a = leaseOwner l"
    and "attempt_pre s (attemptId (leaseOwner l)) a"
proof -
  let ?aid = "attemptId (leaseOwner l)"
  have l: "(lid, l) \<in> set (leases_of s ?aid)" using assms(2) by (simp add: leases_of_def)
  show thesis
  proof (cases "js_get (attempts s) ?aid")
    case None
    with l broker_invD(2) [OF inv, of ?aid] show thesis by (simp add: attempt_inv_def)
  next
    case (Some a)
    with broker_invD(2) [OF inv, of ?aid] have pre: "attempt_pre s ?aid a" by (simp add: attempt_inv_def)
    then have "\<forall>l \<in> snd ` set (leases_of s ?aid). leaseOwner l = owner a" by (simp add: attempt_pre_def)
    from bspec [OF this imageI [OF l, of snd]] have "owner a = leaseOwner l" unfolding snd_conv by (rule sym)
    from that [OF Some this pre] show thesis .
  qed
qed

lemma release_core_inv:
  assumes inv: "broker_inv e s" and get: "js_get (leases s) lid = Some l"
  shows "broker_inv e (release_core l s)"
proof -
  let ?aid = "attemptId (leaseOwner l)"
  have wf: "wf_map (leases s)" and lid: "leaseId l = lid"
    using broker_invD(1) [OF inv] map_of_SomeD [OF get] by (auto simp: global_inv_def lease_inv_def)
  obtain a where a: "js_get (attempts s) ?aid = Some a"
    using lease_attempt [OF inv map_of_SomeD [OF get]] .
  obtain a' s' where d: "drop_leases {lid} ?aid a s = (a', s')" by (cases "drop_leases {lid} ?aid a s")
  have "weak_inv e s' ?aid a'"
  proof (rule drop_leases_weak [OF broker_weak_inv [OF inv a] _ d])
    fix k l' assume "(k, l') \<in> set (leases s)" "k \<in> {lid}"
    with get wf show "attemptId (leaseOwner l') = ?aid" by (simp add: js_get_Some_iff) (metis eq_key_imp_eq_value)
  qed
  then have "broker_inv e (deleteAttemptIfEmpty ?aid s')" by (rule deleteAttemptIfEmpty_inv)
  moreover have "release_core l s = deleteAttemptIfEmpty ?aid s'"
    using recompute_drop [OF a, of "{lid}"] a lid d
    unfolding release_core_def Let_def js_delete_filter by simp
  ultimately show ?thesis by simp
qed

lemma reclaim_attempt_inv:
  assumes inv: "broker_inv e s"
  shows "broker_inv e (reclaim_attempt aid s)"
proof (cases "js_get (attempts s) aid")
  case None
  with inv show ?thesis by (simp add: reclaim_attempt_def)
next
  case (Some a)
  let ?L = "set (js_keys (attemptLeases a))"
  have pre: "attempt_pre s aid a" using broker_weak_inv [OF inv Some] by (simp add: weak_inv_def)
  have wf: "wf_map (leases s)" using broker_invD(1) [OF inv] by (simp add: global_inv_def)
  obtain a' s' where d: "drop_leases ?L aid a s = (a', s')" by (cases "drop_leases ?L aid a s")
  have "weak_inv e s' aid a'"
  proof (rule drop_leases_weak [OF broker_weak_inv [OF inv Some] _ d])
    fix k l assume k: "(k, l) \<in> set (leases s)" "k \<in> ?L"
    then obtain l' where "(k, l') \<in> set (leases s)" "attemptId (leaseOwner l') = aid"
      using pre by (auto simp: attempt_pre_def leases_of_def)
    with k wf show "attemptId (leaseOwner l) = aid" by (metis eq_key_imp_eq_value)
  qed
  then have "broker_inv e (deleteAttemptIfEmpty aid s')" by (rule deleteAttemptIfEmpty_inv)
  moreover have "filter (\<lambda>(k, _). k \<notin> ?L) (attemptLeases a) = []"
    by (force simp: filter_empty_conv)
  then have "reclaim_attempt aid s = deleteAttemptIfEmpty aid s'"
    using recompute_drop [OF Some, of ?L] Some d by (simp add: reclaim_attempt_def Let_def fold_js_delete)
  ultimately show ?thesis by simp
qed

section \<open>What draining keeps\<close>

text \<open>\<open>later s s'\<close>: from \<open>s\<close> to \<open>s'\<close> requests only leave the queue, each by being settled, and the configuration
  is the same.\<close>

definition later :: "broker \<Rightarrow> broker \<Rightarrow> bool" where
  "later s s' \<longleftrightarrow> set (queue s') \<subseteq> set (queue s) \<and> settled s \<subseteq> settled s' \<and>
     (\<forall>p \<in> set (queue s). p \<in> set (queue s') \<or> pendSequence p \<in> settled s') \<and>
     capacities s' = capacities s \<and> workers s' = workers s \<and> brokerRun s' = brokerRun s \<and>
     sequence s' = sequence s \<and> highestEpoch s' = highestEpoch s \<and> maxQueued s' = maxQueued s"

lemma later_refl [simp]: "later s s"
  by (simp add: later_def)

lemma later_trans: "later s s' \<Longrightarrow> later s' s'' \<Longrightarrow> later s s''"
  by (auto simp: later_def)

lemma later_frame [simp]: "later s (tick s)" "later s s' \<Longrightarrow> later s (settle n r s')"
  by (simp_all add: later_def settle_def)

lemma later_deleteAttemptIfEmpty [simp]: "later s s' \<Longrightarrow> later s (deleteAttemptIfEmpty aid s')"
  by (simp add: later_def deleteAttemptIfEmpty_def split: option.split)

lemma later_settled: "later s s' \<Longrightarrow> n \<in> settled s \<Longrightarrow> n \<in> settled s'"
  by (auto simp: later_def)

lemma later_freshLeaseId: "later s (snd (freshLeaseId n e s))"
  by (induction n arbitrary: s) (auto simp: Let_def later_def)

lemma later_grant: "grant e a u s = (r, s') \<Longrightarrow> later s s'"
proof -
  assume eq: "grant e a u s = (r, s')"
  define s1 where "s1 = s\<lparr>used := (\<lambda>r. used s r + u r),
    attempts := js_set (attemptId (owner a)) (a\<lparr>reservation := (\<lambda>r. reservation a r + u r)\<rparr>) (attempts s)\<rparr>"
  obtain x s2 where fr: "freshLeaseId 8 e s1 = (x, s2)" by (cases "freshLeaseId 8 e s1")
  have "later s s1" by (simp add: s1_def later_def)
  moreover have "later s1 s2" using later_freshLeaseId [of s1 8 e] fr by simp
  moreover have "later s2 s'"
    using eq fr unfolding grant_def Let_def s1_def [symmetric] by (cases x) (auto simp: later_def)
  ultimately show ?thesis by (blast intro: later_trans)
qed

lemma later_dequeue:
  assumes "distinct (map pendSequence (queue s))" and "p \<in> set (queue s)"
  shows "later s (snd (settlePending p a (s\<lparr>queue := filter (\<lambda>q. pendSequence q \<noteq> pendSequence p) (queue s)\<rparr>)))"
  using assms by (auto simp: later_def settlePending_def Let_def)

lemma later_cancel_core:
  assumes "broker_inv e s" and "p \<in> set (queue s)"
  shows "later s (cancel_core p err s)"
proof -
  have "distinct (map pendSequence (queue s))" using assms by (simp add: broker_inv_def global_inv_def)
  moreover have "later s (s\<lparr>queue := filter (\<lambda>q. pendSequence q \<noteq> pendSequence p) (queue s),
      settled := insert (pendSequence p) (settled s)\<rparr>)"
    by (auto simp: later_def)
  ultimately show ?thesis
    unfolding cancel_core_def Let_def
    using later_dequeue [OF _ assms(2)] by (auto split: option.split intro: later_trans)
qed

lemma drain_step_later:
  assumes inv: "broker_inv e s"
  shows "case drain_step e s of Return s' \<Rightarrow> later s s' | Throw _ s' \<Rightarrow> later s s'
    | Cancel s' \<Rightarrow> later s s' | Continue s' \<Rightarrow> later s s'"
proof -
  have dist: "distinct (map pendSequence (queue s))" using inv by (simp add: broker_inv_def global_inv_def)
  have deq: "later s (snd (dequeued i a s))" if "i < length (queue s)" for i a
    using later_dequeue [of "tick s" "queue s ! i" a] dist that remove_at_filter [OF dist that]
      later_trans [OF later_frame(1)] by simp
  have can: "later s (cancel_core (queue s ! i) err (tick s))" if "i < length (queue s)" for i err
    using later_cancel_core [of e "tick s" "queue s ! i" err] inv that later_trans [OF later_frame(1)] by simp
  show ?thesis
    by (rule drain_step_cases [of s e])
      (use deq can in \<open>auto dest!: later_grant intro: later_trans intro!: later_frame(2)\<close>)
qed

lemma drain_later:
  assumes "broker_inv e s" and "inj (uuid e)"
  shows "later s (snd (drain e s))"
proof -
  have "\<exists>s' s0. drain e s = (None, s') \<and> (broker_inv e s' \<and> later s s') \<and> (broker_inv e s0 \<and> later s s0) \<and>
      drain_step e s0 = Return s'"
  proof (rule drain_rule [where P = "\<lambda>s'. broker_inv e s' \<and> later s s'"])
    fix t assume t: "broker_inv e t \<and> later s t"
    with drain_step_inv [of e t] drain_step_later [of e t] assms(2)
    show "case drain_step e t of Return s' \<Rightarrow> broker_inv e s' \<and> later s s' | Throw _ _ \<Rightarrow> False
        | Cancel s' \<Rightarrow> broker_inv e s' \<and> later s s' | Continue s' \<Rightarrow> broker_inv e s' \<and> later s s'"
      by (cases "drain_step e t") (auto intro: later_trans)
  qed (simp add: assms)
  then show ?thesis by auto
qed

section \<open>Every operation\<close>

lemma cancel_inv:
  assumes "broker_inv e s" and "inj (uuid e)" and "pendSequence p \<in> settled s \<or> p \<in> set (queue s)"
  obtains s' where "cancel e p err s = (None, s')" and "broker_inv e s'"
proof (cases "pendSequence p \<in> settled s")
  case True
  with that [of s] assms show thesis by (simp add: cancel_def)
next
  case False
  with assms have "broker_inv e (cancel_core p err s)" by (simp add: cancel_core_inv)
  from drain_inv [OF this assms(2)] False that show thesis by (metis cancel_def)
qed

lemma cancel_later:
  assumes "broker_inv e s" and "inj (uuid e)" and "pendSequence p \<in> settled s \<or> p \<in> set (queue s)"
  shows "later s (snd (cancel e p err s)) \<and> pendSequence p \<in> settled (snd (cancel e p err s))"
proof (cases "pendSequence p \<in> settled s")
  case True
  then show ?thesis by (simp add: cancel_def)
next
  case False
  with assms have p: "p \<in> set (queue s)" by simp
  then have inv: "broker_inv e (cancel_core p err s)" using assms by (simp add: cancel_core_inv)
  have l: "later s (cancel_core p err s)" using later_cancel_core assms(1) p .
  then have "pendSequence p \<in> settled (cancel_core p err s)"
    using p by (auto simp: later_def dest!: bspec [of _ _ p])
  with l drain_later [OF inv assms(2)] False later_settled [OF drain_later [OF inv assms(2)]] show ?thesis
    by (auto simp: cancel_def intro: later_trans later_settled)
qed

lemma cancel_all_inv:
  assumes "broker_inv e s" and "inj (uuid e)" and "\<forall>p \<in> set ps. pendSequence p \<in> settled s \<or> p \<in> set (queue s)"
  obtains s' where "cancel_all e ps s = (None, s')" and "broker_inv e s'" and "later s s'"
    and "\<forall>p \<in> set ps. pendSequence p \<in> settled s'"
  using assms
proof (induction ps arbitrary: s thesis)
  case Nil
  then show ?case by simp
next
  case (Cons p ps)
  from Cons.prems obtain s1 where s1: "cancel e p StaleWorker s = (None, s1)" "broker_inv e s1"
    by (metis cancel_inv list.set_intros(1))
  with Cons.prems cancel_later [of e s p StaleWorker] have l: "later s s1" "pendSequence p \<in> settled s1"
    by auto
  then have "\<forall>q \<in> set ps. pendSequence q \<in> settled s1 \<or> q \<in> set (queue s1)"
    using Cons.prems by (auto simp: later_def)
  then obtain s2 where "cancel_all e ps s1 = (None, s2)" "broker_inv e s2" "later s1 s2"
      "\<forall>q \<in> set ps. pendSequence q \<in> settled s2"
    using Cons.IH [OF _ s1(2) Cons.prems(3)] by blast
  with s1 l Cons.prems(1) [of s2] show ?case
    by (auto intro: later_trans later_settled)
qed

text \<open>Nothing of a worker epoch is left.\<close>

definition worker_gone :: "string \<Rightarrow> js_number \<Rightarrow> broker \<Rightarrow> bool" where
  "worker_gone wid epoch s \<longleftrightarrow>
     (\<forall>p \<in> set (queue s). \<not> owned_by wid epoch (pendOwner p)) \<and>
     (\<forall>(_, a) \<in> set (attempts s). \<not> owned_by wid epoch (owner a)) \<and>
     (\<forall>(_, l) \<in> set (leases s). \<not> owned_by wid epoch (leaseOwner l))"

lemma attempts_reclaim_attempt:
  assumes inv: "broker_inv e s" and "queue_of s aid = []"
  shows "js_get (attempts (reclaim_attempt aid s)) = (js_get (attempts s))(aid := None)"
proof (cases "js_get (attempts s) aid")
  case None
  then show ?thesis by (auto simp: reclaim_attempt_def)
next
  case (Some a)
  have "queued a = 0" using broker_weak_inv [OF inv Some] assms(2) by (simp add: weak_inv_def attempt_pre_def)
  with Some show ?thesis
    by (simp add: reclaim_attempt_def recomputeReservation_def deleteAttemptIfEmpty_def Let_def
        update_conv' delete_conv' lease_sum_def fun_eq_iff)
qed

lemma queue_recomputeReservation [simp]: "queue (recomputeReservation aid s) = queue s"
  by (simp add: recomputeReservation_def Let_def split: option.split)

lemma queue_reclaim_attempt [simp]: "queue (reclaim_attempt aid s) = queue s"
  by (simp add: reclaim_attempt_def Let_def split: option.split)

lemma reclaim_attempt_frame [simp]:
  "workers (reclaim_attempt aid s) = workers s" "brokerRun (reclaim_attempt aid s) = brokerRun s"
  "highestEpoch (reclaim_attempt aid s) = highestEpoch s" "settled (reclaim_attempt aid s) = settled s"
  "capacities (reclaim_attempt aid s) = capacities s" "sequence (reclaim_attempt aid s) = sequence s"
  "maxQueued (reclaim_attempt aid s) = maxQueued s"
  by (simp_all add: reclaim_attempt_def recomputeReservation_def deleteAttemptIfEmpty_def Let_def
      split: option.split)

lemma later_reclaim_attempt: "later s (reclaim_attempt aid s)"
  by (simp add: later_def)

lemma later_reclaim_fold: "later s (fold reclaim_attempt aids s)"
  by (induction aids arbitrary: s) (auto intro: later_trans later_reclaim_attempt)

lemma fold_reclaim_inv:
  assumes "broker_inv e s" and "\<forall>aid \<in> set aids. queue_of s aid = []"
  shows "broker_inv e (fold reclaim_attempt aids s) \<and> queue (fold reclaim_attempt aids s) = queue s \<and>
    js_get (attempts (fold reclaim_attempt aids s)) = (\<lambda>aid. if aid \<in> set aids then None else js_get (attempts s) aid)"
  using assms
proof (induction aids arbitrary: s)
  case Nil
  then show ?case by simp
next
  case (Cons aid aids)
  have inv: "broker_inv e (reclaim_attempt aid s)" using Cons.prems reclaim_attempt_inv by blast
  have q: "\<forall>aid' \<in> set aids. queue_of (reclaim_attempt aid s) aid' = []"
    using Cons.prems by (simp add: queue_of_def)
  from Cons.IH [OF inv q] attempts_reclaim_attempt [of e s aid] Cons.prems show ?case by auto
qed

lemma reclaimWorker_inv:
  assumes inv: "broker_inv e s" and inj: "inj (uuid e)"
  obtains s' where "reclaimWorker e wid epoch s = (None, s')" and "broker_inv e s'" and "later s s'"
    and "worker_gone wid epoch s'"
proof -
  let ?ps = "filter (\<lambda>p. owned_by wid epoch (pendOwner p)) (queue s)"
  have "\<forall>p \<in> set ?ps. pendSequence p \<in> settled s \<or> p \<in> set (queue s)" by simp
  then obtain s1 where s1: "cancel_all e ?ps s = (None, s1)" "broker_inv e s1" "later s s1"
      and gone: "\<forall>p \<in> set ?ps. pendSequence p \<in> settled s1"
    using cancel_all_inv [OF inv inj] by blast
  have q: "\<not> owned_by wid epoch (pendOwner p)" if "p \<in> set (queue s1)" for p
    using that s1(2,3) gone by (auto simp: later_def broker_inv_def global_inv_def pending_inv_def)
  define aids where "aids = js_keys (filter (\<lambda>(_, a). owned_by wid epoch (owner a)) (attempts s1))"
  have wf: "wf_map (attempts s1)" using s1(2) by (simp add: broker_inv_def global_inv_def)
  have aids: "aid \<in> set aids \<longleftrightarrow> (\<exists>a. js_get (attempts s1) aid = Some a \<and> owned_by wid epoch (owner a))" for aid
    using wf by (force simp: aids_def js_get_Some_iff)
  have "queue_of s1 aid = []" if "aid \<in> set aids" for aid
  proof -
    from that aids obtain a where a: "js_get (attempts s1) aid = Some a" "owned_by wid epoch (owner a)" by blast
    with broker_weak_inv [OF s1(2)] have "\<forall>p \<in> set (queue_of s1 aid). sameWorker (owner a) (pendOwner p)"
      by (simp add: weak_inv_def attempt_pre_def)
    then have "\<forall>p \<in> set (queue_of s1 aid). owned_by wid epoch (pendOwner p)"
      using a(2) by (auto simp: sameWorker_def owned_by_def)
    moreover have "set (queue_of s1 aid) \<subseteq> set (queue s1)" by (auto simp: queue_of_def)
    ultimately show ?thesis using q by (metis last_in_set subsetD)
  qed
  from fold_reclaim_inv [OF s1(2), of aids] this
  have f: "broker_inv e (fold reclaim_attempt aids s1)" "queue (fold reclaim_attempt aids s1) = queue s1"
    "js_get (attempts (fold reclaim_attempt aids s1)) = (\<lambda>aid. if aid \<in> set aids then None else js_get (attempts s1) aid)"
    by auto
  define s2 where "s2 = fold reclaim_attempt aids s1"
  have wf2: "wf_map (attempts s2)" using f(1) by (simp add: broker_inv_def global_inv_def s2_def)
  have at: "\<not> owned_by wid epoch (owner a)" if "(aid, a) \<in> set (attempts s2)" for aid a
  proof -
    from that wf2 have "js_get (attempts s2) aid = Some a" by simp
    then show ?thesis using f(3) aids by (auto simp: s2_def split: if_splits)
  qed
  moreover have "\<not> owned_by wid epoch (leaseOwner l)" if l: "(lid, l) \<in> set (leases s2)" for lid l
    using lease_attempt [OF f(1)] l at by (metis map_of_SomeD s2_def)
  ultimately have "worker_gone wid epoch s2"
    using q f(2) by (auto simp: worker_gone_def s2_def)
  moreover have "reclaimWorker e wid epoch s = (None, s2)"
    using s1 by (simp add: reclaimWorker_def s2_def aids_def)
  moreover have "later s s2" using s1(3) later_reclaim_fold unfolding s2_def by (blast intro: later_trans)
  ultimately show thesis using that f(1) by (simp add: s2_def)
qed

end
