(* ===== verification/Broker_Safety.thy ===== *)
theory Broker_Safety
  imports Broker_Inv
begin

text \<open>
  Every public operation of the broker keeps the invariant of \<open>Broker_Inv\<close> and leaves the queue drained;
  from this, the theorems about all reachable states.
\<close>

section \<open>Requests\<close>

lemma positiveInteger_Inr:
  "positiveInteger n z = Inr i \<longleftrightarrow> n = js_int i \<and> \<bar>i\<bar> \<le> MAX_SAFE_INTEGER \<and> (if z then 0 else 1) \<le> i"
  by (cases n) (auto simp: positiveInteger_def)

lemma normalizeVector_loop_bounds:
  "normalizeVector_loop rs v caps acc t = Inr (u, t') \<Longrightarrow>
   (\<forall>r. r \<notin> set rs \<longrightarrow> 0 \<le> acc r \<and> acc r \<le> caps r) \<Longrightarrow> \<forall>r. 0 \<le> u r \<and> u r \<le> caps r"
proof (induction rs arbitrary: acc t)
  case (Cons r rs)
  then obtain n where n: "positiveInteger (vector_at v r) True = Inr n" "n \<le> caps r"
      and rest: "normalizeVector_loop rs v caps (acc(r := n)) (t + n) = Inr (u, t')"
    by (auto simp: res_simps split: if_splits)
  then show ?case
    using Cons.prems by (intro Cons.IH [OF rest]) (auto simp: positiveInteger_Inr)
qed simp

lemma normalizeVector_bounds:
  assumes "normalizeVector v caps = Inr u"
  shows "0 \<le> u r" and "u r \<le> caps r"
proof -
  from assms obtain t where "normalizeVector_loop RESOURCE_CLASSES v caps ZERO 0 = Inr (u, t)"
    by (auto simp: normalizeVector_def res_simps split: if_splits)
  from normalizeVector_loop_bounds [OF this] show "0 \<le> u r" "u r \<le> caps r"
    using RESOURCE_CLASSES_all by blast+
qed

lemma normalizeCapacities_loop_nonneg:
  "normalizeCapacities_loop rs v acc = Inr c \<Longrightarrow> \<forall>r. 0 \<le> acc r \<Longrightarrow> \<forall>r. 0 \<le> c r"
  by (induction rs arbitrary: acc) (auto simp: res_simps positiveInteger_Inr fun_upd_def)

lemma createBroker_inv:
  assumes "createBroker rid caps q = Inr s"
  shows "broker_inv e s"
proof -
  from assms obtain c m where c: "normalizeCapacities caps = Inr c" and
    s: "s = \<lparr>brokerRun = rid, capacities = c, maxQueued = m, workers = [], highestEpoch = [],
        attempts = [], leases = [], queue = [], used = ZERO, sequence = 0, settled = {},
        settlements = [], releasePromises = [], reads = 0, draws = 0, refs = 0\<rparr>"
    by (auto simp: createBroker_def res_simps)
  have "0 \<le> c r" for r
    using normalizeCapacities_loop_nonneg c by (simp add: normalizeCapacities_def ZERO_def)
  with s show ?thesis
    by (simp add: broker_inv_def global_inv_def attempt_inv_def queue_of_def leases_of_def ZERO_def)
qed

lemma assertIdentity_active: "assertIdentity s i = Inr () \<Longrightarrow> active_worker s i"
  by (auto simp: assertIdentity_def active_worker_def assertRun_def res_simps split: if_splits)

section \<open>The drained queue\<close>

text \<open>Every waiting request has to wait: the oldest does not fit, and no request of an attempt that already holds a
  lease fits.\<close>

definition drained :: "broker \<Rightarrow> bool" where
  "drained s \<longleftrightarrow> (case queue s of [] \<Rightarrow> True | p # _ \<Rightarrow> \<not> fits s (pendUnits p)) \<and>
     (\<forall>p \<in> set (queue s). holds_leases s p \<longrightarrow> \<not> fits s (pendUnits p))"

lemma nextDrainable_from_cases:
  "(\<exists>j < length ps. nextDrainable_from s ps i = i + j \<and> fits s (pendUnits (ps ! j)) \<and> holds_leases s (ps ! j)) \<or>
   (nextDrainable_from s ps i = 0 \<and> (\<forall>p \<in> set ps. holds_leases s p \<longrightarrow> \<not> fits s (pendUnits p)))"
proof (induction ps arbitrary: i)
  case (Cons p ps)
  show ?case
  proof (cases "fits s (pendUnits p) \<and> holds_leases s p")
    case True
    then show ?thesis by (auto intro!: exI [of _ 0])
  next
    case False
    from Cons.IH [of "Suc i"] show ?thesis
    proof
      assume "\<exists>j < length ps. nextDrainable_from s ps (Suc i) = Suc i + j \<and>
        fits s (pendUnits (ps ! j)) \<and> holds_leases s (ps ! j)"
      then obtain j where "j < length ps" "nextDrainable_from s ps (Suc i) = Suc i + j"
        "fits s (pendUnits (ps ! j))" "holds_leases s (ps ! j)" by blast
      with False show ?thesis by (intro disjI1 exI [of _ "Suc j"]) auto
    qed (use False in auto)
  qed
qed simp

lemma nextDrainableIndex_cases:
  obtains (continuation) "nextDrainableIndex s < length (queue s)"
      and "fits s (pendUnits (queue s ! nextDrainableIndex s))"
      and "holds_leases s (queue s ! nextDrainableIndex s)"
  | (head) "nextDrainableIndex s = 0" and "\<forall>p \<in> set (queue s). holds_leases s p \<longrightarrow> \<not> fits s (pendUnits p)"
  using nextDrainable_from_cases [of "queue s" s 0] by (auto simp: nextDrainableIndex_def)

lemma drained_cong:
  "queue s' = queue s \<Longrightarrow> attempts s' = attempts s \<Longrightarrow> used s' = used s \<Longrightarrow> capacities s' = capacities s \<Longrightarrow>
   drained s' = drained s"
  by (simp add: drained_def fits_def holds_leases_def cong: list.case_cong option.case_cong)

lemma drained_cong_get:
  "queue s' = queue s \<Longrightarrow> js_get (attempts s') = js_get (attempts s) \<Longrightarrow> used s' = used s \<Longrightarrow>
   capacities s' = capacities s \<Longrightarrow> drained s' = drained s"
  by (simp add: drained_def fits_def holds_leases_def cong: list.case_cong option.case_cong)

lemma drained_tick [simp]: "drained (tick s) = drained s"
  by (rule drained_cong) simp_all

lemma drain_step_drained:
  assumes "drain_step e s = Return s'"
  shows "drained s'"
proof (cases rule: drain_step_cases [of s e])
  case empty
  with assms show ?thesis by (cases rule: nextDrainableIndex_cases [of s]) (auto simp: drained_def)
next
  case (blocked i)
  then have "drained s"
    by (cases rule: nextDrainableIndex_cases [of s]) (auto simp: drained_def neq_Nil_conv split: list.split)
  with blocked assms show ?thesis by auto
qed (use assms in auto)

lemma drain_ok:
  assumes "broker_inv e s" and "inj (uuid e)"
  obtains s' where "drain e s = (None, s')" and "broker_inv e s'" and "drained s'" and "later s s'"
  using drain_inv [OF assms] drain_later [OF assms] drain_step_drained by (metis snd_conv)

section \<open>Operations\<close>

lemma set_workers_inv:
  assumes inv: "broker_inv e s" and other: "\<forall>(_, a) \<in> set (attempts s). workerId (owner a) \<noteq> wid"
    and w: "\<forall>wid'. wid' \<noteq> wid \<longrightarrow> js_get w wid' = js_get (workers s) wid'"
  shows "broker_inv e (s\<lparr>workers := w\<rparr>)"
proof -
  have "global_inv e (s\<lparr>workers := w\<rparr>)"
    using broker_invD(1) [OF inv] by (simp add: global_inv_def pending_inv_def lease_inv_def)
  moreover have "attempt_inv (s\<lparr>workers := w\<rparr>) aid" for aid
  proof (cases "js_get (attempts s) aid")
    case None
    with broker_invD(2) [OF inv, of aid] show ?thesis
      by (simp add: attempt_inv_def queue_of_def leases_of_def)
  next
    case (Some a)
    with map_of_SomeD [OF Some] other w broker_invD(2) [OF inv, of aid] show ?thesis
      by (auto simp: attempt_inv_def attempt_pre_def active_worker_def queue_of_def leases_of_def)
  qed
  ultimately show ?thesis by (simp add: broker_inv_def)
qed

lemma attempt_owner_active:
  assumes "broker_inv e s" and "(aid, a) \<in> set (attempts s)"
  shows "active_worker s (owner a)"
proof -
  have "js_get (attempts s) aid = Some a"
    using assms by (auto simp: broker_inv_def global_inv_def js_get_Some_iff)
  with broker_weak_inv [OF assms(1)] show ?thesis by (simp add: weak_inv_def attempt_pre_def)
qed

lemma gone_workerId:
  assumes "broker_inv e s" and "worker_gone wid epoch s" and "js_get (workers s) wid = Some epoch"
  shows "\<forall>(_, a) \<in> set (attempts s). workerId (owner a) \<noteq> wid"
  using assms attempt_owner_active [OF assms(1)]
  by (fastforce simp: worker_gone_def owned_by_def active_worker_def)

text \<open>The ways through \<open>registerWorker\<close> and \<open>disconnectWorker\<close>; \<open>s2\<close> is the state that is drained.\<close>

lemma registerWorker_path:
  assumes inv: "broker_inv e s" and inj: "inj (uuid e)"
  obtains (refused) "snd (registerWorker e i s) = s" and "fst (registerWorker e i s) \<noteq> None"
  | (first) "registerWorker e i s = (None, s\<lparr>workers := js_set (workerId i) (workerEpoch i) (workers s),
        highestEpoch := js_set (workerId i) (workerEpoch i) (highestEpoch s)\<rparr>)"
      and "broker_inv e (snd (registerWorker e i s))"
  | (replaced) epoch s1 s2 where "reclaimWorker e (workerId i) epoch s = (None, s1)" and "later s s1"
      and "s2 = s1\<lparr>workers := js_set (workerId i) (workerEpoch i) (workers s1),
        highestEpoch := js_set (workerId i) (workerEpoch i) (highestEpoch s1)\<rparr>"
      and "broker_inv e s2" and "registerWorker e i s = drain e s2"
proof -
  let ?wid = "workerId i" and ?w = "js_set (workerId i) (workerEpoch i)"
  have upd: "broker_inv e (t\<lparr>workers := ?w (workers t), highestEpoch := h\<rparr>)"
    if "broker_inv e t" "\<forall>(_, a) \<in> set (attempts t). workerId (owner a) \<noteq> ?wid" for t h
    using set_workers_inv [OF that, of "?w (workers t)"] by (simp add: update_conv')
  show thesis
  proof (cases "js_get (workers s) ?wid")
    case None
    let ?s = "s\<lparr>workers := ?w (workers s), highestEpoch := ?w (highestEpoch s)\<rparr>"
    from None have "\<forall>(_, a) \<in> set (attempts s). workerId (owner a) \<noteq> ?wid"
      using attempt_owner_active [OF inv] by (fastforce simp: active_worker_def)
    from upd [OF inv this] have "broker_inv e ?s" .
    moreover have "registerWorker e i s = (None, ?s) \<or>
        snd (registerWorker e i s) = s \<and> fst (registerWorker e i s) \<noteq> None"
      using None by (auto simp: registerWorker_def Let_def split: sum.split)
    ultimately show thesis using refused first by auto
  next
    case (Some epoch)
    obtain s1 where s1: "reclaimWorker e ?wid epoch s = (None, s1)" "broker_inv e s1" "later s s1"
        "worker_gone ?wid epoch s1"
      using reclaimWorker_inv [OF inv inj] .
    have "js_get (workers s1) ?wid = Some epoch" using s1(3) Some by (simp add: later_def)
    from upd [OF s1(2) gone_workerId [OF s1(2,4) this]]
    have "broker_inv e (s1\<lparr>workers := ?w (workers s1), highestEpoch := ?w (highestEpoch s1)\<rparr>)" .
    moreover from s1(1) Some
    have "registerWorker e i s = drain e (s1\<lparr>workers := ?w (workers s1), highestEpoch := ?w (highestEpoch s1)\<rparr>) \<or>
        snd (registerWorker e i s) = s \<and> fst (registerWorker e i s) \<noteq> None"
      by (auto simp: registerWorker_def Let_def split: sum.split)
    ultimately show thesis using refused replaced [OF s1(1,3) refl] by blast
  qed
qed

lemma registerWorker_ok:
  assumes inv: "broker_inv e s" and dr: "drained s" and inj: "inj (uuid e)"
  shows "broker_inv e (snd (registerWorker e i s)) \<and> drained (snd (registerWorker e i s))"
  using inv inj
proof (cases rule: registerWorker_path [where i = i])
  case refused
  with inv dr show ?thesis by simp
next
  case first
  with dr show ?thesis by (auto cong: drained_cong)
next
  case (replaced epoch s1 s2)
  with drain_ok [OF replaced(4) inj] show ?thesis by (metis snd_conv)
qed

lemma disconnectWorker_path:
  assumes inv: "broker_inv e s" and inj: "inj (uuid e)"
    and active: "runId i = brokerRun s" "js_get (workers s) (workerId i) = Some (workerEpoch i)"
  obtains s1 s2 where "reclaimWorker e (workerId i) (workerEpoch i) s = (None, s1)" and "later s s1"
    and "s2 = s1\<lparr>workers := js_delete (workerId i) (workers s1)\<rparr>"
    and "broker_inv e s2" and "disconnectWorker e i s = drain e s2"
proof -
  let ?wid = "workerId i"
  obtain s1 where s1: "reclaimWorker e ?wid (workerEpoch i) s = (None, s1)" "broker_inv e s1" "later s s1"
      "worker_gone ?wid (workerEpoch i) s1"
    using reclaimWorker_inv [OF inv inj] .
  have "js_get (workers s1) ?wid = Some (workerEpoch i)" using s1(3) active by (simp add: later_def)
  from set_workers_inv [OF s1(2) gone_workerId [OF s1(2,4) this], of "js_delete ?wid (workers s1)"]
  have "broker_inv e (s1\<lparr>workers := js_delete ?wid (workers s1)\<rparr>)" by (simp add: delete_conv')
  with that [OF s1(1,3) refl] s1 active show thesis by (simp add: disconnectWorker_def assertRun_def)
qed

lemma disconnectWorker_idle:
  "\<not> (runId i = brokerRun s \<and> js_get (workers s) (workerId i) = Some (workerEpoch i)) \<Longrightarrow>
   snd (disconnectWorker e i s) = s"
  by (auto simp: disconnectWorker_def assertRun_def)

lemma disconnectWorker_ok:
  assumes inv: "broker_inv e s" and dr: "drained s" and inj: "inj (uuid e)"
  shows "broker_inv e (snd (disconnectWorker e i s)) \<and> drained (snd (disconnectWorker e i s))"
proof (cases "runId i = brokerRun s \<and> js_get (workers s) (workerId i) = Some (workerEpoch i)")
  case False
  with inv dr disconnectWorker_idle show ?thesis by metis
next
  case True
  then obtain s2 where "broker_inv e s2" "disconnectWorker e i s = drain e s2"
    using disconnectWorker_path [OF inv inj] by metis
  with drain_ok [OF this(1) inj] show ?thesis by (metis snd_conv)
qed

lemma cancel_event_ok:
  assumes "broker_inv e s" and "drained s" and "inj (uuid e)" and "pendSequence p \<in> settled s \<or> p \<in> set (queue s)"
  shows "broker_inv e (snd (cancel_event e p b s)) \<and> drained (snd (cancel_event e p b s))"
proof (cases "pendSequence p \<in> settled s")
  case True
  with assms show ?thesis by (simp add: cancel_event_def cancel_def)
next
  case False
  with assms have "broker_inv e (cancel_core p (if b then DeadlineExceeded else Aborted) s)"
    by (simp add: cancel_core_inv)
  from drain_ok [OF this assms(3)]
  obtain s' where "drain e (cancel_core p (if b then DeadlineExceeded else Aborted) s) = (None, s')"
      "broker_inv e s'" "drained s'" .
  with False show ?thesis by (simp add: cancel_event_def cancel_def)
qed

lemma js_set_map:
  "wf_map m \<Longrightarrow> js_get m k = Some v \<Longrightarrow> js_set k (f v) m = map (\<lambda>(k', v). (k', if k' = k then f v else v)) m"
  by (induction m) (auto simp: image_iff split: if_splits intro!: map_idI [symmetric])

text \<open>Replacing the attachments of a lease.\<close>

lemma set_attachments_inv:
  assumes inv: "broker_inv e s" and get: "js_get (leases s) lid = Some l"
  shows "broker_inv e (s\<lparr>leases := js_set lid (l\<lparr>leaseAttachments := atts\<rparr>) (leases s)\<rparr>)" (is "broker_inv e ?s")
proof -
  let ?f = "\<lambda>(k, v). (k, if k = lid then v\<lparr>leaseAttachments := atts\<rparr> else v)"
  have wf: "wf_map (leases s)" using inv by (simp add: broker_inv_def global_inv_def)
  have eq: "leases ?s = map ?f (leases s)" using js_set_map [OF wf get] by simp
  have lof: "leases_of ?s aid = map ?f (leases_of s aid)" for aid
    unfolding leases_of_def eq by (auto simp: filter_map intro!: map_cong filter_cong)
  then have frame: "lease_units (leases_of ?s aid) = lease_units (leases_of s aid)"
    "leases_of ?s aid = [] \<longleftrightarrow> leases_of s aid = []"
    "(\<forall>l \<in> set (leases_of ?s aid). leaseOwner (snd l) = w) \<longleftrightarrow> (\<forall>l \<in> set (leases_of s aid). leaseOwner (snd l) = w)" for aid w
    by (auto simp: lof)
  have "\<forall>x \<in> set (leases ?s). lease_inv e ?s x"
    using broker_invD(1) [OF inv] unfolding eq by (auto simp: global_inv_def lease_inv_def split: if_splits)
  moreover have "wf_map (leases ?s)" using wf by simp
  ultimately have "global_inv e ?s"
    using broker_invD(1) [OF inv] by (simp add: global_inv_def pending_inv_def)
  moreover have "attempt_inv ?s aid" for aid
    using broker_invD(2) [OF inv, of aid]
    by (simp add: attempt_inv_def attempt_pre_def frame active_worker_def split: option.splits)
  ultimately show ?thesis by (simp add: broker_inv_def)
qed

lemma attach_ok:
  assumes inv: "broker_inv e s" and dr: "drained s"
  shows "broker_inv e (snd (attach h atts s)) \<and> drained (snd (attach h atts s))"
proof (cases "attach h atts s")
  case (Pair r s')
  show ?thesis
  proof (cases r)
    case (Inl err)
    with Pair have "s' = s" by (auto simp: attach_def split: sum.splits)
    with Pair inv dr show ?thesis by simp
  next
    case (Inr u)
    with Pair obtain l atts' where get: "js_get (leases s) (leaseId h) = Some l"
      and s': "s' = s\<lparr>leases := js_set (leaseId l) (l\<lparr>leaseAttachments := atts'\<rparr>) (leases s)\<rparr>"
      by (auto simp: attach_def authenticatedLease_def res_simps split: sum.splits option.splits if_splits)
    have "leaseId l = leaseId h"
      using broker_invD(1) [OF inv] map_of_SomeD [OF get] by (auto simp: global_inv_def lease_inv_def)
    with set_attachments_inv [OF inv get, of atts'] dr Pair s' show ?thesis by (auto cong: drained_cong)
  qed
qed

text \<open>The state of \<open>enqueue\<close> before it drains.\<close>

definition enqueued :: "attempt_identity \<Rightarrow> attempt_state \<Rightarrow> units \<Rightarrow> js_number \<Rightarrow> broker \<Rightarrow> broker" where
  "enqueued i a u d s = tick (s\<lparr>sequence := Suc (sequence s),
     attempts := js_set (attemptId (owner a)) (a\<lparr>queued := queued a + 1\<rparr>) (attempts s),
     queue := queue s @ [\<lparr>pendSequence = Suc (sequence s), pendOwner = i, pendUnits = u, pendDeadline = d\<rparr>]\<rparr>)"

lemma enqueue_drain:
  "drain e (enqueued i a u d s) = (None, s') \<Longrightarrow> enqueue e i a u d s = (Queued (Suc (sequence s)), s')"
  by (simp add: enqueue_def now_def Let_def enqueued_def)

lemma enqueued_inv:
  assumes weak: "weak_inv e s (attemptId i) a" and same: "sameWorker (owner a) i"
    and u: "\<forall>r. 0 \<le> u r \<and> u r \<le> capacities s r"
  shows "broker_inv e (enqueued i a u d s)"
proof -
  let ?n = "Suc (sequence s)" and ?a = "a\<lparr>queued := queued a + 1\<rparr>" and ?aid = "attemptId i"
  let ?p = "\<lparr>pendSequence = ?n, pendOwner = i, pendUnits = u, pendDeadline = d\<rparr>"
  define s1 where "s1 = s\<lparr>sequence := ?n, attempts := js_set ?aid ?a (attempts s), queue := queue s @ [?p]\<rparr>"
  from weak have g: "global_inv e s" and pre: "attempt_pre s ?aid a" and get: "js_get (attempts s) ?aid = Some a"
    by (auto simp: weak_inv_def)
  have qof: "queue_of s1 aid = queue_of s aid @ (if aid = ?aid then [?p] else [])" for aid
    by (simp add: queue_of_def s1_def)
  have frame: "leases_of s1 = leases_of s" "workers s1 = workers s" "brokerRun s1 = brokerRun s"
    by (simp_all add: s1_def)
  have "attempt_pre s1 ?aid ?a"
    using pre same by (auto simp: attempt_pre_def qof frame active_worker_def)
  moreover have "global_inv e s1"
    unfolding global_inv_def
  proof (intro conjI)
    show "\<forall>r. map_sum (\<lambda>a. reservation a r) (attempts s1) = used s1 r"
      using g map_sum_reservation_set [OF _ get, of _ ?a] by (simp add: s1_def global_inv_def)
    have old: "\<forall>p \<in> set (queue s). pending_inv s p" "settled s \<subseteq> {..sequence s}"
      using g by (simp_all add: global_inv_def)
    then have "?n \<notin> pendSequence ` set (queue s)" "?n \<notin> settled s" by (auto simp: pending_inv_def)
    then show "distinct (map pendSequence (queue s1))" "\<forall>p \<in> set (queue s1). pending_inv s1 p"
      "settled s1 \<subseteq> {..sequence s1}"
      using g u old by (auto simp: s1_def global_inv_def pending_inv_def)
    show "\<forall>x \<in> set (leases s1). lease_inv e s1 x"
      using g lease_inv_mono [of s s1 e] by (simp add: s1_def global_inv_def)
  qed (use g in \<open>simp_all add: s1_def global_inv_def\<close>)
  ultimately have "weak_inv e s1 ?aid ?a"
    using weak by (intro weak_inv_update [of _ s]) (auto simp: qof frame weak_inv_def, simp_all add: s1_def update_conv')
  then have "broker_inv e (tick s1)"
    using weak_inv_nonempty by (simp add: qof)
  moreover have "attemptId (owner a) = ?aid" using pre by (simp add: attempt_pre_def)
  ultimately show ?thesis by (simp add: enqueued_def s1_def)
qed

lemma enqueue_ok:
  assumes "weak_inv e s (attemptId i) a" and "sameWorker (owner a) i" and "inj (uuid e)"
    and "\<forall>r. 0 \<le> u r \<and> u r \<le> capacities s r"
  shows "broker_inv e (snd (enqueue e i a u d s)) \<and> drained (snd (enqueue e i a u d s))"
  using drain_ok [OF enqueued_inv [OF assms(1,2,4)] assms(3)] enqueue_drain by (metis snd_conv)


lemma attempt_of_delete:
  assumes inv: "broker_inv e s" and eq: "attempt_of i s = Inr (a, s1)"
  shows "js_get (attempts (deleteAttemptIfEmpty (attemptId i) s1)) = js_get (attempts s)"
proof (cases "js_get (attempts s) (attemptId i)")
  case None
  with eq show ?thesis
    by (auto simp: attempt_of_def Let_def deleteAttemptIfEmpty_def update_conv' delete_conv' fun_eq_iff)
next
  case (Some b)
  with eq have "s1 = s" by (auto simp: attempt_of_def split: if_splits)
  moreover have "attemptLeases b \<noteq> [] \<or> queued b \<noteq> 0"
    using broker_invD(2) [OF inv, of "attemptId i"] Some by (auto simp: attempt_inv_def attempt_pre_def)
  ultimately show ?thesis using Some by (auto simp: deleteAttemptIfEmpty_def)
qed

text \<open>The ways through \<open>acquire\<close>.\<close>

lemma acquire_path:
  assumes inv: "broker_inv e s"
  obtains (refused) "snd (acquire e i v d ab s) = s" | (late) "snd (acquire e i v d ab s) = tick s"
  | (full) a s1 where "attempt_of i (tick s) = Inr (a, s1)"
      and "acquire e i v d ab s = (Rejected QueueFull, deleteAttemptIfEmpty (attemptId i) s1)"
      and "weak_inv e s1 (attemptId i) a"
  | (granted) a s1 u r s' where "attempt_of i (tick s) = Inr (a, s1)" and "weak_inv e s1 (attemptId i) a"
      and "queue s = []" and "fits s1 u" and "\<forall>r. 0 \<le> u r" and "grant e a u s1 = (r, s')"
      and "snd (acquire e i v d ab s) = s'"
  | (queued) a s1 u where "attempt_of i (tick s) = Inr (a, s1)" and "weak_inv e s1 (attemptId i) a"
      and "sameWorker (owner a) i" and "\<forall>r. 0 \<le> u r \<and> u r \<le> capacities s1 r"
      and "acquire e i v d ab s = enqueue e i a u d s1"
proof (cases "res_bind (assertIdentity s i) (\<lambda>_. normalizeVector v (capacities s))")
  case (Inl err)
  with refused show thesis by (simp add: acquire_def)
next
  case (Inr u)
  then have act: "active_worker (tick s) i" and u: "\<forall>r. 0 \<le> u r \<and> u r \<le> capacities s r"
    using normalizeVector_bounds assertIdentity_active by (auto simp: res_simps active_worker_def)
  have tinv: "broker_inv e (tick s)" using inv by simp
  show thesis
  proof (cases "isFinite d \<and> \<not> ab \<and> \<not> num_le d (Num (clock e (reads s)))")
    case False
    with Inr have "snd (acquire e i v d ab s) = s \<or> snd (acquire e i v d ab s) = tick s"
      by (auto simp: acquire_def now_def Let_def)
    with refused late show thesis by blast
  next
    case True
    show thesis
    proof (cases "attempt_of i (tick s)")
      case (Inl err)
      with True Inr late show thesis by (simp add: acquire_def now_def Let_def)
    next
      case inr: (Inr as)
      then obtain a s1 where as: "attempt_of i (tick s) = Inr (a, s1)" by (cases as) auto
      note w = attempt_of_weak [OF tinv act as]
      obtain r s' where g: "grant e a u s1 = (r, s')" by (cases "grant e a u s1")
      have acq: "acquire e i v d ab s = (if queue s1 = [] \<and> fits s1 u then
            (case grant e a u s1 of (Inl err, s') \<Rightarrow> (Thrown err, s') | (Inr lease, s') \<Rightarrow> (Resolved lease, s'))
          else if int (length (queue s1)) \<ge> maxQueued s1
          then (Rejected QueueFull, deleteAttemptIfEmpty (attemptId i) s1) else enqueue e i a u d s1)"
        using True Inr as by (simp add: acquire_def now_def Let_def)
      show thesis
      proof (cases "queue s1 = [] \<and> fits s1 u")
        case True
        moreover from this acq g have "snd (acquire e i v d ab s) = s'" by (cases r) simp_all
        ultimately show thesis using granted [OF as w(1) _ _ _ g] u w(3) by simp
      next
        case False
        with acq have "acquire e i v d ab s = (if int (length (queue s1)) \<ge> maxQueued s1
            then (Rejected QueueFull, deleteAttemptIfEmpty (attemptId i) s1) else enqueue e i a u d s1)"
          by (simp only: if_False)
        then show thesis using full [OF as _ w(1)] queued [OF as w(1,2)] u w(5) by (simp split: if_splits)
      qed
    qed
  qed
qed

lemma full_drained:
  assumes "broker_inv e s" and "drained s" and "attempt_of i (tick s) = Inr (a, s1)"
  shows "drained (deleteAttemptIfEmpty (attemptId i) s1)"
proof -
  let ?s = "deleteAttemptIfEmpty (attemptId i) s1"
  have "used s1 = used s" "capacities s1 = capacities s" "queue s1 = queue s"
    using assms(3) by (auto simp: attempt_of_def Let_def split: option.splits if_splits)
  then have "used ?s = used s" "capacities ?s = capacities s" "queue ?s = queue s"
    by (simp_all add: deleteAttemptIfEmpty_def split: option.split)
  with attempt_of_delete [of e "tick s"] assms show ?thesis by (simp cong: drained_cong_get)
qed

lemma acquire_ok:
  assumes inv: "broker_inv e s" and dr: "drained s" and inj: "inj (uuid e)"
  shows "broker_inv e (snd (acquire e i v d ab s)) \<and> drained (snd (acquire e i v d ab s))"
  using inv
proof (cases rule: acquire_path [where i = i and v = v and d = d and ab = ab])
  case (full a s1)
  with full_drained [OF inv dr] show ?thesis by (simp add: deleteAttemptIfEmpty_inv)
next
  case (granted a s1 u r s')
  then have "queue s1 = []" by (auto simp: attempt_of_def Let_def split: option.splits if_splits)
  with granted grant_inv(1) [OF granted(2) inj granted(4,5,6)] queue_grant_eq [OF granted(6)] show ?thesis
    by (simp add: drained_def)
next
  case (queued a s1 u)
  then show ?thesis by (simp add: enqueue_ok inj)
qed (use inv dr in simp_all)

lemma release_ok:
  assumes inv: "broker_inv e s" and dr: "drained s" and inj: "inj (uuid e)"
  shows "broker_inv e (snd (release e h s)) \<and> drained (snd (release e h s))"
proof -
  let ?r = "release_auth e (leaseOwner h) (leaseId h) (leaseToken h) s"
  have "broker_inv e (snd ?r) \<and> drained (snd ?r)"
  proof (cases "authenticatedLease (leaseOwner h) (leaseId h) (leaseToken h) s")
    case (Inl err)
    with inv dr show ?thesis by (simp add: release_auth_def)
  next
    case (Inr l)
    then have "js_get (leases s) (leaseId h) = Some l"
      by (auto simp: authenticatedLease_def res_simps split: option.splits if_splits)
    from drain_ok [OF release_core_inv [OF inv this] inj]
    obtain s' where "drain e (release_core l s) = (None, s')" "broker_inv e s'" "drained s'" .
    with Inr inv dr show ?thesis by (simp add: release_auth_def)
  qed
  then show ?thesis
    using inv dr by (cases ?r) (auto simp: release_def cong: drained_cong split: option.split)
qed

section \<open>All runs\<close>

text \<open>One step is one call of a public method, or a timer or abort event of an acquisition that was made.\<close>

inductive broker_step :: "env \<Rightarrow> broker \<Rightarrow> broker \<Rightarrow> bool" for e where
  register: "broker_step e s (snd (registerWorker e i s))"
| disconnect: "broker_step e s (snd (disconnectWorker e i s))"
| acquire: "broker_step e s (snd (acquire e a v d aborted s))"
| attach: "broker_step e s (snd (attach h atts s))"
| release: "broker_step e s (snd (release e h s))"
| event: "pendSequence p \<in> settled s \<or> p \<in> set (queue s) \<Longrightarrow> broker_step e s (snd (cancel_event e p timer s))"

definition broker_init :: "env \<Rightarrow> broker \<Rightarrow> bool" where
  "broker_init e s \<longleftrightarrow> (\<exists>rid caps q. createBroker rid caps q = Inr s)"

definition unique_uuids :: "env \<Rightarrow> bool" where
  "unique_uuids e \<longleftrightarrow> inj (uuid e)"

abbreviation broker_reach :: "env \<Rightarrow> broker \<Rightarrow> bool" where
  "broker_reach e \<equiv> reachable (broker_init e) (broker_step e)"

interpretation broker: guarded_system unique_uuids broker_init broker_step
  "\<lambda>e s. broker_inv e s \<and> drained s"
proof
  fix e s
  assume "unique_uuids e" "broker_init e s"
  then show "broker_inv e s \<and> drained s"
    by (auto simp: broker_init_def createBroker_inv createBroker_def res_simps drained_def)
next
  fix e s s'
  assume "unique_uuids e" and inv: "broker_inv e s \<and> drained s" and "broker_step e s s'"
  then have inj: "inj (uuid e)" and step: "broker_step e s s'" by (simp_all add: unique_uuids_def)
  from step inv show "broker_inv e s' \<and> drained s'"
    by cases (use inj in \<open>auto simp: registerWorker_ok disconnectWorker_ok acquire_ok attach_ok release_ok cancel_event_ok\<close>)
qed

lemmas reach_broker_inv = broker.reachable_keeps [THEN conjunct1]
lemmas reach_drained = broker.reachable_keeps [THEN conjunct2]

lemma sum_list_partition:
  assumes "distinct ks" and "\<forall>x \<in> set xs. g x \<in> set ks"
  shows "sum_list (map (\<lambda>k. sum_list (map f (filter (\<lambda>x. g x = k) xs))) ks) = (sum_list (map f xs) :: int)"
  using assms(2)
proof (induction xs)
  case (Cons x xs)
  have "sum_list (map (\<lambda>k. if g x = k then f x else 0) ks) = f x"
    using assms(1) Cons.prems
    by (simp add: sum_list_distinct_conv_sum_set sum.delta' eq_commute [of "g x"])
  moreover have "sum_list (map (\<lambda>k. sum_list (map f (filter (\<lambda>y. g y = k) (x # xs)))) ks) =
      sum_list (map (\<lambda>k. if g x = k then f x else 0) ks) + sum_list (map (\<lambda>k. sum_list (map f (filter (\<lambda>y. g y = k) xs))) ks)"
    by (simp add: sum_list_addf [symmetric]) (rule arg_cong [where f = sum_list], simp)
  ultimately show ?case using Cons by simp
qed simp

lemma used_is_leased:
  assumes inv: "broker_inv e s"
  shows "used s r = sum_list (map (\<lambda>(_, l). leaseUnits l r) (leases s))"
proof -
  have g: "global_inv e s" using inv by (rule broker_invD)
  then have wf: "wf_map (attempts s)" by (simp add: global_inv_def)
  let ?f = "\<lambda>(_, l). leaseUnits l r" and ?g = "\<lambda>(_, l). attemptId (leaseOwner l)"
  have cover: "\<forall>x \<in> set (leases s). ?g x \<in> set (js_keys (attempts s))"
  proof (clarsimp)
    fix lid l assume "(lid, l) \<in> set (leases s)"
    then obtain a where "js_get (attempts s) (attemptId (leaseOwner l)) = Some a" by (rule lease_attempt [OF inv])
    then show "attemptId (leaseOwner l) \<in> fst ` set (attempts s)" by (auto intro: image_eqI [OF _ map_of_SomeD])
  qed
  have "reservation a r = sum_list (map ?f (filter (\<lambda>x. ?g x = aid) (leases s)))" if "(aid, a) \<in> set (attempts s)" for aid a
  proof -
    have "js_get (attempts s) aid = Some a" using that wf by simp
    with broker_weak_inv [OF inv] have "attempt_pre s aid a" by (simp add: weak_inv_def)
    then show ?thesis
      by (simp add: attempt_pre_def lease_sum_def leases_of_def comp_def split_def)
  qed
  then have "map_sum (\<lambda>a. reservation a r) (attempts s) =
      sum_list (map (\<lambda>k. sum_list (map ?f (filter (\<lambda>x. ?g x = k) (leases s)))) (js_keys (attempts s)))"
    unfolding map_sum_def by (auto simp: comp_def intro!: arg_cong [where f = sum_list])
  also have "\<dots> = sum_list (map ?f (leases s))" by (rule sum_list_partition [OF wf cover])
  finally show ?thesis using g by (simp add: global_inv_def)
qed

end
