(* ===== verification/Broker_Props.thy ===== *)
theory Broker_Props
  imports Broker_Safety
begin

text \<open>
  The theorems about the resource broker. \<open>broker_reach e s\<close> ranges over every interleaving of the public methods
  with timer and abort events (\<open>Broker_Safety\<close>); \<open>unique_uuids e\<close> is the documented behaviour of
  \<open>crypto.randomUUID\<close>, that no identifier is drawn twice. The last lemma shows what happens without it.
\<close>

section \<open>Promises\<close>

text \<open>Every request that was queued is waiting or was answered.\<close>

definition answered :: "broker \<Rightarrow> bool" where
  "answered s \<longleftrightarrow> settled s = fst ` set (settlements s)"

definition all_seen :: "broker \<Rightarrow> bool" where
  "all_seen s \<longleftrightarrow> {1..sequence s} \<subseteq> settled s \<union> pendSequence ` set (queue s)"

lemma later_all_seen: "later s s' \<Longrightarrow> all_seen s \<Longrightarrow> all_seen s'"
  unfolding later_def all_seen_def by (elim conjE, simp only:) blast

lemma answered_frame:
  "settled s' = settled s \<Longrightarrow> settlements s' = settlements s \<Longrightarrow> answered s' = answered s"
  by (simp add: answered_def)

lemma freshLeaseId_settled [simp]:
  "settled (snd (freshLeaseId n e s)) = settled s" "settlements (snd (freshLeaseId n e s)) = settlements s"
  by (induction n arbitrary: s) (simp_all add: Let_def)

lemma grant_settled:
  assumes "grant e a u s = (r, s')"
  shows "settled s' = settled s" and "settlements s' = settlements s"
proof -
  define s1 where "s1 = s\<lparr>used := (\<lambda>r. used s r + u r),
    attempts := js_set (attemptId (owner a)) (a\<lparr>reservation := (\<lambda>r. reservation a r + u r)\<rparr>) (attempts s)\<rparr>"
  obtain x s2 where fr: "freshLeaseId 8 e s1 = (x, s2)" by (cases "freshLeaseId 8 e s1")
  have fresh: "settled s2 = settled s" "settlements s2 = settlements s"
    using freshLeaseId_settled [of 8 e s1] unfolding fr by (simp_all add: s1_def)
  have "settled s' = settled s2 \<and> settlements s' = settlements s2"
    using assms fr unfolding grant_def Let_def s1_def [symmetric] by (cases x) auto
  with fresh show "settled s' = settled s" "settlements s' = settlements s" by simp_all
qed

lemma cancel_core_answered:
  assumes "answered s"
  shows "answered (cancel_core p err s)"
  using assms
  by (auto simp: answered_def cancel_core_def Let_def settlePending_def settle_def split: option.split)

lemma drain_step_answered:
  assumes "answered s" and "broker_inv e s"
  shows "case drain_step e s of Return s' \<Rightarrow> answered s' | Throw _ s' \<Rightarrow> True
    | Cancel s' \<Rightarrow> answered s' | Continue s' \<Rightarrow> answered s'"
proof -
  have tick: "answered (tick s)" using assms(1) by (simp add: answered_def)
  have fresh: "pendSequence (queue s ! i) \<notin> settled s" if "i < length (queue s)" for i
    using assms(2) nth_mem [OF that] by (auto simp: broker_inv_def global_inv_def pending_inv_def)
  show ?thesis
  proof (cases rule: drain_step_cases [of s e])
    case (granted i a lease s')
    from fresh [OF granted(2)] grant_settled [OF granted(5)] assms(1)
    have "settled s' = insert (pendSequence (queue s ! i)) (fst ` set (settlements s))" "settlements s' = settlements s"
      by (simp_all add: settlePending_def Let_def answered_def)
    with granted show ?thesis by (simp add: answered_def settle_def)
  qed (use assms(1) tick cancel_core_answered [OF tick] in simp_all)
qed

lemma drain_answered:
  assumes "answered s" and "broker_inv e s" and "inj (uuid e)"
  shows "answered (snd (drain e s))"
proof -
  have "\<exists>s' s0. drain e s = (None, s') \<and> (broker_inv e s' \<and> answered s') \<and> (broker_inv e s0 \<and> answered s0) \<and>
      drain_step e s0 = Return s'"
  proof (rule drain_rule [where P = "\<lambda>s'. broker_inv e s' \<and> answered s'"])
    fix t assume t: "broker_inv e t \<and> answered t"
    with drain_step_inv [of e t] drain_step_answered [of t e] assms(3)
    show "case drain_step e t of Return s' \<Rightarrow> broker_inv e s' \<and> answered s' | Throw _ _ \<Rightarrow> False
        | Cancel s' \<Rightarrow> broker_inv e s' \<and> answered s' | Continue s' \<Rightarrow> broker_inv e s' \<and> answered s'"
      by (cases "drain_step e t") auto
  qed (simp add: assms)
  then show ?thesis by auto
qed

lemma cancel_answered:
  assumes "answered s" and "broker_inv e s" and "inj (uuid e)" and "pendSequence p \<in> settled s \<or> p \<in> set (queue s)"
  shows "answered (snd (cancel e p err s))"
  using assms drain_answered [OF cancel_core_answered cancel_core_inv] by (auto simp: cancel_def)

lemma cancel_all_answered:
  assumes "answered s" and "broker_inv e s" and "inj (uuid e)"
    and "\<forall>p \<in> set ps. pendSequence p \<in> settled s \<or> p \<in> set (queue s)"
  shows "answered (snd (cancel_all e ps s))"
  using assms
proof (induction ps arbitrary: s)
  case (Cons p ps)
  then obtain s1 where s1: "cancel e p StaleWorker s = (None, s1)" "broker_inv e s1"
    by (metis cancel_inv list.set_intros(1))
  moreover have "\<forall>q \<in> set ps. pendSequence q \<in> settled s1 \<or> q \<in> set (queue s1)"
    using Cons.prems cancel_later [of e s p StaleWorker] s1 by (auto simp: later_def)
  ultimately show ?case
    using Cons cancel_answered [of s e p StaleWorker] by (simp split: option.split)
qed simp

lemma reclaimWorker_answered:
  assumes "answered s" and "broker_inv e s" and "inj (uuid e)"
  shows "answered (snd (reclaimWorker e wid epoch s))"
proof -
  have fold: "settled (fold reclaim_attempt aids t) = settled t \<and> settlements (fold reclaim_attempt aids t) = settlements t"
    for aids t
    by (induction aids arbitrary: t) (auto simp: reclaim_attempt_def recomputeReservation_def Let_def split: option.split)
  show ?thesis
    using cancel_all_answered [OF assms, of "filter (\<lambda>p. owned_by wid epoch (pendOwner p)) (queue s)"]
    by (cases "cancel_all e (filter (\<lambda>p. owned_by wid epoch (pendOwner p)) (queue s)) s")
      (simp add: reclaimWorker_def answered_def fold split: option.split)
qed

text \<open>Every step keeps both.\<close>

definition seen :: "broker \<Rightarrow> bool" where
  "seen s \<longleftrightarrow> answered s \<and> all_seen s"

lemma seen_later: "later s s' \<Longrightarrow> answered s' \<Longrightarrow> seen s \<Longrightarrow> seen s'"
  using later_all_seen by (simp add: seen_def)

lemma seen_cong:
  "settled s' = settled s \<Longrightarrow> settlements s' = settlements s \<Longrightarrow> sequence s' = sequence s \<Longrightarrow> queue s' = queue s \<Longrightarrow>
   seen s' = seen s"
  by (simp add: seen_def answered_def all_seen_def)

lemma drain_seen: "broker_inv e s \<Longrightarrow> inj (uuid e) \<Longrightarrow> seen s \<Longrightarrow> seen (snd (drain e s))"
  by (meson seen_def seen_later drain_later drain_answered)

lemma reclaimWorker_seen:
  assumes "broker_inv e s" and "inj (uuid e)" and "seen s" and "reclaimWorker e wid epoch s = (None, s1)" and "later s s1"
  shows "seen s1"
  using assms reclaimWorker_answered [of s e wid epoch] by (auto simp: seen_def intro: later_all_seen)

lemma registerWorker_seen:
  assumes inv: "broker_inv e s" and inj: "inj (uuid e)" and "seen s"
  shows "seen (snd (registerWorker e i s))"
  using inv inj
proof (cases rule: registerWorker_path [where i = i])
  case (replaced epoch s1 s2)
  have "seen s1" using reclaimWorker_seen [OF inv inj assms(3) replaced(1,2)] .
  then have "seen s2" using replaced(3) by (simp cong: seen_cong)
  with replaced inj show ?thesis by (simp add: drain_seen)
qed (use assms in \<open>simp_all cong: seen_cong\<close>)

lemma disconnectWorker_seen:
  assumes inv: "broker_inv e s" and inj: "inj (uuid e)" and "seen s"
  shows "seen (snd (disconnectWorker e i s))"
proof (cases "runId i = brokerRun s \<and> js_get (workers s) (workerId i) = Some (workerEpoch i)")
  case True
  then obtain s1 s2 where s2: "reclaimWorker e (workerId i) (workerEpoch i) s = (None, s1)" "later s s1"
      "s2 = s1\<lparr>workers := js_delete (workerId i) (workers s1)\<rparr>" "broker_inv e s2" "disconnectWorker e i s = drain e s2"
    using disconnectWorker_path [OF inv inj] by metis
  have "seen s1" using reclaimWorker_seen [OF inv inj assms(3) s2(1,2)] .
  then have "seen s2" using s2(3) by (simp cong: seen_cong)
  with s2 inj show ?thesis by (simp add: drain_seen)
qed (use assms disconnectWorker_idle in simp)

lemma attempt_of_seen: "attempt_of i s = Inr (a, s1) \<Longrightarrow> seen s1 = seen s"
  by (rule seen_cong) (auto simp: attempt_of_def Let_def split: option.splits if_splits)

lemma acquire_seen:
  assumes inv: "broker_inv e s" and inj: "inj (uuid e)" and "seen s"
  shows "seen (snd (acquire e i v d ab s))"
proof -
  have tick: "seen (tick s)" using assms(3) by (simp cong: seen_cong)
  show ?thesis
    using inv
  proof (cases rule: acquire_path [where i = i and v = v and d = d and ab = ab])
    case (full a s1)
    then have "seen s1" using attempt_of_seen tick by blast
    then have "seen (deleteAttemptIfEmpty (attemptId i) s1)"
      by (subst seen_cong) (simp_all add: deleteAttemptIfEmpty_def split: option.split)
    with full show ?thesis by simp
  next
    case (granted a s1 u r s')
    then have "seen s1" using attempt_of_seen tick by blast
    moreover from this have "answered s'"
      using grant_settled [OF granted(6)] by (simp add: seen_def answered_def)
    ultimately show ?thesis using later_grant [OF granted(6)] granted(7) seen_later by blast
  next
    case (queued a s1 u)
    then have "seen s1" using attempt_of_seen tick by blast
    then have seen: "seen (enqueued i a u d s1)"
      by (auto simp: seen_def answered_def all_seen_def enqueued_def subset_iff le_Suc_eq)
    have "broker_inv e (enqueued i a u d s1)" using enqueued_inv queued(2-4) .
    then obtain s' where "drain e (enqueued i a u d s1) = (None, s')" by (rule drain_ok [OF _ inj])
    with drain_seen [OF \<open>broker_inv e (enqueued i a u d s1)\<close> inj seen] queued(5) show ?thesis
      by (simp add: enqueue_drain)
  qed (use assms tick in simp_all)
qed

lemma release_seen:
  assumes inv: "broker_inv e s" and inj: "inj (uuid e)" and "seen s"
  shows "seen (snd (release e h s))"
proof -
  let ?r = "release_auth e (leaseOwner h) (leaseId h) (leaseToken h) s"
  have "seen (snd ?r)"
  proof (cases "authenticatedLease (leaseOwner h) (leaseId h) (leaseToken h) s")
    case (Inr l)
    then have get: "js_get (leases s) (leaseId h) = Some l"
      by (auto simp: authenticatedLease_def res_simps split: option.splits if_splits)
    have "seen (release_core l s)"
      by (subst seen_cong [of _ s])
        (simp_all add: release_core_def Let_def recomputeReservation_def deleteAttemptIfEmpty_def assms split: option.split)
    from drain_seen [OF release_core_inv [OF inv get] inj this]
    have "seen (snd (drain e (release_core l s)))" .
    with Inr assms show ?thesis
      by (cases "drain e (release_core l s)") (simp add: release_auth_def split: option.split)
  qed (simp add: release_auth_def assms)
  then show ?thesis
    using assms(3) by (cases ?r) (simp add: release_def cong: seen_cong split: option.split)
qed

lemma attach_seen: "seen s \<Longrightarrow> seen (snd (attach h atts s))"
  by (auto simp: attach_def cong: seen_cong split: sum.split)

lemma cancel_event_seen:
  assumes "broker_inv e s" and "inj (uuid e)" and "seen s" and "pendSequence p \<in> settled s \<or> p \<in> set (queue s)"
  shows "seen (snd (cancel_event e p b s))"
  using assms cancel_later [OF assms(1,2,4)] cancel_answered [OF _ assms(1,2,4)]
  by (auto simp: cancel_event_def seen_def intro: later_all_seen)

interpretation promises: guarded_system unique_uuids broker_init broker_step
  "\<lambda>e s. (broker_inv e s \<and> drained s) \<and> seen s"
proof
  fix e s
  assume "unique_uuids e" "broker_init e s"
  then show "(broker_inv e s \<and> drained s) \<and> seen s"
    using broker.init_keeps
    by (auto simp: broker_init_def createBroker_def res_simps seen_def answered_def all_seen_def)
next
  fix e s s'
  assume good: "unique_uuids e" and inv: "(broker_inv e s \<and> drained s) \<and> seen s" and step: "broker_step e s s'"
  then have inj: "inj (uuid e)" by (simp add: unique_uuids_def)
  from step have "seen s'"
    by cases (use inv inj in \<open>auto simp: registerWorker_seen disconnectWorker_seen acquire_seen attach_seen
      release_seen cancel_event_seen\<close>)
  with broker.step_keeps [OF good _ step] inv show "(broker_inv e s' \<and> drained s') \<and> seen s'" by blast
qed

lemmas reach_seen = promises.reachable_keeps [THEN conjunct2]

section \<open>A concrete run\<close>

text \<open>One PTY session of capacity: worker \<open>w\<close> registers, attempt \<open>a1\<close> gets the session, attempt \<open>a2\<close> waits.\<close>

definition demo_env :: env where
  "demo_env = \<lparr>clock = of_nat, uuid = (\<lambda>n. replicate n CHR ''x'')\<rparr>"

definition demo_worker :: worker_identity where
  "demo_worker = \<lparr>runId = ''r'', workerId = ''w'', workerEpoch = Num 1\<rparr>"

definition demo_attempt :: "string \<Rightarrow> attempt_identity" where
  "demo_attempt aid = \<lparr>runId = ''r'', workerId = ''w'', workerEpoch = Num 1, attemptId = aid\<rparr>"

definition demo_vector :: resource_vector where
  "demo_vector = [(''ptySession'', Some (Num 1))]"

definition demo0 :: broker where
  "demo0 = \<lparr>brokerRun = ''r'', capacities = ZERO(PtySession := 1), maxQueued = 1000, workers = [], highestEpoch = [],
        attempts = [], leases = [], queue = [], used = ZERO, sequence = 0, settled = {},
        settlements = [], releasePromises = [], reads = 0, draws = 0, refs = 0\<rparr>"

definition demo1 :: broker where
  "demo1 = snd (registerWorker demo_env demo_worker demo0)"

definition demo2 :: broker where
  "demo2 = snd (acquire demo_env (demo_attempt ''a1'') demo_vector (Num 100) False demo1)"

definition demo3 :: broker where
  "demo3 = snd (acquire demo_env (demo_attempt ''a2'') demo_vector (Num 100) False demo2)"

lemma demo_unique: "unique_uuids demo_env"
  by (auto simp: unique_uuids_def demo_env_def inj_def dest: arg_cong [where f = length])

lemma demo0_created: "createBroker ''r'' demo_vector None = Inr demo0"
  by (simp add: createBroker_def normalizeCapacities_def RESOURCE_CLASSES_def vector_at_def demo_vector_def
      positiveInteger_def MAX_SAFE_INTEGER_def demo0_def ZERO_def fun_eq_iff)

lemma demo_reach: "broker_reach demo_env demo0" "broker_reach demo_env demo1"
    "broker_reach demo_env demo2" "broker_reach demo_env demo3"
proof -
  show 0: "broker_reach demo_env demo0"
    by (rule reach_init) (use demo0_created in \<open>unfold broker_init_def, blast\<close>)
  show 1: "broker_reach demo_env demo1"
    unfolding demo1_def by (rule reach_step [OF 0]) (rule broker_step.register)
  show 2: "broker_reach demo_env demo2"
    unfolding demo2_def by (rule reach_step [OF 1]) (rule broker_step.acquire)
  show "broker_reach demo_env demo3"
    unfolding demo3_def by (rule reach_step [OF 2]) (rule broker_step.acquire)
qed

lemma demo2_leases: "map (leaseUnits \<circ> snd) (leases demo2) = [ZERO(PtySession := 1)]"
  by code_simp

lemma demo3_queue: "map (attemptId \<circ> pendOwner) (queue demo3) = [''a2'']"
  by code_simp

section \<open>Theorems\<close>

text \<open>An epoch that is not the registered one owns nothing.\<close>

lemma unowned_gone:
  assumes inv: "broker_inv e s" and "js_get (workers s) wid \<noteq> Some epoch"
  shows "worker_gone wid epoch s"
proof -
  have att: "\<not> owned_by wid epoch (owner a)" if "(aid, a) \<in> set (attempts s)" for aid a
    using attempt_owner_active [OF inv that] assms(2) by (auto simp: active_worker_def owned_by_def)
  have "\<not> owned_by wid epoch (leaseOwner l)" if "(lid, l) \<in> set (leases s)" for lid l
    using lease_attempt [OF inv that] att map_of_SomeD by metis
  moreover have "\<not> owned_by wid epoch (pendOwner p)" if "p \<in> set (queue s)" for p
  proof -
    from inv that obtain a where "js_get (attempts s) (attemptId (pendOwner p)) = Some a"
        "sameWorker (owner a) (pendOwner p)"
      by (rule pending_attempt)
    with att [OF map_of_SomeD] show ?thesis by (auto simp: sameWorker_def owned_by_def)
  qed
  ultimately show ?thesis using att by (auto simp: worker_gone_def)
qed

text \<open>C1: In every reachable state and for every resource class, the used counter is exactly the sum of the units of
  the live leases, and it does not exceed the capacity.\<close>

theorem capacity_accounted:
  assumes "unique_uuids e" and "broker_reach e s"
  shows "used s r = sum_list (map (\<lambda>(_, l). leaseUnits l r) (leases s)) \<and> used s r \<le> capacities s r"
proof
  show "used s r = sum_list (map (\<lambda>(_, l). leaseUnits l r) (leases s))"
    by (rule used_is_leased [OF reach_broker_inv [OF assms]])
  show "used s r \<le> capacities s r"
    using broker_invD(1) [OF reach_broker_inv [OF assms]] by (simp add: global_inv_def)
qed

theorem capacity_accounted_witness:
  "used demo2 PtySession = sum_list (map (\<lambda>(_, l). leaseUnits l PtySession) (leases demo2)) \<and>
   used demo2 PtySession \<le> capacities demo2 PtySession \<and> leases demo2 \<noteq> []"
  using capacity_accounted [OF demo_unique demo_reach(3), of PtySession] demo2_leases by auto

text \<open>C2: No request waits that could run. In every reachable state the oldest waiting request does not fit, and neither
  does any waiting request of an attempt that already holds a lease.\<close>

theorem no_idle_waiting:
  assumes "unique_uuids e" and "broker_reach e s" and "p \<in> set (queue s)" and "p = hd (queue s) \<or> holds_leases s p"
  shows "\<not> fits s (pendUnits p)"
  using reach_drained [OF assms(1,2)] assms(3,4) by (cases "queue s") (auto simp: drained_def)

theorem no_idle_waiting_witness: "\<not> fits demo3 (pendUnits (hd (queue demo3)))"
proof -
  have "queue demo3 \<noteq> []" using demo3_queue by auto
  then show ?thesis using no_idle_waiting [OF demo_unique demo_reach(4), of "hd (queue demo3)"] by simp
qed

text \<open>A request taken from the queue and granted is the oldest one, or it extends the reservation of an attempt that
  already holds a lease: no newer attempt overtakes the head of the queue. Exactly this request leaves the queue and
  its promise is resolved with a lease for exactly the units asked for.\<close>

theorem drain_fifo:
  assumes "drain_step e s = Continue s'"
  shows "\<exists>i lease. i < length (queue s) \<and> (i = 0 \<or> holds_leases s (queue s ! i)) \<and>
    queue s' = remove_at i (queue s) \<and> leaseUnits lease = pendUnits (queue s ! i) \<and>
    settlements s' = settlements s @ [(pendSequence (queue s ! i), Inr lease)]"
proof (cases rule: drain_step_cases [of s e])
  case (granted i a lease t)
  have "i = 0 \<or> holds_leases s (queue s ! i)"
    using granted(1) by (cases rule: nextDrainableIndex_cases [of s]) auto
  moreover have "leaseUnits lease = pendUnits (queue s ! i)"
    using granted(5) by (auto simp: grant_def Let_def split: prod.splits option.splits)
  moreover have "settlements t = settlements s" "queue t = remove_at i (queue s)"
    using grant_settled [OF granted(5)] queue_grant_eq [OF granted(5)] by (simp_all add: settlePending_def Let_def)
  ultimately show ?thesis using granted assms by (auto simp: settle_def)
qed (use assms in simp_all)

text \<open>The state between releasing the only lease and draining: the waiting request is granted.\<close>

definition demo4 :: broker where
  "demo4 = release_core (snd (hd (leases demo3))) demo3"

lemma demo4_continues: "(case drain_step demo_env demo4 of Continue s' \<Rightarrow> queue s' = [] | _ \<Rightarrow> False)"
  by code_simp

theorem drain_fifo_witness:
  "\<exists>s' i lease. drain_step demo_env demo4 = Continue s' \<and> i < length (queue demo4) \<and>
     queue s' = remove_at i (queue demo4) \<and> settlements s' = settlements demo4 @ [(pendSequence (queue demo4 ! i), Inr lease)]"
proof -
  obtain s' where "drain_step demo_env demo4 = Continue s'"
    using demo4_continues by (auto split: drain_result.splits)
  with drain_fifo [OF this] show ?thesis by blast
qed

text \<open>Disconnecting a worker reclaims everything of it: afterwards no waiting request, no attempt and no lease
  belongs to this worker epoch, the worker is unknown, and no exception was thrown.\<close>

theorem disconnect_reclaims:
  assumes "unique_uuids e" and "broker_reach e s" and "runId i = brokerRun s"
    and "js_get (workers s) (workerId i) = Some (workerEpoch i)" and "disconnectWorker e i s = (r, s')"
  shows "r = None \<and> worker_gone (workerId i) (workerEpoch i) s' \<and> js_get (workers s') (workerId i) = None"
proof -
  have inv: "broker_inv e s" and inj: "inj (uuid e)"
    using reach_broker_inv [OF assms(1,2)] assms(1) by (simp_all add: unique_uuids_def)
  obtain s1 s2 where s2: "s2 = s1\<lparr>workers := js_delete (workerId i) (workers s1)\<rparr>" "broker_inv e s2"
      "disconnectWorker e i s = drain e s2"
    using disconnectWorker_path [OF inv inj assms(3,4)] by metis
  obtain t where t: "drain e s2 = (None, t)" "broker_inv e t" "later s2 t" by (rule drain_ok [OF s2(2) inj])
  then have "js_get (workers t) (workerId i) = None" using s2(1) by (simp add: later_def delete_conv')
  with t s2 assms(5) unowned_gone [OF t(2)] show ?thesis by simp
qed

theorem disconnect_reclaims_witness:
  "\<exists>s'. disconnectWorker demo_env demo_worker demo3 = (None, s') \<and> worker_gone ''w'' (Num 1) s'"
proof -
  obtain r s' where eq: "disconnectWorker demo_env demo_worker demo3 = (r, s')"
    by (cases "disconnectWorker demo_env demo_worker demo3")
  have "runId demo_worker = brokerRun demo3 \<and> js_get (workers demo3) (workerId demo_worker) = Some (workerEpoch demo_worker)"
    by code_simp
  with disconnect_reclaims [OF demo_unique demo_reach(4) _ _ eq] eq show ?thesis
    by (simp add: demo_worker_def)
qed

text \<open>A worker that registers again under a newer epoch fences the old one: after a successful registration nothing
  of any other epoch of this worker is left, and a request or a lease operation under another epoch is refused with
  \<open>stale-worker\<close> and changes nothing.\<close>

theorem registration_fences:
  assumes "unique_uuids e" and "broker_reach e s" and "registerWorker e i s = (None, s')"
    and "workerId j = workerId i" and "workerEpoch j \<noteq> workerEpoch i" and "runId j = runId i"
    and "assertWorker (workerId j) (workerEpoch j) = Inr ()"
  shows "worker_gone (workerId j) (workerEpoch j) s' \<and> acquire e j v d ab s' = (Thrown StaleWorker, s') \<and>
    release_auth e j lid token s' = (Inl StaleWorker, s')"
proof -
  have inv: "broker_inv e s" and inj: "inj (uuid e)"
    using reach_broker_inv [OF assms(1,2)] assms(1) by (simp_all add: unique_uuids_def)
  have "broker_inv e s' \<and> js_get (workers s') (workerId i) = Some (workerEpoch i) \<and> brokerRun s' = brokerRun s"
    using inv inj
  proof (cases rule: registerWorker_path [where i = i])
    case (replaced epoch s1 s2)
    obtain t where "drain e s2 = (None, t)" "broker_inv e t" "later s2 t" by (rule drain_ok [OF replaced(4) inj])
    with replaced assms(3) show ?thesis by (auto simp: later_def update_conv')
  qed (use assms(3) in \<open>auto simp: update_conv'\<close>)
  moreover have "runId i = brokerRun s"
    using assms(3) by (auto simp: registerWorker_def assertRun_def split: if_splits)
  moreover from calculation have "assertIdentity s' j = Inl StaleWorker"
    using assms(4-7) by (simp add: assertIdentity_def assertRun_def)
  ultimately show ?thesis
    using unowned_gone [of e s' "workerId j" "workerEpoch j"] assms(4,5)
    by (simp add: acquire_def release_auth_def authenticatedLease_def)
qed

theorem registration_fences_witness:
  "\<exists>s'. registerWorker demo_env (demo_worker\<lparr>workerEpoch := Num 2\<rparr>) demo3 = (None, s') \<and>
     worker_gone ''w'' (Num 1) s' \<and> acquire demo_env (demo_attempt ''a1'') demo_vector (Num 100) False s' = (Thrown StaleWorker, s')"
proof -
  let ?i = "demo_worker\<lparr>workerEpoch := Num 2\<rparr>"
  have none: "fst (registerWorker demo_env ?i demo3) = None" by code_simp
  then obtain s' where eq: "registerWorker demo_env ?i demo3 = (None, s')"
    by (cases "registerWorker demo_env ?i demo3") simp
  have "assertWorker (workerId (demo_attempt ''a1'')) (workerEpoch (demo_attempt ''a1'')) = Inr ()" by code_simp
  with registration_fences [OF demo_unique demo_reach(4) eq, of "demo_attempt ''a1''"] eq show ?thesis
    by (simp add: demo_worker_def demo_attempt_def)
qed

text \<open>C3: No promise is lost and none is settled twice: in every reachable state each of the requests ever queued is
  either still waiting or was answered, never both, and was answered exactly once.\<close>

theorem promises_settled_once:
  assumes "unique_uuids e" and "broker_reach e s"
  shows "distinct (map fst (settlements s)) \<and>
    {1..sequence s} \<subseteq> fst ` set (settlements s) \<union> pendSequence ` set (queue s) \<and>
    fst ` set (settlements s) \<inter> pendSequence ` set (queue s) = {}"
proof -
  have g: "global_inv e s" by (rule broker_invD(1) [OF reach_broker_inv [OF assms]])
  have "settled s = fst ` set (settlements s)" "{1..sequence s} \<subseteq> settled s \<union> pendSequence ` set (queue s)"
    using reach_seen [OF assms] unfolding seen_def answered_def all_seen_def by blast+
  moreover have "settled s \<inter> pendSequence ` set (queue s) = {}"
    using g by (auto simp: global_inv_def pending_inv_def)
  ultimately show ?thesis using g by (simp add: global_inv_def)
qed

theorem promises_settled_once_witness:
  "{1..sequence demo3} \<subseteq> fst ` set (settlements demo3) \<union> pendSequence ` set (queue demo3) \<and> sequence demo3 = 1"
proof -
  have "sequence demo3 = 1" by code_simp
  with promises_settled_once [OF demo_unique demo_reach(4)] show ?thesis by blast
qed

text \<open>Releasing a live lease removes it and returns exactly its units, before waiting requests are served from
  them; other leases are untouched.\<close>

theorem release_returns_units:
  assumes "unique_uuids e" and "broker_reach e s" and "js_get (leases s) lid = Some l"
  shows "used (release_core l s) r = used s r - leaseUnits l r \<and> leases (release_core l s) = js_delete lid (leases s)"
proof -
  have inv: "broker_inv e s" by (rule reach_broker_inv [OF assms(1,2)])
  have wf: "wf_map (leases s)" and id: "leaseId l = lid"
    using broker_invD(1) [OF inv] map_of_SomeD [OF assms(3)] by (auto simp: global_inv_def lease_inv_def)
  have del: "leases (release_core l s) = js_delete lid (leases s)"
    using id by (simp add: release_core_def Let_def recomputeReservation_def deleteAttemptIfEmpty_def split: option.split)
  then show ?thesis
    using used_is_leased [OF inv, of r] used_is_leased [OF release_core_inv [OF inv assms(3)], of r]
      map_sum_delete [OF wf assms(3), of "\<lambda>l. leaseUnits l r"]
    by (simp add: map_sum_def comp_def split_def)
qed

theorem release_returns_units_witness:
  "used demo4 PtySession = used demo3 PtySession - 1 \<and> used demo3 PtySession = 1"
proof -
  let ?l = "snd (hd (leases demo3))"
  have get: "js_get (leases demo3) (leaseId ?l) = Some ?l" by code_simp
  have "leaseUnits ?l PtySession = 1 \<and> used demo3 PtySession = 1" by code_simp
  with release_returns_units [OF demo_unique demo_reach(4) get, of PtySession] show ?thesis
    by (simp add: demo4_def)
qed





end
