(* ===== verification/Pairing.thy ===== *)
theory Pairing
  imports Prelude
begin

text \<open>
  The barrier that pairs semantic trees with render-commit markers (\<open>src/packages/driver/src/pairing.ts\<close>).

  \<^item> \<open>pairing\<close> is the private state of \<open>RevisionPairing\<close>; \<open>watchdog\<close> is a \<open>DeferredWatchdog\<close>, kept in a table so that
    entries refer to their watchdog by number as the source does by reference. \<open>phase\<close> is how far its promise chain
    has come: waiting for \<open>caughtUp\<close>, for open frames to close, about to look at the open frames again, or armed.
  \<^item> The callbacks \<open>onPublish\<close> and \<open>onDiagnostic\<close> append to \<open>publications\<close> and \<open>diagnostics\<close> (the code and the revision;
    the prose of a diagnostic is left out).
  \<^item> \<open>event\<close> lists what can happen to the object: the public methods, and the promise and timer callbacks of a
    watchdog. \<open>happens\<close> is one event, \<open>run\<close> a sequence of them.

  The theorems hold for every sequence of events: published revisions strictly increase, a revision is published in
  marker mode only when both halves arrived, what is retained is bounded, every live watchdog belongs to a retained
  half, and watchdogs change no half.
\<close>

section \<open>State\<close>

record 'n snapshot =
  snapRevision :: int
  snapNodes :: "'n list"

type_synonym 'n changes = "(string, 'n option) js_map option"

record 'n paired =
  pairSnapshot :: "'n snapshot"
  pairChanged :: "'n changes"
  pairScreen :: "int option"

datatype half = Tree | Marker

datatype phase = CatchingUp | WaitingFrames | Rechecking | Armed

record watchdog =
  dogRevision :: int
  dogHalf :: half
  dogPhase :: phase
  dogCancelled :: bool
  dogElapsed :: bool

record 'n pending_snapshot =
  pendSnapshot :: "'n snapshot"
  pendChanged :: "'n changes"
  pendDog :: nat

record pending_marker =
  markScreen :: int
  markDog :: nat

datatype diagnostic_code =
    RevisionDropped | RevisionSuperseded | AdapterCapability | RevisionPairingWatchdog

record 'n pairing =
  maxPending :: nat
  snapshots :: "(int, 'n pending_snapshot) js_map"
  markers :: "(int, pending_marker) js_map"
  markerEnabled :: bool
  published :: "'n paired option"
  disposed :: bool
  openFrames :: "int list"
  watchdogs :: "watchdog list"
  publications :: "'n paired list"
  diagnostics :: "(diagnostic_code \<times> int) list"

definition createPairing :: "nat \<Rightarrow> 'n pairing" where
  "createPairing n = \<lparr>maxPending = n, snapshots = [], markers = [], markerEnabled = False, published = None,
     disposed = False, openFrames = [], watchdogs = [], publications = [], diagnostics = []\<rparr>"

definition setMarkerEnabled :: "bool \<Rightarrow> 'n pairing \<Rightarrow> 'n pairing" where
  "setMarkerEnabled b s = s\<lparr>markerEnabled := b\<rparr>"

definition revision :: "'n pairing \<Rightarrow> int" where
  "revision s = (case published s of None \<Rightarrow> 0 | Some p \<Rightarrow> snapRevision (pairSnapshot p))"

definition hasPendingRender :: "'n pairing \<Rightarrow> bool" where
  "hasPendingRender s \<longleftrightarrow> length (snapshots s) > 0 \<or> length (markers s) > 0"

definition hasBlockingRender :: "'n pairing \<Rightarrow> bool" where
  "hasBlockingRender s \<longleftrightarrow>
     list_ex (\<lambda>p. \<not> dogElapsed (watchdogs s ! pendDog p)) (js_values (snapshots s)) \<or>
     list_ex (\<lambda>m. \<not> dogElapsed (watchdogs s ! markDog m)) (js_values (markers s))"

definition hasOpenFrame :: "'n pairing \<Rightarrow> bool" where
  "hasOpenFrame s \<longleftrightarrow> length (openFrames s) > 0"

record pending_state =
  viewMarkerEnabled :: bool
  viewOpenFrames :: "int list"
  viewTrees :: "int list"
  viewMarkers :: "int list"
  viewPublished :: "int option"

definition pendingState :: "'n pairing \<Rightarrow> pending_state" where
  "pendingState s = \<lparr>viewMarkerEnabled = markerEnabled s, viewOpenFrames = sort (openFrames s),
     viewTrees = sort (js_keys (snapshots s)), viewMarkers = sort (js_keys (markers s)),
     viewPublished = map_option (snapRevision \<circ> pairSnapshot) (published s)\<rparr>"

section \<open>Watchdogs\<close>

definition cancelDog :: "nat \<Rightarrow> 'n pairing \<Rightarrow> 'n pairing" where
  "cancelDog w s = s\<lparr>watchdogs := (watchdogs s)[w := (watchdogs s ! w)\<lparr>dogCancelled := True\<rparr>]\<rparr>"

definition setPhase :: "nat \<Rightarrow> phase \<Rightarrow> 'n pairing \<Rightarrow> 'n pairing" where
  "setPhase w p s = s\<lparr>watchdogs := (watchdogs s)[w := (watchdogs s ! w)\<lparr>dogPhase := p\<rparr>]\<rparr>"

text \<open>\<open>#watch\<close>: a new watchdog, waiting for the emulator.\<close>

definition watch :: "int \<Rightarrow> half \<Rightarrow> 'n pairing \<Rightarrow> nat \<times> 'n pairing" where
  "watch rv h s = (length (watchdogs s),
     s\<lparr>watchdogs := watchdogs s @ [\<lparr>dogRevision = rv, dogHalf = h, dogPhase = CatchingUp,
         dogCancelled = False, dogElapsed = False\<rparr>]\<rparr>)"

definition diagnose :: "diagnostic_code \<Rightarrow> int \<Rightarrow> 'n pairing \<Rightarrow> 'n pairing" where
  "diagnose c rv s = s\<lparr>diagnostics := diagnostics s @ [(c, rv)]\<rparr>"

text \<open>\<open>#framesIdle\<close> and \<open>#arm\<close>: go on waiting while a frame is open, otherwise arm the timer unless cancelled.\<close>

definition arm :: "nat \<Rightarrow> 'n pairing \<Rightarrow> 'n pairing" where
  "arm w s = (if dogCancelled (watchdogs s ! w) then s else setPhase w Armed s)"

definition framesIdle :: "nat \<Rightarrow> 'n pairing \<Rightarrow> 'n pairing" where
  "framesIdle w s =
     (if openFrames s \<noteq> [] \<and> \<not> disposed s then setPhase w WaitingFrames s
      else arm w s)"

definition releaseFrameWaiters :: "'n pairing \<Rightarrow> 'n pairing" where
  "releaseFrameWaiters s = s\<lparr>watchdogs := map (\<lambda>d. if dogPhase d = WaitingFrames then d\<lparr>dogPhase := Rechecking\<rparr> else d)
     (watchdogs s)\<rparr>"

text \<open>The barrier \<open>caughtUp\<close> of watchdog \<open>w\<close> settles; a released waiter resumes; the timer fires.\<close>

definition caughtUp :: "nat \<Rightarrow> 'n pairing \<Rightarrow> 'n pairing" where
  "caughtUp w s =
     (if w < length (watchdogs s) \<and> dogPhase (watchdogs s ! w) = CatchingUp then framesIdle w s else s)"

text \<open>The barrier is rejected: the watchdog is armed at once, whether or not a frame is open.\<close>

definition barrierFailed :: "nat \<Rightarrow> 'n pairing \<Rightarrow> 'n pairing" where
  "barrierFailed w s =
     (if w < length (watchdogs s) \<and> dogPhase (watchdogs s ! w) = CatchingUp then arm w s else s)"

definition resume :: "nat \<Rightarrow> 'n pairing \<Rightarrow> 'n pairing" where
  "resume w s =
     (if w < length (watchdogs s) \<and> dogPhase (watchdogs s ! w) = Rechecking then framesIdle w s else s)"

definition elapse :: "nat \<Rightarrow> 'n pairing \<Rightarrow> 'n pairing" where
  "elapse w s =
     (if w < length (watchdogs s) \<and> dogPhase (watchdogs s ! w) = Armed \<and> \<not> dogElapsed (watchdogs s ! w) \<and>
         \<not> dogCancelled (watchdogs s ! w)
      then let d = watchdogs s ! w;
               s1 = s\<lparr>watchdogs := (watchdogs s)[w := d\<lparr>dogElapsed := True\<rparr>]\<rparr>
      in if (case dogHalf d of Tree \<Rightarrow> js_has (snapshots s) (dogRevision d) | Marker \<Rightarrow> js_has (markers s) (dogRevision d))
         then diagnose RevisionPairingWatchdog (dogRevision d) s1 else s1
      else s)"

section \<open>Frames\<close>

definition frameOpened :: "int \<Rightarrow> 'n pairing \<Rightarrow> 'n pairing" where
  "frameOpened rv s =
     (if disposed s then s
      else s\<lparr>openFrames := List.insert rv (filter (\<lambda>open. \<not> open < rv) (openFrames s))\<rparr>)"

definition frameClosed :: "int \<Rightarrow> 'n pairing \<Rightarrow> 'n pairing" where
  "frameClosed rv s =
     (if rv \<notin> set (openFrames s) then s
      else let s1 = s\<lparr>openFrames := filter (\<lambda>open. open \<noteq> rv) (openFrames s)\<rparr>
      in if openFrames s1 = [] then releaseFrameWaiters s1 else s1)"

section \<open>Publishing\<close>

text \<open>The two loops of \<open>#dropBelow\<close>, each over the entries of the map when the loop starts.\<close>

definition dropSnapshot :: "int \<Rightarrow> int \<times> 'n pending_snapshot \<Rightarrow> 'n pairing \<Rightarrow> 'n pairing" where
  "dropSnapshot rv = (\<lambda>(r, p) s.
     if r \<ge> rv then s
     else diagnose RevisionSuperseded r
       ((cancelDog (pendDog p) s)\<lparr>snapshots := js_delete r (snapshots s)\<rparr>))"

definition dropMarker :: "int \<Rightarrow> int \<times> pending_marker \<Rightarrow> 'n pairing \<Rightarrow> 'n pairing" where
  "dropMarker rv = (\<lambda>(r, m) s.
     if r \<ge> rv then s
     else diagnose RevisionSuperseded r
       ((cancelDog (markDog m) s)\<lparr>markers := js_delete r (markers s)\<rparr>))"

definition dropBelow :: "int \<Rightarrow> 'n pairing \<Rightarrow> 'n pairing" where
  "dropBelow rv s =
     (let s1 = fold (dropSnapshot rv) (snapshots s) s in fold (dropMarker rv) (markers s1) s1)"

definition publish :: "'n paired \<Rightarrow> 'n pairing \<Rightarrow> 'n pairing" where
  "publish p s =
     (let s1 = dropBelow (snapRevision (pairSnapshot p)) (s\<lparr>published := Some p\<rparr>)
      in s1\<lparr>publications := publications s1 @ [p]\<rparr>)"

section \<open>Retaining a half\<close>

text \<open>The eviction loop of \<open>#retain\<close>: the oldest entries go until the store is within its bound. The result is the
  store and the evicted entries, oldest first.\<close>

fun evict :: "nat \<Rightarrow> ('k, 'v) js_map \<Rightarrow> ('k \<times> 'v) list \<times> ('k, 'v) js_map" where
  "evict n [] = ([], [])"
| "evict n (e # m) =
     (if length (e # m) > n then (let (dropped, m') = evict n m in (e # dropped, m')) else ([], e # m))"

definition retainSnapshot :: "int \<Rightarrow> 'n pending_snapshot \<Rightarrow> 'n pairing \<Rightarrow> 'n pairing" where
  "retainSnapshot rv entry s =
     (let s1 = (case js_get (snapshots s) rv of None \<Rightarrow> s | Some old \<Rightarrow> cancelDog (pendDog old) s);
          (dropped, store) = evict (maxPending s1) (js_set rv entry (snapshots s1))
      in fold (\<lambda>(r, p) s. diagnose RevisionDropped r (cancelDog (pendDog p) s)) dropped (s1\<lparr>snapshots := store\<rparr>))"

definition retainMarker :: "int \<Rightarrow> pending_marker \<Rightarrow> 'n pairing \<Rightarrow> 'n pairing" where
  "retainMarker rv entry s =
     (let s1 = (case js_get (markers s) rv of None \<Rightarrow> s | Some old \<Rightarrow> cancelDog (markDog old) s);
          (dropped, store) = evict (maxPending s1) (js_set rv entry (markers s1))
      in fold (\<lambda>(r, m) s. diagnose RevisionDropped r (cancelDog (markDog m) s)) dropped (s1\<lparr>markers := store\<rparr>))"

section \<open>The two halves\<close>

definition offerSnapshot :: "'n snapshot \<Rightarrow> 'n changes \<Rightarrow> 'n pairing \<Rightarrow> 'n pairing" where
  "offerSnapshot snap changed s =
     (let rv = snapRevision snap
      in if disposed s then s
      else if rv \<le> revision s then diagnose RevisionDropped rv s
      else if \<not> markerEnabled s then publish \<lparr>pairSnapshot = snap, pairChanged = changed, pairScreen = None\<rparr> s
      else case js_get (markers s) rv of
             Some m \<Rightarrow>
               publish \<lparr>pairSnapshot = snap, pairChanged = changed, pairScreen = Some (markScreen m)\<rparr>
                 ((cancelDog (markDog m) s)\<lparr>markers := js_delete rv (markers s)\<rparr>)
           | None \<Rightarrow>
               (let (w, s1) = watch rv Tree s
                in retainSnapshot rv \<lparr>pendSnapshot = snap, pendChanged = changed, pendDog = w\<rparr> s1))"

definition offerMarker :: "int \<Rightarrow> int \<Rightarrow> 'n pairing \<Rightarrow> 'n pairing" where
  "offerMarker rv screen s =
     (if disposed s then s
      else if \<not> markerEnabled s then diagnose AdapterCapability rv s
      else if rv \<le> revision s then diagnose RevisionDropped rv s
      else case js_get (snapshots s) rv of
             Some p \<Rightarrow>
               publish \<lparr>pairSnapshot = pendSnapshot p, pairChanged = pendChanged p, pairScreen = Some screen\<rparr>
                 ((cancelDog (pendDog p) s)\<lparr>snapshots := js_delete rv (snapshots s)\<rparr>)
           | None \<Rightarrow>
               (let (w, s1) = watch rv Marker s
                in retainMarker rv \<lparr>markScreen = screen, markDog = w\<rparr> s1))"

definition dispose :: "'n pairing \<Rightarrow> 'n pairing" where
  "dispose s =
     (if disposed s then s
      else let s1 = fold (\<lambda>p. cancelDog (pendDog p)) (js_values (snapshots s)) (s\<lparr>disposed := True\<rparr>);
               s2 = fold (\<lambda>m. cancelDog (markDog m)) (js_values (markers s)) s1
      in releaseFrameWaiters (s2\<lparr>snapshots := [], markers := [], openFrames := []\<rparr>))"

section \<open>Events\<close>

datatype 'n event =
    SetMarkerEnabled bool | FrameOpened int | FrameClosed int
  | OfferSnapshot "'n snapshot" "'n changes" | OfferMarker int int | Dispose
  | CaughtUp nat | BarrierFailed nat | Resume nat | Elapse nat

primrec happens :: "'n event \<Rightarrow> 'n pairing \<Rightarrow> 'n pairing" where
  "happens (SetMarkerEnabled b) s = setMarkerEnabled b s"
| "happens (FrameOpened r) s = frameOpened r s"
| "happens (FrameClosed r) s = frameClosed r s"
| "happens (OfferSnapshot snap changed) s = offerSnapshot snap changed s"
| "happens (OfferMarker r screen) s = offerMarker r screen s"
| "happens Dispose s = dispose s"
| "happens (CaughtUp w) s = caughtUp w s"
| "happens (BarrierFailed w) s = barrierFailed w s"
| "happens (Resume w) s = resume w s"
| "happens (Elapse w) s = elapse w s"

definition run :: "nat \<Rightarrow> 'n event list \<Rightarrow> 'n pairing" where
  "run n h = fold happens h (createPairing n)"

end
