(* ===== verification/Pairing_Props.thy ===== *)
theory Pairing_Props
  imports Pairing
begin

text \<open>
  Invariants of the pairing barrier and the theorems about all sequences of events. \<open>holds\<close> lists the retained
  halves with their watchdogs; \<open>dogs_ok\<close> says that the live watchdogs are exactly those.
\<close>

section \<open>Watchdog tables\<close>

definition cancel_in :: "nat list \<Rightarrow> watchdog list \<Rightarrow> watchdog list" where
  "cancel_in ws ds = fold (\<lambda>w ds. ds[w := (ds ! w)\<lparr>dogCancelled := True\<rparr>]) ws ds"

lemma cancel_in_simps [simp]:
  "cancel_in [] ds = ds"
  "cancel_in (w # ws) ds = cancel_in ws (ds[w := (ds ! w)\<lparr>dogCancelled := True\<rparr>])"
  "length (cancel_in ws ds) = length ds"
  by (simp_all add: cancel_in_def) (induction ws arbitrary: ds; simp)

lemma cancel_in_append: "cancel_in (vs @ ws) ds = cancel_in ws (cancel_in vs ds)"
  by (simp add: cancel_in_def)

lemma nth_cancel_in:
  "w < length ds \<Longrightarrow> cancel_in ws ds ! w = (if w \<in> set ws then (ds ! w)\<lparr>dogCancelled := True\<rparr> else ds ! w)"
proof (induction ws arbitrary: ds)
  case (Cons v ws)
  then show ?case by (cases "v = w") auto
qed simp

definition dogs_ok :: "(half \<times> int \<times> nat) set \<Rightarrow> watchdog list \<Rightarrow> bool" where
  "dogs_ok H ds \<longleftrightarrow>
     (\<forall>(h, r, w) \<in> H. w < length ds \<and> \<not> dogCancelled (ds ! w) \<and> dogHalf (ds ! w) = h \<and> dogRevision (ds ! w) = r) \<and>
     (\<forall>w < length ds. \<not> dogCancelled (ds ! w) \<longrightarrow> (dogHalf (ds ! w), dogRevision (ds ! w), w) \<in> H)"

lemma dogs_ok_bound: "dogs_ok H ds \<Longrightarrow> (h, r, w) \<in> H \<Longrightarrow> w < length ds"
  by (auto simp: dogs_ok_def)

lemma dogs_ok_add:
  assumes "dogs_ok H ds" and "dogHalf d = h" and "dogRevision d = r" and "\<not> dogCancelled d"
  shows "dogs_ok (insert (h, r, length ds) H) (ds @ [d])"
  using assms by (auto simp: dogs_ok_def nth_append less_Suc_eq split: prod.splits)

lemma dogs_ok_remove:
  assumes "dogs_ok H ds" and "R \<subseteq> H" and "set ws = (snd \<circ> snd) ` R"
  shows "dogs_ok (H - R) (cancel_in ws ds)"
  unfolding dogs_ok_def
proof (intro conjI ballI allI impI)
  fix x assume x: "x \<in> H - R"
  obtain h r w where eq: "x = (h, r, w)" by (cases x)
  have ok: "w < length ds" "\<not> dogCancelled (ds ! w)" "dogHalf (ds ! w) = h" "dogRevision (ds ! w) = r"
    using x eq assms(1) by (auto simp: dogs_ok_def)
  have "w \<notin> set ws"
  proof
    assume "w \<in> set ws"
    then obtain h' r' where "(h', r', w) \<in> R" using assms(3) by force
    moreover from this have "h' = h" "r' = r" using assms(1,2) ok by (auto simp: dogs_ok_def)
    ultimately show False using x eq by simp
  qed
  with ok eq show "case x of (h, r, w) \<Rightarrow> w < length (cancel_in ws ds) \<and> \<not> dogCancelled (cancel_in ws ds ! w) \<and>
      dogHalf (cancel_in ws ds ! w) = h \<and> dogRevision (cancel_in ws ds ! w) = r"
    by (simp add: nth_cancel_in)
next
  fix w assume "w < length (cancel_in ws ds)" and "\<not> dogCancelled (cancel_in ws ds ! w)"
  then show "(dogHalf (cancel_in ws ds ! w), dogRevision (cancel_in ws ds ! w), w) \<in> H - R"
    using assms by (force simp: nth_cancel_in dogs_ok_def split: if_splits)
qed

lemma dogs_ok_cong:
  "dogs_ok H ds \<Longrightarrow> map dogCancelled ds' = map dogCancelled ds \<Longrightarrow> map dogHalf ds' = map dogHalf ds \<Longrightarrow>
   map dogRevision ds' = map dogRevision ds \<Longrightarrow> dogs_ok H ds'"
proof -
  assume a: "dogs_ok H ds" and eq: "map dogCancelled ds' = map dogCancelled ds" "map dogHalf ds' = map dogHalf ds"
    "map dogRevision ds' = map dogRevision ds"
  have len: "length ds' = length ds" using eq(1) by (rule map_eq_imp_length_eq)
  moreover have "dogCancelled (ds' ! w) = dogCancelled (ds ! w)" "dogHalf (ds' ! w) = dogHalf (ds ! w)"
    "dogRevision (ds' ! w) = dogRevision (ds ! w)" if "w < length ds" for w
    using that len eq by (metis nth_map)+
  ultimately show ?thesis using a by (auto simp: dogs_ok_def)
qed

section \<open>Effects of the operations\<close>

definition holds :: "'n pairing \<Rightarrow> (half \<times> int \<times> nat) set" where
  "holds s = (\<lambda>(r, p). (Tree, r, pendDog p)) ` set (snapshots s) \<union> (\<lambda>(r, m). (Marker, r, markDog m)) ` set (markers s)"

lemma evict_conv: "evict n m = (take (length m - n) m, drop (length m - n) m)"
proof (induction n m rule: evict.induct)
  case (2 n e m)
  then show ?case by (cases "length m - n") (auto simp: Suc_diff_le)
qed simp

lemma cancelDog_fold:
  "fold (\<lambda>(r, p) s. diagnose c r (cancelDog (f p) s)) es s =
     s\<lparr>watchdogs := cancel_in (map (f \<circ> snd) es) (watchdogs s), diagnostics := diagnostics s @ map (\<lambda>e. (c, fst e)) es\<rparr>"
  by (induction es arbitrary: s) (auto simp: diagnose_def cancelDog_def)

lemma cancelDog_fields:
  "watchdogs (cancelDog w s) = cancel_in [w] (watchdogs s)" "maxPending (cancelDog w s) = maxPending s"
  "snapshots (cancelDog w s) = snapshots s" "markers (cancelDog w s) = markers s"
  "diagnostics (cancelDog w s) = diagnostics s" "(cancelDog w s)\<lparr>watchdogs := ds\<rparr> = s\<lparr>watchdogs := ds\<rparr>"
  by (simp_all add: cancelDog_def)

lemma dropSnapshot_fold:
  "fold (dropSnapshot rv) es s =
     (let out = filter (\<lambda>e. fst e < rv) es in
      s\<lparr>watchdogs := cancel_in (map (pendDog \<circ> snd) out) (watchdogs s),
        snapshots := fold js_delete (map fst out) (snapshots s),
        diagnostics := diagnostics s @ map (\<lambda>e. (RevisionSuperseded, fst e)) out\<rparr>)"
  by (induction es arbitrary: s) (auto simp: dropSnapshot_def diagnose_def cancelDog_def Let_def)

lemma dropMarker_fold:
  "fold (dropMarker rv) es s =
     (let out = filter (\<lambda>e. fst e < rv) es in
      s\<lparr>watchdogs := cancel_in (map (markDog \<circ> snd) out) (watchdogs s),
        markers := fold js_delete (map fst out) (markers s),
        diagnostics := diagnostics s @ map (\<lambda>e. (RevisionSuperseded, fst e)) out\<rparr>)"
  by (induction es arbitrary: s) (auto simp: dropMarker_def diagnose_def cancelDog_def Let_def)

lemma delete_below:
  "wf_map m \<Longrightarrow> fold js_delete (map fst (filter (\<lambda>e. fst e < rv) m)) m = filter (\<lambda>e. rv \<le> fst e) (m :: (int, 'v) js_map)"
  by (auto simp: fold_js_delete image_iff not_less intro!: filter_cong)

text \<open>What \<open>publish\<close> does, in one equation.\<close>

abbreviation below :: "int \<Rightarrow> (int, 'v) js_map \<Rightarrow> (int, 'v) js_map" where
  "below rv m \<equiv> filter (\<lambda>e. fst e < rv) m"

abbreviation above :: "int \<Rightarrow> (int, 'v) js_map \<Rightarrow> (int, 'v) js_map" where
  "above rv m \<equiv> filter (\<lambda>e. rv \<le> fst e) m"

lemma publish_effect:
  assumes "wf_map (snapshots s)" and "wf_map (markers s)" and "rv = snapRevision (pairSnapshot p)"
  shows "publish p s = s\<lparr>published := Some p, publications := publications s @ [p],
      snapshots := above rv (snapshots s), markers := above rv (markers s),
      watchdogs := cancel_in (map (pendDog \<circ> snd) (below rv (snapshots s)) @ map (markDog \<circ> snd) (below rv (markers s)))
        (watchdogs s),
      diagnostics := diagnostics s @ map (\<lambda>e. (RevisionSuperseded, fst e)) (below rv (snapshots s)) @
        map (\<lambda>e. (RevisionSuperseded, fst e)) (below rv (markers s))\<rparr>"
  using assms by (simp add: publish_def dropBelow_def dropSnapshot_fold dropMarker_fold Let_def delete_below
      cancel_in_append)

lemma retainSnapshot_effect:
  fixes s :: "'n pairing" and rv :: int and entry :: "'n pending_snapshot"
  defines "old \<equiv> (\<lambda>m. case js_get m rv of None \<Rightarrow> [] | Some p \<Rightarrow> [pendDog p])"
  defines "m \<equiv> js_set rv entry (snapshots s)"
  defines "k \<equiv> length m - maxPending s"
  shows "retainSnapshot rv entry s = s\<lparr>snapshots := drop k m,
      watchdogs := cancel_in (old (snapshots s) @ map (pendDog \<circ> snd) (take k m)) (watchdogs s),
      diagnostics := diagnostics s @ map (\<lambda>e. (RevisionDropped, fst e)) (take k m)\<rparr>"
  by (cases "js_get (snapshots s) rv")
    (simp_all add: retainSnapshot_def Let_def evict_conv cancelDog_fold cancelDog_fields old_def m_def k_def,
      simp add: cancelDog_def)

lemma retainMarker_effect:
  fixes s :: "'n pairing" and rv :: int and entry :: pending_marker
  defines "old \<equiv> (\<lambda>m. case js_get m rv of None \<Rightarrow> [] | Some p \<Rightarrow> [markDog p])"
  defines "m \<equiv> js_set rv entry (markers s)"
  defines "k \<equiv> length m - maxPending s"
  shows "retainMarker rv entry s = s\<lparr>markers := drop k m,
      watchdogs := cancel_in (old (markers s) @ map (markDog \<circ> snd) (take k m)) (watchdogs s),
      diagnostics := diagnostics s @ map (\<lambda>e. (RevisionDropped, fst e)) (take k m)\<rparr>"
  by (cases "js_get (markers s) rv")
    (simp_all add: retainMarker_def Let_def evict_conv cancelDog_fold cancelDog_fields old_def m_def k_def,
      simp add: cancelDog_def)

lemma dispose_effect:
  "\<not> disposed s \<Longrightarrow> dispose s = releaseFrameWaiters (s\<lparr>disposed := True, snapshots := [], markers := [], openFrames := [],
     watchdogs := cancel_in (map (pendDog \<circ> snd) (snapshots s) @ map (markDog \<circ> snd) (markers s)) (watchdogs s)\<rparr>)"
proof -
  have fold: "fold (\<lambda>p. cancelDog (f p)) ps t = t\<lparr>watchdogs := cancel_in (map f ps) (watchdogs t)\<rparr>"
    for f :: "'b \<Rightarrow> nat" and ps and t :: "'a pairing"
    by (induction ps arbitrary: t) (auto simp: cancelDog_def)
  assume "\<not> disposed s"
  then show ?thesis by (simp add: dispose_def fold Let_def cancel_in_append releaseFrameWaiters_def)
qed

section \<open>The invariant\<close>

definition watch_inv :: "'n pairing \<Rightarrow> bool" where
  "watch_inv s \<longleftrightarrow> dogs_ok (holds s) (watchdogs s)"

definition store_inv :: "'n pairing \<Rightarrow> bool" where
  "store_inv s \<longleftrightarrow> wf_map (snapshots s) \<and> wf_map (markers s) \<and>
     set (js_keys (snapshots s)) \<inter> set (js_keys (markers s)) = {} \<and>
     length (snapshots s) \<le> maxPending s \<and> length (markers s) \<le> maxPending s \<and>
     (\<forall>(r, p) \<in> set (snapshots s). snapRevision (pendSnapshot p) = r \<and> revision s \<le> r) \<and>
     (\<forall>(r, m) \<in> set (markers s). revision s \<le> r)"

definition publish_inv :: "'n pairing \<Rightarrow> bool" where
  "publish_inv s \<longleftrightarrow> sorted_wrt (<) (0 # map (snapRevision \<circ> pairSnapshot) (publications s)) \<and>
     published s = (if publications s = [] then None else Some (last (publications s)))"

text \<open>What is retained or published was offered.\<close>

definition origin_inv :: "'n event list \<Rightarrow> 'n pairing \<Rightarrow> bool" where
  "origin_inv h s \<longleftrightarrow>
     (\<forall>(r, p) \<in> set (snapshots s). OfferSnapshot (pendSnapshot p) (pendChanged p) \<in> set h) \<and>
     (\<forall>(r, m) \<in> set (markers s). OfferMarker r (markScreen m) \<in> set h) \<and>
     (\<forall>p \<in> set (publications s). OfferSnapshot (pairSnapshot p) (pairChanged p) \<in> set h \<and>
        (\<forall>screen. pairScreen p = Some screen \<longrightarrow> OfferMarker (snapRevision (pairSnapshot p)) screen \<in> set h))"

text \<open>Markers were negotiated at the start and stay so.\<close>

definition negotiated :: "'n event list \<Rightarrow> bool" where
  "negotiated h \<longleftrightarrow> h \<noteq> [] \<and> hd h = SetMarkerEnabled True \<and> SetMarkerEnabled False \<notin> set h"

definition paired_inv :: "'n event list \<Rightarrow> 'n pairing \<Rightarrow> bool" where
  "paired_inv h s \<longleftrightarrow> (negotiated h \<longrightarrow> markerEnabled s \<and> (\<forall>p \<in> set (publications s). pairScreen p \<noteq> None)) \<and>
     (h = [] \<longrightarrow> publications s = [])"

definition pairing_inv :: "nat \<Rightarrow> 'n event list \<Rightarrow> 'n pairing \<Rightarrow> bool" where
  "pairing_inv n h s \<longleftrightarrow> maxPending s = n \<and> watch_inv s \<and> store_inv s \<and> publish_inv s \<and> origin_inv h s \<and> paired_inv h s"

section \<open>Publishing\<close>

text \<open>A half taken out of its store, and its watchdog cancelled.\<close>

abbreviation take_marker :: "int \<Rightarrow> pending_marker \<Rightarrow> 'n pairing \<Rightarrow> 'n pairing" where
  "take_marker rv m s \<equiv> (cancelDog (markDog m) s)\<lparr>markers := js_delete rv (markers s)\<rparr>"

abbreviation take_snapshot :: "int \<Rightarrow> 'n pending_snapshot \<Rightarrow> 'n pairing \<Rightarrow> 'n pairing" where
  "take_snapshot rv p s \<equiv> (cancelDog (pendDog p) s)\<lparr>snapshots := js_delete rv (snapshots s)\<rparr>"

lemma holds_entry:
  "js_get (markers s) rv = Some m \<Longrightarrow> (Marker, rv, markDog m) \<in> holds s"
  "js_get (snapshots s) rv = Some p \<Longrightarrow> (Tree, rv, pendDog p) \<in> holds s"
  by (force simp: holds_def dest: map_of_SomeD)+

lemma take_marker_watch:
  assumes "watch_inv s" and "wf_map (markers s)" and get: "js_get (markers s) rv = Some m"
  shows "watch_inv (take_marker rv m s)"
proof -
  have "holds (take_marker rv m s) = holds s - {(Marker, rv, markDog m)}"
    using assms(2) map_of_SomeD [OF get] eq_key_imp_eq_value [OF assms(2)]
    by (fastforce simp: holds_def set_js_delete cancelDog_def)
  with dogs_ok_remove [OF _ _, of "holds s" "watchdogs s" "{(Marker, rv, markDog m)}" "[markDog m]"]
    holds_entry(1) [OF get] assms(1)
  show ?thesis by (simp add: watch_inv_def cancelDog_fields)
qed

lemma take_snapshot_watch:
  assumes "watch_inv s" and "wf_map (snapshots s)" and get: "js_get (snapshots s) rv = Some p"
  shows "watch_inv (take_snapshot rv p s)"
proof -
  have "holds (take_snapshot rv p s) = holds s - {(Tree, rv, pendDog p)}"
    using assms(2) map_of_SomeD [OF get] eq_key_imp_eq_value [OF assms(2)]
    by (fastforce simp: holds_def set_js_delete cancelDog_def)
  with dogs_ok_remove [OF _ _, of "holds s" "watchdogs s" "{(Tree, rv, pendDog p)}" "[pendDog p]"]
    holds_entry(2) [OF get] assms(1)
  show ?thesis by (simp add: watch_inv_def cancelDog_fields)
qed

lemma publish_watch:
  assumes "watch_inv s" and "wf_map (snapshots s)" and "wf_map (markers s)"
  shows "watch_inv (publish p s)"
proof -
  let ?rv = "snapRevision (pairSnapshot p)"
  let ?R = "{x \<in> holds s. fst (snd x) < ?rv}"
  have eff: "publish p s = s\<lparr>published := Some p, publications := publications s @ [p],
      snapshots := above ?rv (snapshots s), markers := above ?rv (markers s),
      watchdogs := cancel_in (map (pendDog \<circ> snd) (below ?rv (snapshots s)) @ map (markDog \<circ> snd) (below ?rv (markers s)))
        (watchdogs s),
      diagnostics := diagnostics s @ map (\<lambda>e. (RevisionSuperseded, fst e)) (below ?rv (snapshots s)) @
        map (\<lambda>e. (RevisionSuperseded, fst e)) (below ?rv (markers s))\<rparr>"
    using assms by (simp add: publish_effect)
  have "holds (publish p s) = holds s - ?R"
    unfolding eff by (auto simp: holds_def image_iff split: prod.splits)
  moreover have "set (map (pendDog \<circ> snd) (below ?rv (snapshots s)) @ map (markDog \<circ> snd) (below ?rv (markers s)))
      = (snd \<circ> snd) ` ?R"
    by (force simp: holds_def)
  ultimately show ?thesis
    using dogs_ok_remove [of "holds s" "watchdogs s" ?R] assms(1) by (auto simp: watch_inv_def eff)
qed

lemma length_above: "length m \<le> n \<Longrightarrow> length (above r m) \<le> n"
  using length_filter_le order_trans by blast

lemma publish_fields:
  assumes "store_inv s"
  shows "snapshots (publish p s) = above (snapRevision (pairSnapshot p)) (snapshots s)"
    and "markers (publish p s) = above (snapRevision (pairSnapshot p)) (markers s)"
    and "published (publish p s) = Some p" and "publications (publish p s) = publications s @ [p]"
    and "maxPending (publish p s) = maxPending s" and "markerEnabled (publish p s) = markerEnabled s"
  using publish_effect [OF _ _ refl, of s p] assms by (simp_all add: store_inv_def)

lemma publish_keeps:
  assumes inv: "watch_inv s" "store_inv s" "publish_inv s" and new: "revision s < snapRevision (pairSnapshot p)"
  shows "watch_inv (publish p s)" and "store_inv (publish p s)" and "publish_inv (publish p s)"
proof -
  show "watch_inv (publish p s)" using inv by (intro publish_watch) (simp_all add: store_inv_def)
  have rev: "revision (publish p s) = snapRevision (pairSnapshot p)"
    using publish_fields(3) [OF inv(2)] by (simp add: revision_def)
  show "store_inv (publish p s)"
    using inv(2) unfolding store_inv_def [of "publish p s"] rev publish_fields [OF inv(2)]
    by (auto simp: store_inv_def length_above)
  have "\<forall>x \<in> set (publications s). snapRevision (pairSnapshot x) < snapRevision (pairSnapshot p)"
  proof (cases "publications s" rule: rev_cases)
    case (snoc xs x)
    with inv(3) have "revision s = snapRevision (pairSnapshot x)" by (simp add: publish_inv_def revision_def)
    with inv(3) new snoc show ?thesis by (auto simp: publish_inv_def sorted_wrt_append)
  qed simp
  moreover have "0 < snapRevision (pairSnapshot p)"
    using inv(3) new by (cases "publications s" rule: rev_cases)
      (auto simp: publish_inv_def revision_def sorted_wrt_append)
  ultimately show "publish_inv (publish p s)"
    using inv(3) by (auto simp: publish_inv_def publish_fields [OF inv(2)] sorted_wrt_append)
qed

lemma take_store:
  "store_inv s \<Longrightarrow> store_inv (take_marker rv m s)" "store_inv s \<Longrightarrow> store_inv (take_snapshot rv p s)"
  by (auto simp: store_inv_def cancelDog_def revision_def set_js_delete intro: order_trans [OF length_delete_le])

lemma take_fields:
  "publications (take_marker rv m s) = publications s" "published (take_marker rv m s) = published s"
  "publications (take_snapshot rv p s) = publications s" "published (take_snapshot rv p s) = published s"
  "maxPending (take_marker rv m s) = maxPending s" "maxPending (take_snapshot rv p s) = maxPending s"
  "markerEnabled (take_marker rv m s) = markerEnabled s" "markerEnabled (take_snapshot rv p s) = markerEnabled s"
  "revision (take_marker rv m s) = revision s" "revision (take_snapshot rv p s) = revision s"
  "snapshots (take_marker rv m s) = snapshots s" "markers (take_snapshot rv p s) = markers s"
  by (simp_all add: cancelDog_def revision_def)

section \<open>Retaining\<close>

lemma replaced_set:
  "A \<inter> B = {} \<Longrightarrow> n \<notin> A \<Longrightarrow> P \<inter> insert n (B \<union> A) = {} \<Longrightarrow> T \<subseteq> insert n B \<Longrightarrow>
   (insert n B - T) \<union> P = insert n (A \<union> B \<union> P) - (A \<union> T)"
  by blast

text \<open>One store of halves \<open>h\<close> with the watchdogs \<open>f\<close> of its entries; \<open>P\<close> are the halves of the other store.\<close>

lemma retain_dogs:
  fixes m :: "(int, 'v) js_map" and f :: "'v \<Rightarrow> nat" and h :: half and rv :: int and e :: 'v
  defines "g \<equiv> \<lambda>(r, v). (h, r, f v)"
  assumes ok: "dogs_ok (g ` set m \<union> P) ds" and wf: "wf_map m" and e: "f e = length ds" and other: "\<forall>x \<in> P. fst x \<noteq> h"
    and d: "dogHalf d = h" "dogRevision d = rv" "\<not> dogCancelled d"
  defines "m' \<equiv> js_set rv e m"
  shows "dogs_ok (g ` set (drop k m') \<union> P)
    (cancel_in ((case js_get m rv of None \<Rightarrow> [] | Some v \<Rightarrow> [f v]) @ map (f \<circ> snd) (take k m')) (ds @ [d]))"
proof -
  let ?n = "(h, rv, length ds)" and ?old = "{x \<in> set m. fst x = rv}" and ?rest = "{x \<in> set m. fst x \<noteq> rv}"
  let ?ws = "(case js_get m rv of None \<Rightarrow> [] | Some v \<Rightarrow> [f v]) @ map (f \<circ> snd) (take k m')"
  let ?R = "g ` ?old \<union> g ` set (take k m')"
  have wf': "wf_map m'" using wf by (simp add: m'_def)
  have m': "set m' = insert (rv, e) ?rest" unfolding m'_def by (rule set_js_set [OF wf])
  have inj: "inj_on g (set m')" using wf' by (auto simp: inj_on_def g_def dest: eq_key_imp_eq_value)
  have "distinct m'" using wf' by (simp add: distinct_map)
  then have "set (take k m') \<inter> set (drop k m') = {}" using set_take_disj_set_drop_if_distinct [of m' k k] by simp
  moreover have "set m' = set (take k m') \<union> set (drop k m')" by (metis append_take_drop_id set_append)
  ultimately have "set (drop k m') = set m' - set (take k m')" by blast
  then have drop: "g ` set (drop k m') = g ` set m' - g ` set (take k m')"
    using inj_on_image_set_diff [OF inj Diff_subset set_take_subset, of k] by simp
  have fresh: "?n \<notin> g ` set m"
    using ok dogs_ok_bound [of "g ` set m \<union> P" ds h rv "length ds"] by auto
  have gm': "g ` set m' = insert ?n (g ` ?rest)" using e by (auto simp: m' g_def)
  have tk: "g ` set (take k m') \<subseteq> insert ?n (g ` ?rest)" using image_mono [OF set_take_subset, of g k m'] gm' by simp
  have eq: "g ` set (drop k m') \<union> P = insert ?n (g ` set m \<union> P) - ?R"
  proof -
    have "g ` set m = g ` ?old \<union> g ` ?rest" by auto
    moreover have "g ` ?old \<inter> g ` ?rest = {}" by (auto simp: g_def)
    moreover have "?n \<notin> g ` ?old" using fresh by auto
    moreover have "\<forall>x \<in> insert ?n (g ` ?rest \<union> g ` ?old). fst x = h" by (auto simp: g_def)
    then have "P \<inter> insert ?n (g ` ?rest \<union> g ` ?old) = {}" using other by auto
    ultimately show ?thesis unfolding drop gm' using replaced_set [OF _ _ _ tk] by simp
  qed
  have "set (case js_get m rv of None \<Rightarrow> [] | Some v \<Rightarrow> [f v]) = (snd \<circ> snd) ` g ` ?old"
  proof (cases "js_get m rv")
    case None
    then have "?old = {}" by (auto simp: map_of_eq_None_iff image_iff)
    then show ?thesis using None by simp
  next
    case (Some v)
    then have "?old = {(rv, v)}" using wf by (auto dest: map_of_SomeD eq_key_imp_eq_value)
    then show ?thesis using Some by (simp add: g_def)
  qed
  moreover have "set (map (f \<circ> snd) (take k m')) = (snd \<circ> snd) ` g ` set (take k m')"
    by (force simp: g_def)
  ultimately have ws: "set ?ws = (snd \<circ> snd) ` ?R" by (simp add: image_Un)
  have "dogs_ok (insert ?n (g ` set m \<union> P)) (ds @ [d])" by (rule dogs_ok_add [OF ok d])
  moreover have "?R \<subseteq> insert ?n (g ` set m \<union> P)" using tk by blast
  ultimately show ?thesis unfolding eq using ws by (rule dogs_ok_remove)
qed

lemma retainSnapshot_watch:
  assumes "watch_inv s" and "wf_map (snapshots s)"
  shows "watch_inv (retainSnapshot rv \<lparr>pendSnapshot = x, pendChanged = c, pendDog = length (watchdogs s)\<rparr>
    (snd (watch rv Tree s)))"
  using assms unfolding watch_inv_def
  by (simp add: holds_def retainSnapshot_effect watch_def) (rule retain_dogs, auto)

lemma retainMarker_watch:
  assumes "watch_inv s" and "wf_map (markers s)"
  shows "watch_inv (retainMarker rv \<lparr>markScreen = x, markDog = length (watchdogs s)\<rparr> (snd (watch rv Marker s)))"
  using assms unfolding watch_inv_def
  by (simp add: holds_def retainMarker_effect watch_def Un_commute [of "_ ` set (snapshots s)"]) (rule retain_dogs, auto)

lemma retain_fields:
  "publications (retainSnapshot rv e s) = publications s" "published (retainSnapshot rv e s) = published s"
  "publications (retainMarker rv e' s) = publications s" "published (retainMarker rv e' s) = published s"
  "maxPending (retainSnapshot rv e s) = maxPending s" "maxPending (retainMarker rv e' s) = maxPending s"
  "markerEnabled (retainSnapshot rv e s) = markerEnabled s" "markerEnabled (retainMarker rv e' s) = markerEnabled s"
  "markers (retainSnapshot rv e s) = markers s" "snapshots (retainMarker rv e' s) = snapshots s"
  "revision (retainSnapshot rv e s) = revision s" "revision (retainMarker rv e' s) = revision s"
  by (simp_all add: retainSnapshot_effect retainMarker_effect revision_def)

lemma retained:
  "wf_map (snapshots s) \<Longrightarrow> set (snapshots (retainSnapshot rv e s)) \<subseteq> insert (rv, e) (set (snapshots s))"
  "wf_map (snapshots s) \<Longrightarrow> wf_map (snapshots (retainSnapshot rv e s))"
  "length (snapshots (retainSnapshot rv e s)) \<le> maxPending s"
  "wf_map (markers s) \<Longrightarrow> set (markers (retainMarker rv e' s)) \<subseteq> insert (rv, e') (set (markers s))"
  "wf_map (markers s) \<Longrightarrow> wf_map (markers (retainMarker rv e' s))"
  "length (markers (retainMarker rv e' s)) \<le> maxPending s"
  using set_js_set [of "snapshots s" rv e] set_js_set [of "markers s" rv e']
  by (auto simp: retainSnapshot_effect retainMarker_effect drop_map [symmetric] distinct_drop dest!: in_set_dropD)

lemma watch_fields:
  "fst (watch rv h s) = length (watchdogs s)" "snapshots (snd (watch rv h s)) = snapshots s"
  "markers (snd (watch rv h s)) = markers s" "maxPending (snd (watch rv h s)) = maxPending s"
  "publications (snd (watch rv h s)) = publications s" "published (snd (watch rv h s)) = published s"
  "markerEnabled (snd (watch rv h s)) = markerEnabled s" "revision (snd (watch rv h s)) = revision s"
  by (simp_all add: watch_def revision_def)

lemma retainSnapshot_store:
  assumes inv: "store_inv s" and rv: "snapRevision (pendSnapshot e) = rv" "revision s \<le> rv" "js_get (markers s) rv = None"
  shows "store_inv (retainSnapshot rv e (snd (watch rv Tree s)))"
proof -
  let ?s = "snd (watch rv Tree s)" and ?s' = "retainSnapshot rv e (snd (watch rv Tree s))"
  have wf: "wf_map (snapshots ?s)" using inv by (simp add: store_inv_def watch_fields)
  from retained(1) [OF this, of rv e] have sub: "set (snapshots ?s') \<subseteq> insert (rv, e) (set (snapshots s))"
    by (simp add: watch_fields)
  then have "set (js_keys (snapshots ?s')) \<subseteq> insert rv (set (js_keys (snapshots s)))" by auto
  moreover have "rv \<notin> set (js_keys (markers s))" using rv(3) by (simp add: map_of_eq_None_iff)
  ultimately have "set (js_keys (snapshots ?s')) \<inter> set (js_keys (markers s)) = {}"
    using inv unfolding store_inv_def by blast
  moreover have "\<forall>(r, p) \<in> set (snapshots ?s'). snapRevision (pendSnapshot p) = r \<and> revision s \<le> r"
    using sub inv rv unfolding store_inv_def by blast
  ultimately show ?thesis
    using inv retained(2) [OF wf, of rv e] retained(3) [of rv e ?s]
    by (simp add: store_inv_def retain_fields watch_fields)
qed

lemma retainMarker_store:
  assumes inv: "store_inv s" and rv: "revision s \<le> rv" "js_get (snapshots s) rv = None"
  shows "store_inv (retainMarker rv e (snd (watch rv Marker s)))"
proof -
  let ?s = "snd (watch rv Marker s)" and ?s' = "retainMarker rv e (snd (watch rv Marker s))"
  have wf: "wf_map (markers ?s)" using inv by (simp add: store_inv_def watch_fields)
  from retained(4) [OF this, of rv e] have sub: "set (markers ?s') \<subseteq> insert (rv, e) (set (markers s))"
    by (simp add: watch_fields)
  then have "set (js_keys (markers ?s')) \<subseteq> insert rv (set (js_keys (markers s)))" by auto
  moreover have "rv \<notin> set (js_keys (snapshots s))" using rv(2) by (simp add: map_of_eq_None_iff)
  ultimately have "set (js_keys (snapshots s)) \<inter> set (js_keys (markers ?s')) = {}"
    using inv unfolding store_inv_def by blast
  moreover have "\<forall>(r, m) \<in> set (markers ?s'). revision s \<le> r"
    using sub inv rv unfolding store_inv_def by blast
  ultimately show ?thesis
    using inv retained(5) [OF wf, of rv e] retained(6) [of rv e ?s]
    by (simp add: store_inv_def retain_fields watch_fields)
qed

section \<open>Every event\<close>

lemma pairing_inv_cong:
  assumes "snapshots s' = snapshots s" and "markers s' = markers s" and "published s' = published s"
    and "publications s' = publications s" and "maxPending s' = maxPending s" and "markerEnabled s' = markerEnabled s"
    and "map dogCancelled (watchdogs s') = map dogCancelled (watchdogs s)"
    and "map dogHalf (watchdogs s') = map dogHalf (watchdogs s)"
    and "map dogRevision (watchdogs s') = map dogRevision (watchdogs s)"
    and inv: "pairing_inv n h s"
  shows "pairing_inv n h s'"
proof -
  have "holds s' = holds s" by (simp add: holds_def assms)
  then have "watch_inv s'"
    using inv dogs_ok_cong [OF _ assms(7-9)] by (simp add: pairing_inv_def watch_inv_def)
  moreover have "store_inv s' = store_inv s" by (simp add: store_inv_def revision_def assms)
  moreover have "publish_inv s' = publish_inv s" by (simp add: publish_inv_def assms)
  moreover have "origin_inv h s' = origin_inv h s" by (simp add: origin_inv_def assms)
  moreover have "paired_inv h s' = paired_inv h s" by (simp add: paired_inv_def assms)
  ultimately show ?thesis using inv assms(5) by (simp add: pairing_inv_def)
qed

lemma map_update_same:
  "(\<And>d. f (g d) = f d) \<Longrightarrow> map f (ds[w := g (ds ! w)]) = map f ds"
  by (cases "w < length ds") (simp_all add: map_update list_update_same_conv list_update_beyond)

lemma framesIdle_inv:
  "pairing_inv n h s \<Longrightarrow> pairing_inv n h (framesIdle w s)" "pairing_inv n h s \<Longrightarrow> pairing_inv n h (arm w s)"
  by (rule pairing_inv_cong [of _ s]; simp add: framesIdle_def arm_def setPhase_def map_update_same)+

lemma releaseFrameWaiters_inv: "pairing_inv n h s \<Longrightarrow> pairing_inv n h (releaseFrameWaiters s)"
  by (rule pairing_inv_cong [of _ s]) (simp_all add: releaseFrameWaiters_def)

lemma diagnose_inv: "pairing_inv n h s \<Longrightarrow> pairing_inv n h (diagnose c r s)"
  by (rule pairing_inv_cong [of _ s]) (simp_all add: diagnose_def)

lemma elapse_inv: "pairing_inv n h s \<Longrightarrow> pairing_inv n h (elapse w s)"
  by (rule pairing_inv_cong [of _ s])
    (simp_all add: elapse_def diagnose_def Let_def map_update_same split: half.split)

lemma frame_inv:
  "pairing_inv n h s \<Longrightarrow> pairing_inv n h (frameOpened r s)"
  "pairing_inv n h s \<Longrightarrow> pairing_inv n h (frameClosed r s)"
  by (rule pairing_inv_cong [of _ s]; simp add: frameOpened_def frameClosed_def releaseFrameWaiters_def Let_def)+

text \<open>An event that is added to the history.\<close>

lemma negotiated_snoc: "h = [] \<longrightarrow> ev \<noteq> SetMarkerEnabled True \<Longrightarrow> negotiated (h @ [ev]) \<Longrightarrow> negotiated h"
  by (cases h) (auto simp: negotiated_def)

lemma history_inv:
  assumes "pairing_inv n h s" and "\<forall>b. ev \<noteq> SetMarkerEnabled b"
  shows "pairing_inv n (h @ [ev]) s"
  using assms negotiated_snoc [of h ev] by (auto simp: pairing_inv_def origin_inv_def paired_inv_def)

lemma setMarkerEnabled_inv:
  assumes inv: "pairing_inv n h s"
  shows "pairing_inv n (h @ [SetMarkerEnabled b]) (setMarkerEnabled b s)"
proof -
  have "store_inv (setMarkerEnabled b s) = store_inv s" "publish_inv (setMarkerEnabled b s) = publish_inv s"
    "watch_inv (setMarkerEnabled b s) = watch_inv s"
    by (simp_all add: store_inv_def publish_inv_def watch_inv_def holds_def revision_def setMarkerEnabled_def)
  moreover have "origin_inv (h @ [SetMarkerEnabled b]) (setMarkerEnabled b s)"
    using inv by (auto simp: pairing_inv_def origin_inv_def setMarkerEnabled_def)
  moreover have "paired_inv (h @ [SetMarkerEnabled b]) (setMarkerEnabled b s)"
    using inv by (cases h) (auto simp: pairing_inv_def paired_inv_def setMarkerEnabled_def negotiated_def)
  ultimately show ?thesis using inv by (simp add: pairing_inv_def setMarkerEnabled_def)
qed

lemma dispose_inv: "pairing_inv n h s \<Longrightarrow> pairing_inv n h (dispose s)"
proof (cases "disposed s")
  case True
  then show "pairing_inv n h s \<Longrightarrow> ?thesis" by (simp add: dispose_def)
next
  case False
  let ?ws = "map (pendDog \<circ> snd) (snapshots s) @ map (markDog \<circ> snd) (markers s)"
  let ?s = "s\<lparr>disposed := True, snapshots := [], markers := [], openFrames := [], watchdogs := cancel_in ?ws (watchdogs s)\<rparr>"
  assume inv: "pairing_inv n h s"
  have "set ?ws = (snd \<circ> snd) ` holds s" by (force simp: holds_def)
  then have "watch_inv ?s"
    using dogs_ok_remove [of "holds s" "watchdogs s" "holds s" ?ws] inv
    by (simp add: pairing_inv_def watch_inv_def holds_def)
  moreover have "store_inv ?s" by (simp add: store_inv_def)
  moreover have "publish_inv ?s = publish_inv s" by (simp add: publish_inv_def)
  moreover have "origin_inv h ?s" using inv by (simp add: pairing_inv_def origin_inv_def)
  moreover have "paired_inv h ?s = paired_inv h s" by (simp add: paired_inv_def)
  ultimately have "pairing_inv n h ?s" using inv by (simp add: pairing_inv_def)
  then show ?thesis using False by (simp add: dispose_effect releaseFrameWaiters_inv)
qed

lemma publish_inv_step:
  assumes "pairing_inv n h s" and "revision s < snapRevision (pairSnapshot p)"
    and "OfferSnapshot (pairSnapshot p) (pairChanged p) \<in> set h" and "h \<noteq> []"
    and "\<forall>screen. pairScreen p = Some screen \<longrightarrow> OfferMarker (snapRevision (pairSnapshot p)) screen \<in> set h"
    and "negotiated h \<longrightarrow> pairScreen p \<noteq> None"
  shows "pairing_inv n h (publish p s)"
proof -
  have st: "store_inv s" using assms(1) by (simp add: pairing_inv_def)
  have "origin_inv h (publish p s)" "paired_inv h (publish p s)"
    using assms unfolding pairing_inv_def origin_inv_def paired_inv_def publish_fields [OF st] by auto
  with publish_keeps [of s p] assms(1,2) show ?thesis
    by (simp add: pairing_inv_def publish_fields [OF st])
qed

lemma take_inv:
  "pairing_inv n h s \<Longrightarrow> js_get (markers s) rv = Some m \<Longrightarrow> pairing_inv n h (take_marker rv m s)"
  "pairing_inv n h s \<Longrightarrow> js_get (snapshots s) rv = Some p \<Longrightarrow> pairing_inv n h (take_snapshot rv p s)"
proof -
  assume inv: "pairing_inv n h s" and get: "js_get (markers s) rv = Some m"
  then have "watch_inv (take_marker rv m s)" by (intro take_marker_watch) (simp_all add: pairing_inv_def store_inv_def)
  moreover have "publish_inv (take_marker rv m s) = publish_inv s" by (simp add: publish_inv_def take_fields)
  moreover have "origin_inv h (take_marker rv m s)"
    using inv by (auto simp: pairing_inv_def origin_inv_def take_fields set_js_delete)
  moreover have "paired_inv h (take_marker rv m s) = paired_inv h s" by (simp add: paired_inv_def take_fields)
  ultimately show "pairing_inv n h (take_marker rv m s)"
    using inv take_store(1) [of s rv m] by (simp add: pairing_inv_def take_fields)
next
  assume inv: "pairing_inv n h s" and get: "js_get (snapshots s) rv = Some p"
  then have "watch_inv (take_snapshot rv p s)" by (intro take_snapshot_watch) (simp_all add: pairing_inv_def store_inv_def)
  moreover have "publish_inv (take_snapshot rv p s) = publish_inv s" by (simp add: publish_inv_def take_fields)
  moreover have "origin_inv h (take_snapshot rv p s)"
    using inv by (auto simp: pairing_inv_def origin_inv_def take_fields set_js_delete)
  moreover have "paired_inv h (take_snapshot rv p s) = paired_inv h s" by (simp add: paired_inv_def take_fields)
  ultimately show "pairing_inv n h (take_snapshot rv p s)"
    using inv take_store(2) [of s rv p] by (simp add: pairing_inv_def take_fields)
qed

lemma retain_inv:
  "pairing_inv n h s \<Longrightarrow> revision s \<le> snapRevision x \<Longrightarrow> js_get (markers s) (snapRevision x) = None \<Longrightarrow>
    OfferSnapshot x c \<in> set h \<Longrightarrow>
    pairing_inv n h (retainSnapshot (snapRevision x) \<lparr>pendSnapshot = x, pendChanged = c, pendDog = length (watchdogs s)\<rparr>
      (snd (watch (snapRevision x) Tree s)))"
  "pairing_inv n h s \<Longrightarrow> revision s \<le> rv \<Longrightarrow> js_get (snapshots s) rv = None \<Longrightarrow> OfferMarker rv screen \<in> set h \<Longrightarrow>
    pairing_inv n h (retainMarker rv \<lparr>markScreen = screen, markDog = length (watchdogs s)\<rparr> (snd (watch rv Marker s)))"
proof -
  assume inv: "pairing_inv n h s" and r: "revision s \<le> snapRevision x" "js_get (markers s) (snapRevision x) = None"
    and h: "OfferSnapshot x c \<in> set h"
  let ?s = "snd (watch (snapRevision x) Tree s)"
  let ?e = "\<lparr>pendSnapshot = x, pendChanged = c, pendDog = length (watchdogs s)\<rparr>"
  let ?s' = "retainSnapshot (snapRevision x) ?e ?s"
  have wf: "wf_map (snapshots s)" using inv by (simp add: pairing_inv_def store_inv_def)
  then have "set (snapshots ?s') \<subseteq> insert (snapRevision x, ?e) (set (snapshots s))"
    using retained(1) [of ?s "snapRevision x" ?e] by (simp add: watch_fields)
  then have "origin_inv h ?s'"
    using inv h by (fastforce simp: pairing_inv_def origin_inv_def retain_fields watch_fields)
  moreover have "publish_inv ?s' = publish_inv s" "paired_inv h ?s' = paired_inv h s"
    by (simp_all add: publish_inv_def paired_inv_def retain_fields watch_fields)
  ultimately show "pairing_inv n h ?s'"
    using inv wf retainSnapshot_watch [of s "snapRevision x" x c] retainSnapshot_store [of s ?e "snapRevision x"] r
    by (simp add: pairing_inv_def retain_fields watch_fields)
next
  assume inv: "pairing_inv n h s" and r: "revision s \<le> rv" "js_get (snapshots s) rv = None"
    and h: "OfferMarker rv screen \<in> set h"
  let ?s = "snd (watch rv Marker s)"
  let ?e = "\<lparr>markScreen = screen, markDog = length (watchdogs s)\<rparr>"
  let ?s' = "retainMarker rv ?e ?s"
  have wf: "wf_map (markers s)" using inv by (simp add: pairing_inv_def store_inv_def)
  then have "set (markers ?s') \<subseteq> insert (rv, ?e) (set (markers s))"
    using retained(4) [of ?s rv ?e] by (simp add: watch_fields)
  then have "origin_inv h ?s'"
    using inv h by (fastforce simp: pairing_inv_def origin_inv_def retain_fields watch_fields)
  moreover have "publish_inv ?s' = publish_inv s" "paired_inv h ?s' = paired_inv h s"
    by (simp_all add: publish_inv_def paired_inv_def retain_fields watch_fields)
  ultimately show "pairing_inv n h ?s'"
    using inv wf retainMarker_watch [of s rv screen] retainMarker_store [of s rv ?e] r
    by (simp add: pairing_inv_def retain_fields watch_fields)
qed

lemma offerSnapshot_inv:
  assumes inv0: "pairing_inv n h s"
  shows "pairing_inv n (h @ [OfferSnapshot x c]) (offerSnapshot x c s)"
proof -
  let ?h = "h @ [OfferSnapshot x c]"
  have inv: "pairing_inv n ?h s" using inv0 by (rule history_inv) simp
  then have neg: "negotiated ?h \<Longrightarrow> markerEnabled s" by (simp add: pairing_inv_def paired_inv_def)
  consider (out) "disposed s" | (old) "\<not> disposed s" "snapRevision x \<le> revision s"
    | (bare) "\<not> disposed s" "revision s < snapRevision x" "\<not> markerEnabled s"
    | (met) m where "\<not> disposed s" "revision s < snapRevision x" "markerEnabled s" "js_get (markers s) (snapRevision x) = Some m"
    | (alone) "\<not> disposed s" "revision s < snapRevision x" "markerEnabled s" "js_get (markers s) (snapRevision x) = None"
    by fastforce
  then show ?thesis
  proof cases
    case bare
    then show ?thesis
      using neg publish_inv_step [OF inv, of "\<lparr>pairSnapshot = x, pairChanged = c, pairScreen = None\<rparr>"]
      by (auto simp: offerSnapshot_def Let_def)
  next
    case (met m)
    from map_of_SomeD [OF met(4)] inv have "OfferMarker (snapRevision x) (markScreen m) \<in> set ?h"
      by (fastforce simp: pairing_inv_def origin_inv_def)
    then show ?thesis
      using met publish_inv_step [OF take_inv(1) [OF inv met(4)],
          of "\<lparr>pairSnapshot = x, pairChanged = c, pairScreen = Some (markScreen m)\<rparr>"]
      by (simp add: offerSnapshot_def Let_def take_fields)
  next
    case alone
    then show ?thesis
      using retain_inv(1) [OF inv, of x c] by (simp add: offerSnapshot_def Let_def split_def watch_fields(1))
  qed (use inv in \<open>simp_all add: offerSnapshot_def diagnose_inv\<close>)
qed

lemma offerMarker_inv:
  assumes inv0: "pairing_inv n h s"
  shows "pairing_inv n (h @ [OfferMarker rv screen]) (offerMarker rv screen s)"
proof -
  let ?h = "h @ [OfferMarker rv screen]"
  have inv: "pairing_inv n ?h s" using inv0 by (rule history_inv) simp
  consider (out) "disposed s \<or> \<not> markerEnabled s \<or> rv \<le> revision s"
    | (met) p where "\<not> disposed s" "revision s < rv" "markerEnabled s" "js_get (snapshots s) rv = Some p"
    | (alone) "\<not> disposed s" "revision s < rv" "markerEnabled s" "js_get (snapshots s) rv = None"
    by fastforce
  then show ?thesis
  proof cases
    case (met p)
    from map_of_SomeD [OF met(4)] inv
    have "OfferSnapshot (pendSnapshot p) (pendChanged p) \<in> set ?h" "snapRevision (pendSnapshot p) = rv"
      by (fastforce simp: pairing_inv_def origin_inv_def, fastforce simp: pairing_inv_def store_inv_def)
    then show ?thesis
      using met publish_inv_step [OF take_inv(2) [OF inv met(4)],
          of "\<lparr>pairSnapshot = pendSnapshot p, pairChanged = pendChanged p, pairScreen = Some screen\<rparr>"]
      by (simp add: offerMarker_def take_fields)
  next
    case alone
    then show ?thesis
      using retain_inv(2) [OF inv, of rv screen] by (simp add: offerMarker_def Let_def split_def watch_fields(1))
  qed (use inv in \<open>auto simp: offerMarker_def diagnose_inv\<close>)
qed

interpretation pairing: event_machine createPairing happens pairing_inv
proof
  show "pairing_inv n [] (createPairing n)" for n
    by (simp add: pairing_inv_def watch_inv_def dogs_ok_def holds_def store_inv_def publish_inv_def origin_inv_def
        paired_inv_def negotiated_def createPairing_def)
next
  fix n h and s :: "'n pairing" and ev
  assume inv: "pairing_inv n h s"
  show "pairing_inv n (h @ [ev]) (happens ev s)"
    using history_inv [OF inv, of ev] inv
    by (cases ev) (auto simp: setMarkerEnabled_inv offerSnapshot_inv offerMarker_inv frame_inv dispose_inv
        caughtUp_def barrierFailed_def resume_def framesIdle_inv elapse_inv)
qed

lemma run_inv: "pairing_inv n h (run n h)"
  unfolding run_def by (rule pairing.run_keeps)

section \<open>Theorems\<close>

text \<open>C4: Published revisions strictly increase and are positive, whatever the order in which trees, markers, frame
  reports and timers arrive, and the observable revision is the last one published.\<close>

theorem published_increasing:
  "sorted_wrt (<) (0 # map (snapRevision \<circ> pairSnapshot) (publications (run n h))) \<and>
   published (run n h) = (if publications (run n h) = [] then None else Some (last (publications (run n h))))"
  using run_inv [of n h] by (simp only: pairing_inv_def publish_inv_def)

text \<open>C5: When the adapter negotiated render markers and never withdrew them, a revision is published only after both
  halves arrived: its tree was offered, and a marker of exactly this revision was offered for the screen it is
  published with.\<close>

theorem published_both_halves:
  assumes "negotiated h" and "p \<in> set (publications (run n h))"
  shows "OfferSnapshot (pairSnapshot p) (pairChanged p) \<in> set h \<and>
    (\<exists>screen. pairScreen p = Some screen \<and> OfferMarker (snapRevision (pairSnapshot p)) screen \<in> set h)"
  using run_inv [of n h] assms by (auto simp: pairing_inv_def origin_inv_def paired_inv_def)

definition demo_history :: "nat event list" where
  "demo_history = [SetMarkerEnabled True, OfferMarker 1 7, OfferSnapshot \<lparr>snapRevision = 2, snapNodes = [5]\<rparr> None,
     CaughtUp 0, Elapse 0, OfferSnapshot \<lparr>snapRevision = 1, snapNodes = [4]\<rparr> None]"

lemma demo_publications: "publications (run 4 demo_history) =
    [\<lparr>pairSnapshot = \<lparr>snapRevision = 1, snapNodes = [4]\<rparr>, pairChanged = None, pairScreen = Some 7\<rparr>]"
  by code_simp

theorem published_both_halves_witness:
  "negotiated demo_history \<and> length (publications (run 4 demo_history)) = 1 \<and>
   OfferSnapshot \<lparr>snapRevision = 1, snapNodes = [4]\<rparr> None \<in> set demo_history \<and> OfferMarker 1 7 \<in> set demo_history"
proof -
  let ?p = "\<lparr>pairSnapshot = \<lparr>snapRevision = 1, snapNodes = [4 :: nat]\<rparr>, pairChanged = None, pairScreen = Some 7\<rparr>"
  have n: "negotiated demo_history" by (simp add: negotiated_def demo_history_def)
  have "?p \<in> set (publications (run 4 demo_history))" by (simp add: demo_publications)
  from published_both_halves [OF n this] n show ?thesis by (simp add: demo_publications)
qed

text \<open>What is retained is bounded and fresh: at most \<open>maxPending\<close> trees and as many markers wait, no revision waits
  with both halves, and no half below the published revision waits.\<close>

theorem retained_bounded:
  "length (snapshots (run n h)) \<le> n \<and> length (markers (run n h)) \<le> n \<and>
   set (js_keys (snapshots (run n h))) \<inter> set (js_keys (markers (run n h))) = {} \<and>
   (\<nexists>r. r \<in> set (js_keys (snapshots (run n h))) \<union> set (js_keys (markers (run n h))) \<and> r < revision (run n h))"
  using run_inv [of n h] by (force simp: pairing_inv_def store_inv_def)

text \<open>The watchdogs that can still report are exactly those of the halves that are still retained: a half that was
  paired, superseded, evicted, replaced or disposed of has a cancelled watchdog, and a retained half is watched by
  one of its own revision and kind.\<close>

theorem live_watchdogs:
  "{(dogHalf (watchdogs (run n h) ! w), dogRevision (watchdogs (run n h) ! w), w) | w.
      w < length (watchdogs (run n h)) \<and> \<not> dogCancelled (watchdogs (run n h) ! w)} =
   (\<lambda>(r, p). (Tree, r, pendDog p)) ` set (snapshots (run n h)) \<union> (\<lambda>(r, m). (Marker, r, markDog m)) ` set (markers (run n h))"
proof -
  have "dogs_ok (holds (run n h)) (watchdogs (run n h))" using run_inv [of n h] by (simp add: pairing_inv_def watch_inv_def)
  then have "{(dogHalf (watchdogs (run n h) ! w), dogRevision (watchdogs (run n h) ! w), w) | w.
      w < length (watchdogs (run n h)) \<and> \<not> dogCancelled (watchdogs (run n h) ! w)} = holds (run n h)"
    by (auto simp: dogs_ok_def)
  then show ?thesis by (simp add: holds_def)
qed

text \<open>A watchdog that elapsed does not expire its half: a marker that arrives later still completes the waiting tree
  and publishes it with the tree that was offered.\<close>

theorem late_marker_pairs:
  assumes "js_get (snapshots (run n h)) r = Some p" and "markerEnabled (run n h)" and "\<not> disposed (run n h)"
    and "revision (run n h) < r"
  shows "publications (offerMarker r screen (elapse w (run n h))) = publications (run n h) @
    [\<lparr>pairSnapshot = pendSnapshot p, pairChanged = pendChanged p, pairScreen = Some screen\<rparr>]"
proof -
  let ?s = "elapse w (run n h)"
  have same: "snapshots ?s = snapshots (run n h)" "markerEnabled ?s = markerEnabled (run n h)"
    "disposed ?s = disposed (run n h)" "revision ?s = revision (run n h)" "publications ?s = publications (run n h)"
    by (simp_all add: elapse_def diagnose_def Let_def revision_def split: half.split)
  have "pairing_inv n h ?s" by (rule elapse_inv [OF run_inv])
  then have "pairing_inv n h (take_snapshot r p ?s)" using assms(1) same(1) by (intro take_inv(2)) simp_all
  then have "store_inv (take_snapshot r p ?s)" by (simp add: pairing_inv_def)
  from publish_fields(4) [OF this] assms same show ?thesis by (simp add: offerMarker_def cancelDog_def)
qed

theorem late_marker_pairs_witness:
  "length (publications (offerMarker 2 9 (elapse 1 (run 4 demo_history)))) = 2"
proof -
  have get: "js_get (snapshots (run 4 demo_history)) 2 =
      Some \<lparr>pendSnapshot = \<lparr>snapRevision = 2, snapNodes = [5]\<rparr>, pendChanged = None, pendDog = 1\<rparr>" by code_simp
  have "markerEnabled (run 4 demo_history) \<and> \<not> disposed (run 4 demo_history) \<and> revision (run 4 demo_history) < 2"
    by code_simp
  with late_marker_pairs [OF get, of 9 1] show ?thesis by (simp add: demo_publications)
qed

end
