(* ===== verification/Text.thy ===== *)
theory Text
  imports Prelude
begin

text \<open>
  Strings as lists of characters and the standard-library functions on them that the sources use: \<open>startsWith\<close>,
  \<open>endsWith\<close>, \<open>slice\<close>, \<open>indexOf\<close> of a character, the decimal rendering of a non-negative integer and its inverse
  \<open>Number(text)\<close> on digit strings, and \<open>Buffer.toString('base64url')\<close>. The lemmas are the round trips that the
  component theories rest on.
\<close>

section \<open>Slices\<close>

definition startsWith :: "'a list \<Rightarrow> 'a list \<Rightarrow> bool" where
  "startsWith xs p \<longleftrightarrow> take (length p) xs = p"

definition endsWith :: "'a list \<Rightarrow> 'a list \<Rightarrow> bool" where
  "endsWith xs p \<longleftrightarrow> length p \<le> length xs \<and> drop (length xs - length p) xs = p"

definition sliceEnd :: "'a list \<Rightarrow> nat \<Rightarrow> 'a list" where
  "sliceEnd xs n = take (length xs - n) xs"

lemma startsWith_iff: "startsWith xs p \<longleftrightarrow> (\<exists>ys. xs = p @ ys)"
  unfolding startsWith_def by (metis append_eq_conv_conj append_take_drop_id)

lemma startsWith_append [simp]: "startsWith (p @ ys) p"
  by (simp add: startsWith_def)

lemma endsWith_iff: "endsWith xs p \<longleftrightarrow> (\<exists>ys. xs = ys @ p)"
proof
  assume "endsWith xs p"
  then show "\<exists>ys. xs = ys @ p" unfolding endsWith_def by (metis append_take_drop_id)
qed (auto simp: endsWith_def)

lemma sliceEnd_append [simp]: "sliceEnd (xs @ p) (length p) = xs"
  by (simp add: sliceEnd_def)

lemma takeWhile_split:
  "x \<in> set xs \<Longrightarrow> xs = takeWhile (\<lambda>y. y \<noteq> x) xs @ x # drop (Suc (length (takeWhile (\<lambda>y. y \<noteq> x) xs))) xs"
  by (induction xs) auto

section \<open>Decimal digits\<close>

definition digit_char :: "nat \<Rightarrow> char" where
  "digit_char d = char_of (48 + d)"

definition is_digit :: "char \<Rightarrow> bool" where
  "is_digit c \<longleftrightarrow> 48 \<le> (of_char c :: nat) \<and> (of_char c :: nat) \<le> 57"

definition digit_value :: "char \<Rightarrow> nat" where
  "digit_value c = of_char c - 48"

fun decimal :: "nat \<Rightarrow> string" where
  "decimal n = (if n < 10 then [digit_char n] else decimal (n div 10) @ [digit_char (n mod 10)])"

declare decimal.simps [simp del]

definition parse_decimal :: "string \<Rightarrow> nat" where
  "parse_decimal s = foldl (\<lambda>n c. n * 10 + digit_value c) 0 s"

lemma digit_char_simps [simp]:
  assumes "d < 10"
  shows "digit_value (digit_char d) = d" and "is_digit (digit_char d)"
  using assms by (simp_all add: digit_value_def digit_char_def is_digit_def)

lemma digit_char_value: "is_digit c \<Longrightarrow> digit_char (digit_value c) = c"
  by (simp add: digit_char_def digit_value_def is_digit_def)

lemma digit_value_lt: "is_digit c \<Longrightarrow> digit_value c < 10"
  unfolding digit_value_def is_digit_def by linarith

lemma digit_chars [simp]:
  "digit_char 0 = CHR ''0''" "digit_char 1 = CHR ''1''" "digit_char (Suc 0) = CHR ''1''" "digit_char 2 = CHR ''2''"
  "digit_char 3 = CHR ''3''" "digit_char 4 = CHR ''4''" "digit_char 5 = CHR ''5''" "digit_char 6 = CHR ''6''"
  "digit_char 7 = CHR ''7''" "digit_char 8 = CHR ''8''" "digit_char 9 = CHR ''9''"
  by code_simp+

lemma parse_decimal_simps [simp]:
  "parse_decimal [] = 0" "parse_decimal (s @ [c]) = parse_decimal s * 10 + digit_value c"
  by (simp_all add: parse_decimal_def)

lemma decimal_not_Nil [simp]: "decimal n \<noteq> []"
  by (subst decimal.simps) simp

lemma parse_decimal_decimal [simp]: "parse_decimal (decimal n) = n"
proof (induction n rule: decimal.induct)
  case (1 n)
  then show ?case
    using parse_decimal_simps(2) [of "[]"] by (subst decimal.simps) (simp add: parse_decimal_def)
qed

lemma decimal_digits: "list_all is_digit (decimal n)"
proof (induction n rule: decimal.induct)
  case (1 n)
  then show ?case by (subst decimal.simps) simp
qed

lemma takeWhile_digits:
  "list_all is_digit ds \<Longrightarrow> \<not> is_digit c \<Longrightarrow> takeWhile is_digit (ds @ c # xs) = ds \<and> dropWhile is_digit (ds @ c # xs) = c # xs"
  by (induction ds) auto

text \<open>A digit string without a leading zero is the rendering of its value.\<close>

lemma decimal_parse:
  "list_all is_digit s \<Longrightarrow> s \<noteq> [] \<Longrightarrow> hd s \<noteq> CHR ''0'' \<Longrightarrow> decimal (parse_decimal s) = s \<and> parse_decimal s > 0"
proof (induction s rule: rev_induct)
  case (snoc c s)
  have v: "digit_value c < 10" "digit_char (digit_value c) = c"
    using snoc.prems digit_value_lt digit_char_value by auto
  show ?case
  proof (cases "s = []")
    case True
    have "digit_value c \<noteq> 0"
    proof
      assume "digit_value c = 0"
      then have "c = digit_char 0" using v by simp
      then show False using snoc.prems True by simp
    qed
    with True v show ?thesis by (subst decimal.simps) (simp add: parse_decimal_def)
  next
    case False
    with snoc have "decimal (parse_decimal s) = s" "0 < parse_decimal s" by simp_all
    with v show ?thesis by (subst decimal.simps) simp
  qed
qed simp

lemma decimal_hd: "0 < n \<Longrightarrow> hd (decimal n) \<noteq> CHR ''0''"
proof (induction n rule: decimal.induct)
  case (1 n)
  show ?case
  proof (cases "n < 10")
    case True
    then have "decimal n = [digit_char n]" by (subst decimal.simps) simp
    moreover have "digit_char n \<noteq> CHR ''0''"
      using digit_char_simps(1) [OF True] "1.prems" by (auto simp: digit_value_def)
    ultimately show ?thesis by simp
  next
    case False
    then show ?thesis using 1 by (subst decimal.simps) simp
  qed
qed

lemma decimal_length: "n < 10 ^ Suc k \<Longrightarrow> length (decimal n) \<le> Suc k"
proof (induction k arbitrary: n)
  case 0
  then show ?case by (subst decimal.simps) simp
next
  case (Suc k)
  then have "n div 10 < 10 ^ Suc k" by (simp add: less_mult_imp_div_less)
  from Suc.IH [OF this] show ?case by (subst decimal.simps) simp
qed

section \<open>Base64url\<close>

definition base64url_char :: "nat \<Rightarrow> char" where
  "base64url_char n =
     (if n < 26 then char_of (65 + n) else if n < 52 then char_of (97 + (n - 26))
      else if n < 62 then char_of (48 + (n - 52)) else if n = 62 then CHR ''-'' else CHR ''_'')"

definition is_base64url :: "char \<Rightarrow> bool" where
  "is_base64url c \<longleftrightarrow> (let n = of_char c :: nat in (65 \<le> n \<and> n \<le> 90) \<or> (97 \<le> n \<and> n \<le> 122) \<or> is_digit c \<or>
     c = CHR ''-'' \<or> c = CHR ''_'')"

text \<open>Groups of three bytes become four characters; there is no padding.\<close>

fun base64url :: "nat list \<Rightarrow> string" where
  "base64url [] = []"
| "base64url [a] = [base64url_char (a div 4), base64url_char (a mod 4 * 16)]"
| "base64url [a, b] = [base64url_char (a div 4), base64url_char (a mod 4 * 16 + b div 16), base64url_char (b mod 16 * 4)]"
| "base64url (a # b # c # bs) =
     [base64url_char (a div 4), base64url_char (a mod 4 * 16 + b div 16),
      base64url_char (b mod 16 * 4 + c div 64), base64url_char (c mod 64)] @ base64url bs"

lemma base64url_char_ok: "is_base64url (base64url_char n)"
proof -
  have "n < 26 \<or> (26 \<le> n \<and> n < 52) \<or> (52 \<le> n \<and> n < 62) \<or> 62 \<le> n" by linarith
  then show ?thesis
    by (elim disjE) (auto simp: base64url_char_def is_base64url_def is_digit_def Let_def)
qed

lemma base64url_ok: "list_all is_base64url (base64url bs)"
  by (induction bs rule: base64url.induct) (simp_all add: base64url_char_ok)

lemma base64url_length: "length (base64url bs) = (length bs * 4 + 2) div 3"
  by (induction bs rule: base64url.induct) simp_all

end
