(* ===== verification/Marker.thy ===== *)
theory Marker
  imports Text Framing
begin

text \<open>
  The render-commit marker (\<open>src/packages/protocol/src/marker.ts\<close>): an OSC sequence that carries a revision and a
  message authentication code.

  \<open>hmac key message\<close> stands for \<open>createHmac('sha256', key).update(message, 'utf8').digest()\<close> as a list of byte values;
  the only fact used about it is that a digest has 32 bytes. Comparing the two codes byte by byte in constant time
  is comparing the texts, as both are ASCII. A digit string of at most 16 digits denotes a safe integer exactly when
  its exact value is one, so \<open>Number\<close> is the exact value here.
\<close>

type_synonym hmac = "string \<Rightarrow> string \<Rightarrow> nat list"


definition MARKER_OSC_PREFIX :: string where
  "MARKER_OSC_PREFIX = ''twm;''"

definition MARKER_MAC_BYTES :: nat where
  "MARKER_MAC_BYTES = 16"

definition MARKER_MAC_CHARS :: nat where
  "MARKER_MAC_CHARS = 22"

definition REVISION_TEXT :: "string \<Rightarrow> bool" where
  "REVISION_TEXT t \<longleftrightarrow> t \<noteq> [] \<and> is_digit (hd t) \<and> hd t \<noteq> CHR ''0'' \<and> list_all is_digit (tl t) \<and> length (tl t) \<le> 15"

definition MAC_TEXT :: "string \<Rightarrow> bool" where
  "MAC_TEXT t \<longleftrightarrow> length t = MARKER_MAC_CHARS \<and> list_all is_base64url t"

definition ESC :: char where
  "ESC = CHR 0x1B"

definition BEL :: string where
  "BEL = [CHR 0x07]"

definition ST :: string where
  "ST = [ESC, CHR 0x5C]"

record render_marker =
  markerRevision :: js_number
  markerMac :: string

definition computeMac :: "hmac \<Rightarrow> string \<Rightarrow> string \<Rightarrow> int \<Rightarrow> string" where
  "computeMac hmac token sessionId revision =
     base64url (take MARKER_MAC_BYTES (hmac token (sessionId @ '':'' @ decimal (nat revision))))"


definition verifyMarkerPayload :: "hmac \<Rightarrow> string \<Rightarrow> string \<Rightarrow> string \<Rightarrow> render_marker option" where
  "verifyMarkerPayload hmac payload token sessionId =
     (if length token = 0 \<or> length sessionId = 0 then None
      else let text = (if endsWith payload BEL then sliceEnd payload (length BEL)
                       else if endsWith payload ST then sliceEnd payload (length ST) else payload)
      in if \<not> startsWith text MARKER_OSC_PREFIX then None
      else let body = drop (length MARKER_OSC_PREFIX) text
      in if CHR '';'' \<notin> set body then None
      else let separator = length (takeWhile (\<lambda>c. c \<noteq> CHR '';'') body);
               revisionText = take separator body; mac = drop (Suc separator) body
      in if \<not> REVISION_TEXT revisionText then None
      else if \<not> MAC_TEXT mac then None
      else let revision = js_int (int (parse_decimal revisionText))
      in if \<not> isSafeInteger revision \<or> num_le revision (js_int 0) then None
      else if computeMac hmac token sessionId (int_of revision) \<noteq> mac then None
      else Some \<lparr>markerRevision = revision, markerMac = mac\<rparr>)"

section \<open>Canonical text\<close>

text \<open>The payload of a marker without a terminator.\<close>

definition marker_text :: "int \<Rightarrow> string \<Rightarrow> string" where
  "marker_text revision mac = MARKER_OSC_PREFIX @ decimal (nat revision) @ '';'' @ mac"

lemma REVISION_TEXT_decimal:
  assumes "0 < n" and "n < 10 ^ 16"
  shows "REVISION_TEXT (decimal n)"
proof -
  have "list_all is_digit (decimal n)" "length (decimal n) \<le> 16"
    using decimal_digits [of n] decimal_length [of n 15] assms by simp_all
  then show ?thesis using decimal_hd [OF assms(1)] by (cases "decimal n") (auto simp: REVISION_TEXT_def)
qed

lemma REVISION_TEXT_canonical:
  "REVISION_TEXT t \<Longrightarrow> decimal (parse_decimal t) = t \<and> 0 < parse_decimal t"
  using decimal_parse [of t] by (cases t) (auto simp: REVISION_TEXT_def)

lemma no_semicolon: "REVISION_TEXT t \<Longrightarrow> CHR '';'' \<notin> set t"
proof
  assume t: "REVISION_TEXT t" and "CHR '';'' \<in> set t"
  then have "is_digit (CHR '';'')" by (cases t) (auto simp: REVISION_TEXT_def list_all_iff)
  then show False by (simp add: is_digit_def)
qed

lemma takeWhile_semicolon:
  assumes "REVISION_TEXT t"
  shows "takeWhile (\<lambda>c. c \<noteq> CHR '';'') (t @ CHR '';'' # m) = t"
  using no_semicolon [OF assms] by (induction t) auto

lemma mac_no_terminator: "MAC_TEXT m \<Longrightarrow> \<not> endsWith (p @ m) BEL \<and> \<not> endsWith (p @ m) ST"
proof -
  assume m: "MAC_TEXT m"
  then obtain m' c where mc: "m = m' @ [c]" "is_base64url c"
    by (cases m rule: rev_cases) (auto simp: MAC_TEXT_def MARKER_MAC_CHARS_def)
  moreover have "\<not> is_base64url (CHR 0x07)" "\<not> is_base64url (CHR 0x5C)"
    by (simp_all add: is_base64url_def is_digit_def)
  ultimately have "c \<noteq> CHR 0x07" "c \<noteq> CHR 0x5C" by auto
  with mc(1) show ?thesis by (auto simp: endsWith_iff BEL_def ST_def)
qed

lemma computeMac_MAC_TEXT:
  assumes "length (hmac token (sid @ '':'' @ decimal (nat r))) = 32"
  shows "MAC_TEXT (computeMac hmac token sid r)"
  using base64url_ok [of "take MARKER_MAC_BYTES (hmac token (sid @ '':'' @ decimal (nat r)))"]
    base64url_length [of "take MARKER_MAC_BYTES (hmac token (sid @ '':'' @ decimal (nat r)))"] assms
  by (simp add: MAC_TEXT_def computeMac_def MARKER_MAC_BYTES_def MARKER_MAC_CHARS_def)

text \<open>The terminator that a receiver strips.\<close>

lemma strip_terminator:
  "(if endsWith p BEL then sliceEnd p (length BEL) else if endsWith p ST then sliceEnd p (length ST) else p) = t \<Longrightarrow>
   p = t \<or> p = t @ BEL \<or> p = t @ ST"
  by (auto simp: endsWith_iff split: if_splits)

lemma strip_terminator_back:
  assumes "MAC_TEXT m" and "p \<in> {x @ m, x @ m @ BEL, x @ m @ ST}"
  shows "(if endsWith p BEL then sliceEnd p (length BEL) else if endsWith p ST then sliceEnd p (length ST) else p) = x @ m"
proof -
  have "\<not> endsWith (x @ m @ ST) BEL" "endsWith (x @ m @ BEL) BEL" "endsWith (x @ m @ ST) ST"
    by (auto simp: endsWith_iff BEL_def ST_def)
  moreover have "sliceEnd (x @ m @ t) (length t) = x @ m" for t
    using sliceEnd_append [of "x @ m" t] by simp
  ultimately show ?thesis using assms mac_no_terminator [OF assms(1), of x] by auto
qed

section \<open>Theorems\<close>

lemma verify_text:
  assumes "token \<noteq> []" and "sid \<noteq> []" and "0 < r" and "r \<le> MAX_SAFE_INTEGER"
    and mac: "MAC_TEXT (computeMac hmac token sid r)"
    and q: "q \<in> {marker_text r (computeMac hmac token sid r) @ t | t. t \<in> {[], BEL, ST}}"
  shows "verifyMarkerPayload hmac q token sid = Some \<lparr>markerRevision = js_int r, markerMac = computeMac hmac token sid r\<rparr>"
proof -
  let ?m = "computeMac hmac token sid r" and ?d = "decimal (nat r)"
  have rt: "REVISION_TEXT ?d" using assms(3,4) by (intro REVISION_TEXT_decimal) (simp_all add: MAX_SAFE_INTEGER_def)
  have "(if endsWith q BEL then sliceEnd q (length BEL) else if endsWith q ST then sliceEnd q (length ST) else q)
      = marker_text r ?m"
    using strip_terminator_back [OF mac, of q "MARKER_OSC_PREFIX @ ?d @ '';''"] q by (auto simp: marker_text_def)
  then show ?thesis
    using assms(1-4) mac takeWhile_semicolon [OF rt, of ?m] rt
    by (simp add: verifyMarkerPayload_def marker_text_def)
qed



text \<open>Markers are canonical and authenticated. A payload is accepted only if its code is the one computed for the
  accepted revision under this token and session, the revision is a positive safe integer, and the payload is
  exactly the canonical text of revision and code with at most one terminator: no second spelling of a revision
  authenticates.\<close>

theorem marker_canonical:
  assumes "verifyMarkerPayload hmac payload token sid = Some m"
  shows "\<exists>r. markerRevision m = js_int r \<and> 0 < r \<and> r \<le> MAX_SAFE_INTEGER \<and> token \<noteq> [] \<and> sid \<noteq> [] \<and>
    markerMac m = computeMac hmac token sid r \<and>
    payload \<in> {marker_text r (markerMac m), marker_text r (markerMac m) @ BEL, marker_text r (markerMac m) @ ST}"
proof -
  define t where "t = (if endsWith payload BEL then sliceEnd payload (length BEL)
    else if endsWith payload ST then sliceEnd payload (length ST) else payload)"
  define body where "body = drop (length MARKER_OSC_PREFIX) t"
  define k where "k = length (takeWhile (\<lambda>c. c \<noteq> CHR '';'') body)"
  let ?rt = "take k body" and ?mac = "drop (Suc k) body"
  let ?r = "int (parse_decimal ?rt)"
  from assms have ok: "token \<noteq> []" "sid \<noteq> []" "startsWith t MARKER_OSC_PREFIX" "CHR '';'' \<in> set body"
    "REVISION_TEXT ?rt" "isSafeInteger (js_int ?r)" "computeMac hmac token sid ?r = ?mac"
    "m = \<lparr>markerRevision = js_int ?r, markerMac = ?mac\<rparr>"
    unfolding verifyMarkerPayload_def Let_def t_def [symmetric] body_def [symmetric] k_def [symmetric] guard_Some
    by (simp_all only: length_0_conv de_Morgan_disj not_not not_False_eq_True int_of.simps floor_of_int option.inject)
  have rt: "?rt = takeWhile (\<lambda>c. c \<noteq> CHR '';'') body" unfolding k_def by (rule takeWhile_eq_take [symmetric])
  have "body = ?rt @ '';'' @ ?mac" using takeWhile_split [OF ok(4)] rt by (simp add: k_def)
  moreover have "t = MARKER_OSC_PREFIX @ body" using ok(3) by (auto simp: startsWith_iff body_def)
  moreover from REVISION_TEXT_canonical [OF ok(5)] have "decimal (nat ?r) = ?rt" "0 < ?r" by simp_all
  ultimately have "t = marker_text ?r ?mac" by (simp add: marker_text_def)
  with strip_terminator [OF t_def [symmetric]] ok \<open>0 < ?r\<close> show ?thesis by (intro exI [of _ ?r]) simp
qed

theorem marker_canonical_witness:
  "\<exists>m. verifyMarkerPayload (\<lambda>_ _. replicate 32 0) (marker_text 42 (computeMac (\<lambda>_ _. replicate 32 0) ''key'' ''s1'' 42))
       ''key'' ''s1'' = Some m \<and> markerRevision m = js_int 42 \<and> markerMac m = computeMac (\<lambda>_ _. replicate 32 0) ''key'' ''s1'' 42"
proof -
  let ?hmac = "\<lambda>(_ :: string) (_ :: string). replicate 32 (0 :: nat)"
  have "verifyMarkerPayload ?hmac (marker_text 42 (computeMac ?hmac ''key'' ''s1'' 42)) ''key'' ''s1'' =
      Some \<lparr>markerRevision = js_int 42, markerMac = computeMac ?hmac ''key'' ''s1'' 42\<rparr>"
    by (rule verify_text) (auto simp: MAX_SAFE_INTEGER_def intro!: computeMac_MAC_TEXT)
  with marker_canonical [OF this] show ?thesis by auto
qed

end
