(* ===== verification/Objects.thy ===== *)
theory Objects
  imports Prelude
begin

text \<open>
  ECMAScript values as the boundary code of the protocol inspects them.

  \<^item> A string is its list of UTF-16 code units; \<open>u\<close> embeds an ASCII literal. \<open>utf8_length\<close> is the number of bytes that
    \<open>TextEncoder\<close> produces (an unpaired surrogate is replaced by U+FFFD), \<open>lone_surrogate\<close> is the test for unpaired
    surrogates.
  \<^item> An object lives in a heap and is named by a reference, so that aliases and cycles can be told from copies.
    \<open>js_object\<close> holds what reflection reveals: whether it is an array (and its length), a proxy, its prototype, the
    number of its symbol keys and its own string-keyed properties in order, the \<open>length\<close> of an array left out.
    An accessor carries the value its getter would return.
  \<^item> \<open>json\<close> is a fresh, deeply frozen plain value.
\<close>

section \<open>Strings\<close>

type_synonym code_unit = "16 word"
type_synonym js_string = "code_unit list"

definition u :: "string \<Rightarrow> js_string" where
  "u s = map (\<lambda>c. word_of_nat (of_char c)) s"

lemma u_inj [simp]: "u s = u t \<longleftrightarrow> s = t"
proof -
  have "inj (\<lambda>c. word_of_nat (of_char c) :: code_unit)"
  proof (rule injI)
    fix c d :: char
    assume "(word_of_nat (of_char c) :: code_unit) = word_of_nat (of_char d)"
    then have "unat (word_of_nat (of_char c) :: code_unit) = unat (word_of_nat (of_char d) :: code_unit)" by simp
    moreover have "unat (word_of_nat (of_char x) :: code_unit) = of_char x" for x :: char
      using nat_of_char_less_256 [of x] by (simp add: unat_of_nat del: nat_of_char_less_256)
    ultimately show "c = d" by simp
  qed
  then show ?thesis by (simp add: u_def inj_map_eq_map)
qed

definition high_surrogate :: "code_unit \<Rightarrow> bool" where
  "high_surrogate c \<longleftrightarrow> 0xD800 \<le> c \<and> c \<le> 0xDBFF"

definition low_surrogate :: "code_unit \<Rightarrow> bool" where
  "low_surrogate c \<longleftrightarrow> 0xDC00 \<le> c \<and> c \<le> 0xDFFF"

fun utf8_length :: "js_string \<Rightarrow> nat" where
  "utf8_length [] = 0"
| "utf8_length [c] = (if c < 0x80 then 1 else if c < 0x800 then 2 else 3)"
| "utf8_length (c # d # s) =
     (if c < 0x80 then 1 + utf8_length (d # s)
      else if c < 0x800 then 2 + utf8_length (d # s)
      else if high_surrogate c \<and> low_surrogate d then 4 + utf8_length s
      else 3 + utf8_length (d # s))"

text \<open>The pattern \<open>LONE_SURROGATE\<close>: a high surrogate that no low one follows, or a low one that no high one precedes.\<close>

fun lone_surrogate_after :: "bool \<Rightarrow> js_string \<Rightarrow> bool" where
  "lone_surrogate_after pending [] = pending"
| "lone_surrogate_after pending (c # s) =
     (if low_surrogate c then \<not> pending \<or> lone_surrogate_after False s
      else pending \<or> lone_surrogate_after (high_surrogate c) s)"

definition lone_surrogate :: "js_string \<Rightarrow> bool" where
  "lone_surrogate s = lone_surrogate_after False s"

section \<open>Values\<close>

type_synonym ref = nat

datatype js_value =
    Undefined | Null | Boolean bool | Number js_number | Str js_string
  | BigInt int | Symbol nat | Function nat | Ref ref

datatype property =
    Data js_value bool
  | Accessor js_value bool

primrec enumerable :: "property \<Rightarrow> bool" where
  "enumerable (Data _ e) = e"
| "enumerable (Accessor _ e) = e"

datatype prototype = ObjectPrototype | ArrayPrototype | NullPrototype | OtherPrototype

record js_object =
  arrayLength :: "nat option"
  isProxy :: bool
  objPrototype :: prototype
  symbolKeys :: nat
  ownProperties :: "(js_string, property) js_map"

type_synonym heap = "js_object list"

text \<open>\<open>Object.keys\<close> and the property name of an array index.\<close>

definition objectKeys :: "js_object \<Rightarrow> js_string list" where
  "objectKeys ob = js_keys (filter (\<lambda>(_, p). enumerable p) (ownProperties ob))"

fun nat_name :: "nat \<Rightarrow> js_string" where
  "nat_name n = (if n < 10 then [word_of_nat (48 + n)] else nat_name (n div 10) @ [word_of_nat (48 + n mod 10)])"

declare nat_name.simps [simp del]

datatype json =
    JNull | JBool bool | JNumber rat | JString js_string
  | JArray "json list" | JObject "(js_string \<times> json) list"

section \<open>Lemmas\<close>

lemma nat_name_not_Nil [simp]: "nat_name n \<noteq> []"
  by (subst nat_name.simps) simp

definition name_value :: "js_string \<Rightarrow> nat" where
  "name_value s = foldl (\<lambda>n c. n * 10 + (unat c - 48)) 0 s"

lemma name_value_nat_name: "name_value (nat_name n) = n"
proof (induction n rule: nat_name.induct)
  case (1 n)
  have digit: "unat (word_of_nat (48 + d) :: code_unit) = 48 + d" if "d < 10" for d
    using that unfolding unat_of_nat by simp
  show ?case
  proof (cases "n < 10")
    case True
    then show ?thesis by (subst nat_name.simps) (simp add: name_value_def digit del: of_nat_add)
  next
    case False
    with 1 have "name_value (nat_name (n div 10)) = n div 10" by simp
    moreover have "nat_name n = nat_name (n div 10) @ [word_of_nat (48 + n mod 10)]"
      using False by (subst nat_name.simps) simp
    ultimately show ?thesis using digit [of "n mod 10"] by (simp add: name_value_def del: of_nat_add)
  qed
qed

lemma nat_name_inj: "nat_name m = nat_name n \<longleftrightarrow> m = n"
  by (metis name_value_nat_name)

end
