(* ===== verification/Dto.thy ===== *)
theory Dto
  imports Objects Framing
begin

text \<open>
  Projection of untrusted values into immutable plain data (\<open>projectDto\<close> and its helpers in
  \<open>src/packages/protocol/src/framing.ts\<close>).

  The state of a projection is the heap, the set \<open>ownedProjectedDtos\<close> of the objects this module made, and the
  set \<open>seen\<close> of the objects visited by this call. A projected object is a new reference; a value that was
  projected before is returned as it is. \<open>n\<close> counts the levels that may still be entered, \<open>maxDepth + 1 - depth\<close>, and
  \<open>projectNode\<close> recurses on it; the diagnostic path is left out.
\<close>

record dto_state =
  dtoHeap :: heap
  ownedProjectedDtos :: "ref set"
  seenRefs :: "ref set"

definition RESERVED_KEYS :: "js_string set" where
  "RESERVED_KEYS = {u ''__proto__'', u ''constructor'', u ''prototype''}"

definition projectScalar :: "js_value \<Rightarrow> (violation, js_value) res" where
  "projectScalar v =
     (case v of
        Null \<Rightarrow> Inr Null
      | Boolean b \<Rightarrow> Inr (Boolean b)
      | Number n \<Rightarrow> if \<not> isFinite n then Inl DtoScalar else Inr (Number n)
      | Str s \<Rightarrow> if lone_surrogate s then Inl DtoString else Inr (Str s)
      | _ \<Rightarrow> Inl DtoScalar)"

text \<open>A projection of one value, as the loops below call it.\<close>

type_synonym project = "js_value \<Rightarrow> dto_state \<Rightarrow> (violation, js_value \<times> dto_state) res"

text \<open>The loop over the indices \<open>i ..< length\<close> of an array.\<close>

function projectElements ::
  "project \<Rightarrow> js_object \<Rightarrow> nat \<Rightarrow> nat \<Rightarrow> dto_state \<Rightarrow> (violation, js_value list \<times> dto_state) res" where
  "projectElements f ob i len st =
     (if len \<le> i then Inr ([], st)
      else case js_get (ownProperties ob) (nat_name i) of
             None \<Rightarrow> Inl DtoSparse
           | Some (Accessor _ _) \<Rightarrow> Inl DtoAccessor
           | Some (Data v _) \<Rightarrow>
               res_bind (f v st) (\<lambda>(w, st).
               res_map (\<lambda>(ws, st). (w # ws, st)) (projectElements f ob (Suc i) len st)))"
  by pat_completeness auto
termination
  by (relation "measure (\<lambda>(_, _, i, len, _). len - i)") auto

declare projectElements.simps [simp del]

definition projectArray :: "project \<Rightarrow> js_object \<Rightarrow> nat \<Rightarrow> dto_state \<Rightarrow> (violation, js_object \<times> dto_state) res" where
  "projectArray f ob len st =
     (if objPrototype ob \<noteq> ArrayPrototype then Inl DtoPrototype
      else res_bind (projectElements f ob 0 len st) (\<lambda>(ws, st).
        if length (ownProperties ob) + 1 \<noteq> len + 1 then Inl DtoSparse
        else Inr (\<lparr>arrayLength = Some len, isProxy = False, objPrototype = ArrayPrototype, symbolKeys = 0,
                  ownProperties = map (\<lambda>(i, w). (nat_name i, Data w True)) (enumerate 0 ws)\<rparr>, st)))"

primrec projectProperties ::
  "project \<Rightarrow> (js_string, property) js_map \<Rightarrow> dto_state \<Rightarrow> (violation, (js_string, property) js_map \<times> dto_state) res" where
  "projectProperties f [] st = Inr ([], st)"
| "projectProperties f (kp # kps) st =
     (if fst kp \<in> RESERVED_KEYS then Inl DtoKey
      else case snd kp of
             Accessor _ _ \<Rightarrow> Inl DtoAccessor
           | Data v e \<Rightarrow>
               if \<not> e then Inl DtoKey
               else if lone_surrogate (fst kp) then Inl DtoString
               else res_bind (f v st) (\<lambda>(w, st).
                    res_map (\<lambda>(ps, st). ((fst kp, Data w True) # ps, st)) (projectProperties f kps st)))"

definition projectObject :: "project \<Rightarrow> js_object \<Rightarrow> dto_state \<Rightarrow> (violation, js_object \<times> dto_state) res" where
  "projectObject f ob st =
     (if objPrototype ob \<noteq> ObjectPrototype \<and> objPrototype ob \<noteq> NullPrototype then Inl DtoPrototype
      else res_map (\<lambda>(ps, st). (\<lparr>arrayLength = None, isProxy = False, objPrototype = ObjectPrototype,
             symbolKeys = 0, ownProperties = ps\<rparr>, st))
           (projectProperties f (ownProperties ob) st))"

text \<open>\<open>Object.freeze(result)\<close> and the registration of the new object.\<close>

definition own :: "js_object \<Rightarrow> dto_state \<Rightarrow> js_value \<times> dto_state" where
  "own ob st = (let r = length (dtoHeap st) in
     (Ref r, st\<lparr>dtoHeap := dtoHeap st @ [ob], ownedProjectedDtos := insert r (ownedProjectedDtos st)\<rparr>))"

primrec projectNode :: "nat \<Rightarrow> js_value \<Rightarrow> dto_state \<Rightarrow> (violation, js_value \<times> dto_state) res" where
  "projectNode 0 v st =
     (case v of
        Ref r \<Rightarrow> if r \<in> ownedProjectedDtos st then Inr (v, st) else Inl DtoDepth
      | _ \<Rightarrow> res_map (\<lambda>w. (w, st)) (projectScalar v))"
| "projectNode (Suc n) v st =
     (case v of
        Ref r \<Rightarrow>
          if r \<in> ownedProjectedDtos st then Inr (v, st)
          else let ob = dtoHeap st ! r
          in if isProxy ob then Inl DtoPrototype
          else if r \<in> seenRefs st then Inl DtoAlias
          else let st = st\<lparr>seenRefs := insert r (seenRefs st)\<rparr>
          in if symbolKeys ob > 0 then Inl DtoSymbol
          else res_map (\<lambda>(result, st). own result st)
                 (case arrayLength ob of
                    Some len \<Rightarrow> projectArray (projectNode n) ob len st
                  | None \<Rightarrow> projectObject (projectNode n) ob st)
      | _ \<Rightarrow> res_map (\<lambda>w. (w, st)) (projectScalar v))"

definition projectDto ::
  "heap \<Rightarrow> ref set \<Rightarrow> js_value \<Rightarrow> js_number \<Rightarrow> (violation, js_value \<times> heap \<times> ref set) res" where
  "projectDto h owned v maxDepth =
     (if \<not> isSafeInteger maxDepth \<or> int_of maxDepth < 0 then Inl DtoDepth
      else if (case v of Ref r \<Rightarrow> r \<in> owned | _ \<Rightarrow> False) then Inr (v, h, owned)
      else res_map (\<lambda>(w, st). (w, dtoHeap st, ownedProjectedDtos st))
             (projectNode (Suc (nat (int_of maxDepth))) v
                \<lparr>dtoHeap = h, ownedProjectedDtos = owned, seenRefs = {}\<rparr>))"

text \<open>\<open>decodeBody\<close>: \<open>utf8\<close> and \<open>parse\<close> stand for the fatal \<open>TextDecoder\<close> and \<open>JSON.parse\<close>; the latter allocates. The byte
  length of a framed object is remembered by its reference.\<close>

definition FRAME_PROJECTION_DEPTH :: js_number where
  "FRAME_PROJECTION_DEPTH = js_int (int (maxDepthL DEFAULT_LIMITS))"

definition decodeBody ::
  "(byte list \<Rightarrow> js_string option) \<Rightarrow> (js_string \<Rightarrow> heap \<Rightarrow> (js_value \<times> heap) option) \<Rightarrow>
   byte list \<Rightarrow> heap \<Rightarrow> ref set \<Rightarrow> (ref, nat) js_map \<Rightarrow>
   (violation, js_value \<times> heap \<times> ref set \<times> (ref, nat) js_map) res" where
  "decodeBody utf8 parse body h owned framed =
     (case utf8 body of
        None \<Rightarrow> Inl FrameEncoding
      | Some text \<Rightarrow>
          (case parse text h of
             None \<Rightarrow> Inl FrameMalformed
           | Some (parsed, h) \<Rightarrow>
               res_map (\<lambda>(projected, h, owned). (projected, h, owned,
                   case projected of Ref r \<Rightarrow> js_set r (length body) framed | _ \<Rightarrow> framed))
                 (projectDto h owned parsed FRAME_PROJECTION_DEPTH)))"

definition framedByteLength :: "(ref, nat) js_map \<Rightarrow> js_value \<Rightarrow> nat option" where
  "framedByteLength framed v = (case v of Ref r \<Rightarrow> js_get framed r | _ \<Rightarrow> None)"

section \<open>What a projected value is\<close>













section \<open>The projection keeps the state plain\<close>


definition extends :: "dto_state \<Rightarrow> dto_state \<Rightarrow> bool" where
  "extends st st' \<longleftrightarrow> (\<exists>ext. dtoHeap st' = dtoHeap st @ ext) \<and> ownedProjectedDtos st \<subseteq> ownedProjectedDtos st'"




lemma extends_refl [simp]: "extends st st"
  by (simp add: extends_def)


















section \<open>Theorems\<close>


text \<open>The object \<open>{"k": {"k": true}}\<close>, as \<open>JSON.parse\<close> makes it.\<close>

definition demo_object :: "js_value \<Rightarrow> js_object" where
  "demo_object v = \<lparr>arrayLength = None, isProxy = False, objPrototype = ObjectPrototype, symbolKeys = 0,
     ownProperties = [(u ''k'', Data v True)]\<rparr>"

definition demo_heap :: heap where
  "demo_heap = [demo_object (Boolean True), demo_object (Ref 0)]"



text \<open>An object that was projected before is returned as it is, before the depth and alias checks: a value that nests
  it is accepted below its own depth limit, and one that refers to it twice is accepted although it is no tree.\<close>

theorem owned_skips_checks:
  "projectDto (demo_heap @ [demo_object (Ref 1)]) {0, 1} (Ref 2) (js_int 0) \<noteq> Inl DtoDepth \<and>
   projectDto (demo_heap @ [demo_object (Ref 1)]) {} (Ref 2) (js_int 0) = Inl DtoDepth \<and>
   (let twice = (demo_object (Ref 0))\<lparr>ownProperties := [(u ''a'', Data (Ref 0) True), (u ''b'', Data (Ref 0) True)]\<rparr> in
    projectDto (demo_heap @ [twice]) {0} (Ref 2) (js_int 4) \<noteq> Inl DtoAlias \<and>
    projectDto (demo_heap @ [twice]) {} (Ref 2) (js_int 4) = Inl DtoAlias)"
  by code_simp

end
