(* ===== verification/RunIds.thy ===== *)
theory RunIds
  imports Objects
begin

unbundle bit_operations_syntax

text \<open>
  Identifiers of a run and the two id sets of \<open>src/packages/protocol/src/run-events.ts\<close>.

  \<^item> \<open>parseRunId\<close>, \<open>createRunId\<close> and \<open>factory_create\<close> (\<open>RunIdFactory.create\<close>): kind-separated ids in canonical UUID-v4
    form. A pattern is the list of its character classes.
  \<^item> \<open>id_filter\<close> (\<open>FixedEventIdFilter\<close>): a Bloom filter over 32-bit words with the two FNV-style hashes of \<open>hashText\<close>;
    word arithmetic wraps as \<open>Math.imul\<close> and \<open>>>> 0\<close> do.
  \<^item> \<open>recent_ids\<close> (\<open>RecentEventIds\<close>): a ring buffer with a set beside it. It refines the list of the last \<open>capacity\<close>
    ids that were added.

  Random UUIDs are drawn from the function \<open>uuid\<close>, indexed by the number of draws.
\<close>

section \<open>Kinds and patterns\<close>

datatype run_id_kind =
    KInvocation | KRun | KProject | KShard | KSpec | KRunnerTask | KExecution
  | KAttempt | KSession | KStep | KAction | KProducer | KEvent

definition RUN_ID_KINDS :: "run_id_kind list" where
  "RUN_ID_KINDS = [KInvocation, KRun, KProject, KShard, KSpec, KRunnerTask, KExecution,
     KAttempt, KSession, KStep, KAction, KProducer, KEvent]"

fun kind_name :: "run_id_kind \<Rightarrow> js_string" where
  "kind_name KInvocation = u ''invocation''"
| "kind_name KRun = u ''run''"
| "kind_name KProject = u ''project''"
| "kind_name KShard = u ''shard''"
| "kind_name KSpec = u ''spec''"
| "kind_name KRunnerTask = u ''runner-task''"
| "kind_name KExecution = u ''execution''"
| "kind_name KAttempt = u ''attempt''"
| "kind_name KSession = u ''session''"
| "kind_name KStep = u ''step''"
| "kind_name KAction = u ''action''"
| "kind_name KProducer = u ''producer''"
| "kind_name KEvent = u ''event''"

type_synonym char_class = "code_unit \<Rightarrow> bool"

definition hex :: char_class where
  "hex c \<longleftrightarrow> (48 \<le> c \<and> c \<le> 57) \<or> (97 \<le> c \<and> c \<le> 102)"

definition UUID :: "char_class list" where
  "UUID = replicate 8 hex @ [\<lambda>c. c = 45] @ replicate 4 hex @ [\<lambda>c. c = 45, \<lambda>c. c = 52] @ replicate 3 hex @
     [\<lambda>c. c = 45, \<lambda>c. c = 56 \<or> c = 57 \<or> c = 97 \<or> c = 98] @ replicate 3 hex @ [\<lambda>c. c = 45] @ replicate 12 hex"

definition matches :: "char_class list \<Rightarrow> js_string \<Rightarrow> bool" where
  "matches ps s = list_all2 (\<lambda>p c. p c) ps s"

definition ID_PATTERNS :: "run_id_kind \<Rightarrow> js_string \<Rightarrow> bool" where
  "ID_PATTERNS kind s = matches (map (=) (kind_name kind @ u '':'') @ UUID) s"

definition parseRunId :: "run_id_kind \<Rightarrow> js_value \<Rightarrow> js_string option" where
  "parseRunId kind v = (case v of Str s \<Rightarrow> if ID_PATTERNS kind s then Some s else None | _ \<Rightarrow> None)"

text \<open>\<open>String.prototype.toLowerCase\<close> on the characters a UUID source returns.\<close>

definition toLowerCase :: "js_string \<Rightarrow> js_string" where
  "toLowerCase s = map (\<lambda>c. if 65 \<le> c \<and> c \<le> 90 then c + 32 else c) s"

definition createRunId :: "run_id_kind \<Rightarrow> js_string \<Rightarrow> js_string option" where
  "createRunId kind uuid = parseRunId kind (Str (kind_name kind @ u '':'' @ toLowerCase uuid))"

record id_factory =
  issued :: "js_string set"
  factoryDraws :: nat

primrec factory_try :: "nat \<Rightarrow> (nat \<Rightarrow> js_string) \<Rightarrow> run_id_kind \<Rightarrow> id_factory \<Rightarrow> js_string option \<times> id_factory" where
  "factory_try 0 uuid kind f = (None, f)"
| "factory_try (Suc n) uuid kind f =
     (let f1 = f\<lparr>factoryDraws := Suc (factoryDraws f)\<rparr>
      in case createRunId kind (uuid (factoryDraws f)) of
           None \<Rightarrow> (None, f1)
         | Some value \<Rightarrow>
             if value \<notin> issued f then (Some value, f1\<lparr>issued := insert value (issued f)\<rparr>)
             else factory_try n uuid kind f1)"

definition factory_create :: "(nat \<Rightarrow> js_string) \<Rightarrow> run_id_kind \<Rightarrow> id_factory \<Rightarrow> js_string option \<times> id_factory" where
  "factory_create uuid kind f = factory_try 8 uuid kind f"

section \<open>The event id filter\<close>

definition hashText :: "js_string \<Rightarrow> 32 word \<Rightarrow> 32 word" where
  "hashText value seed = foldl (\<lambda>hash c. (hash XOR ucast c) * 0x01000193) seed value"

record id_filter =
  filterWords :: "32 word list"
  filterBits :: nat
  filterHashes :: nat

definition createFilter :: "nat \<Rightarrow> nat \<Rightarrow> id_filter" where
  "createFilter bits hashes = \<lparr>filterWords = replicate (bits div 32) 0, filterBits = bits, filterHashes = hashes\<rparr>"

definition indexes :: "id_filter \<Rightarrow> js_string \<Rightarrow> nat list" where
  "indexes f value =
     (let first = hashText value 0x811c9dc5; step = hashText value 0x9e3779b9 OR 1
      in map (\<lambda>i. unat (first + of_nat i * step) mod filterBits f) [0..<filterHashes f])"

definition maybeHas :: "id_filter \<Rightarrow> js_string \<Rightarrow> bool" where
  "maybeHas f value \<longleftrightarrow>
     list_all (\<lambda>i. filterWords f ! (i div 32) AND push_bit (i mod 32) 1 \<noteq> 0) (indexes f value)"

definition set_filter_bit :: "nat \<Rightarrow> 32 word list \<Rightarrow> 32 word list" where
  "set_filter_bit i ws = ws[i div 32 := ws ! (i div 32) OR push_bit (i mod 32) 1]"

definition filter_add :: "js_string \<Rightarrow> id_filter \<Rightarrow> id_filter" where
  "filter_add value f = f\<lparr>filterWords := fold set_filter_bit (indexes f value) (filterWords f)\<rparr>"

section \<open>Recent ids\<close>

record recent_ids =
  recentValues :: "js_string set"
  ring :: "js_string list"
  ringStart :: nat
  ringSize :: nat

definition createRecent :: "nat \<Rightarrow> recent_ids" where
  "createRecent capacity = \<lparr>recentValues = {}, ring = replicate capacity [], ringStart = 0, ringSize = 0\<rparr>"

definition recent_has :: "recent_ids \<Rightarrow> js_string \<Rightarrow> bool" where
  "recent_has q value \<longleftrightarrow> value \<in> recentValues q"

definition recent_add :: "js_string \<Rightarrow> recent_ids \<Rightarrow> recent_ids" where
  "recent_add value q =
     (let cap = length (ring q); index = (ringStart q + ringSize q) mod cap;
          q1 = (if ringSize q = cap
                then q\<lparr>recentValues := recentValues q - {ring q ! index}, ringStart := (ringStart q + 1) mod cap\<rparr>
                else q\<lparr>ringSize := ringSize q + 1\<rparr>)
      in q1\<lparr>ring := (ring q1)[index := value], recentValues := insert value (recentValues q1)\<rparr>)"

section \<open>Filter lemmas\<close>

definition filter_ok :: "id_filter \<Rightarrow> bool" where
  "filter_ok f \<longleftrightarrow> 0 < filterBits f \<and> filterBits f = 32 * length (filterWords f)"

definition bit_set :: "32 word list \<Rightarrow> nat \<Rightarrow> bool" where
  "bit_set ws i \<longleftrightarrow> ws ! (i div 32) AND push_bit (i mod 32) 1 \<noteq> 0"

lemma bit_set_iff: "bit_set ws i \<longleftrightarrow> bit (ws ! (i div 32)) (i mod 32)"
  by (simp add: bit_set_def push_bit_of_1 and_exp_eq_0_iff_not_bit)

lemma bit_set_mono: "bit_set ws i \<Longrightarrow> bit_set (set_filter_bit j ws) i"
  by (cases "j div 32 < length ws"; cases "i div 32 = j div 32") (auto simp: bit_set_iff set_filter_bit_def bit_or_iff list_update_beyond)

lemma bit_set_same: "i div 32 < length ws \<Longrightarrow> bit_set (set_filter_bit i ws) i"
  by (auto simp: bit_set_iff set_filter_bit_def bit_or_iff bit_simps)

lemma length_set_filter_bit [simp]: "length (set_filter_bit i ws) = length ws"
  by (simp add: set_filter_bit_def)

lemma length_fold_set_filter_bit [simp]: "length (fold set_filter_bit is ws) = length ws"
  by (induction "is" arbitrary: ws) simp_all

lemma fold_bit_set_mono: "bit_set ws i \<Longrightarrow> bit_set (fold set_filter_bit js ws) i"
  by (induction js arbitrary: ws) (simp_all add: bit_set_mono)

lemma fold_bit_set: "i \<in> set js \<Longrightarrow> i div 32 < length ws \<Longrightarrow> bit_set (fold set_filter_bit js ws) i"
  by (induction js arbitrary: ws) (auto simp: fold_bit_set_mono bit_set_same)

lemma indexes_add [simp]: "indexes (filter_add v f) = indexes f"
  by (simp add: indexes_def filter_add_def fun_eq_iff)

lemma filter_ok_add [simp, invs]: "filter_ok f \<Longrightarrow> filter_ok (filter_add v f)"
  by (auto simp: filter_ok_def filter_add_def)

lemma filter_ok_create: "0 < bits \<Longrightarrow> bits mod 32 = 0 \<Longrightarrow> filter_ok (createFilter bits hashes)"
  by (auto simp: filter_ok_def createFilter_def)

lemma maybeHas_bits: "maybeHas f v \<longleftrightarrow> (\<forall>i \<in> set (indexes f v). bit_set (filterWords f) i)"
  by (auto simp: maybeHas_def bit_set_def list_all_iff)

lemma maybeHas_mono: "maybeHas f v \<Longrightarrow> maybeHas (filter_add w f) v"
  by (simp add: maybeHas_bits) (simp add: filter_add_def fold_bit_set_mono)

lemma maybeHas_add: "filter_ok f \<Longrightarrow> maybeHas (filter_add v f) v"
proof -
  assume ok: "filter_ok f"
  have "i div 32 < length (filterWords f)" if "i \<in> set (indexes f v)" for i
  proof -
    from that ok have "i < 32 * length (filterWords f)" by (auto simp: indexes_def Let_def filter_ok_def)
    then show ?thesis by (simp add: less_mult_imp_div_less mult.commute)
  qed
  then show ?thesis by (simp add: maybeHas_bits) (simp add: filter_add_def fold_bit_set)
qed

section \<open>Ring lemmas\<close>

text \<open>The ring holds the last ids that were added, oldest first: \<open>recent_list\<close> is what it denotes.\<close>

definition recent_list :: "recent_ids \<Rightarrow> js_string list" where
  "recent_list q = map (\<lambda>i. ring q ! ((ringStart q + i) mod length (ring q))) [0..<ringSize q]"

definition recent_ok :: "recent_ids \<Rightarrow> bool" where
  "recent_ok q \<longleftrightarrow> 0 < length (ring q) \<and> ringStart q < length (ring q) \<and> ringSize q \<le> length (ring q) \<and>
     recentValues q = set (recent_list q) \<and> distinct (recent_list q)"

text \<open>The last \<open>n\<close> elements of a list.\<close>

definition last_n :: "nat \<Rightarrow> 'a list \<Rightarrow> 'a list" where
  "last_n n xs = drop (length xs - n) xs"

lemma recent_ok_create: "0 < n \<Longrightarrow> recent_ok (createRecent n)" "recent_list (createRecent n) = []"
  by (simp_all add: recent_ok_def createRecent_def recent_list_def)

lemma mod_ring_inj:
  fixes s i j n :: nat
  assumes "i < n" and "j < n" and eq: "(s + i) mod n = (s + j) mod n"
  shows "i = j"
proof -
  have "a = b" if "a \<le> b" "b < n" "(s + a) mod n = (s + b) mod n" for a b
  proof -
    have "n dvd (s + b) - (s + a)" using that mod_eq_dvd_iff_nat [of "s + a" "s + b" n] by simp
    then have "n dvd b - a" by simp
    with that show ?thesis by (metis diff_is_0_eq dvd_imp_le le_antisym less_imp_diff_less not_le zero_less_iff_neq_zero)
  qed
  with assms show ?thesis by (metis nat_le_linear)
qed

lemma recent_add_room:
  assumes ok: "recent_ok q" and room: "ringSize q < length (ring q)" and new: "v \<notin> set (recent_list q)"
  shows "recent_list (recent_add v q) = recent_list q @ [v]" and "recent_ok (recent_add v q)"
    and "length (ring (recent_add v q)) = length (ring q)"
proof -
  let ?n = "length (ring q)" and ?s = "ringStart q" and ?k = "ringSize q"
  let ?i = "(?s + ?k) mod ?n"
  have pos: "0 < ?n" using ok by (simp add: recent_ok_def)
  have q': "recent_add v q = q\<lparr>ringSize := Suc ?k, ring := (ring q)[?i := v], recentValues := insert v (recentValues q)\<rparr>"
    using room by (simp add: recent_add_def Let_def)
  have other: "?i \<noteq> (?s + j) mod ?n" if "j < ?k" for j
    using mod_ring_inj [of j ?n ?k ?s] that room by auto
  have old: "map (\<lambda>j. (ring q)[?i := v] ! ((?s + j) mod ?n)) [0..<?k] = recent_list q"
    unfolding recent_list_def using other by (intro map_cong) (simp_all add: nth_list_update_neq)
  show list: "recent_list (recent_add v q) = recent_list q @ [v]"
    unfolding q' recent_list_def [of "q\<lparr>ringSize := Suc ?k, ring := (ring q)[?i := v], recentValues := insert v (recentValues q)\<rparr>"]
    using old pos by simp
  show "recent_ok (recent_add v q)"
    using ok new room unfolding recent_ok_def list by (auto simp: q')
  show "length (ring (recent_add v q)) = ?n" by (simp add: q')
qed

lemma recent_add_full:
  assumes ok: "recent_ok q" and full: "ringSize q = length (ring q)" and new: "v \<notin> set (recent_list q)"
  shows "recent_list (recent_add v q) = tl (recent_list q) @ [v]" and "recent_ok (recent_add v q)"
    and "length (ring (recent_add v q)) = length (ring q)"
proof -
  let ?n = "length (ring q)" and ?s = "ringStart q"
  have pos: "0 < ?n" and s: "?s < ?n" using ok by (simp_all add: recent_ok_def)
  have i: "(?s + ringSize q) mod ?n = ?s" using s full by simp
  have q': "recent_add v q = q\<lparr>recentValues := insert v (recentValues q - {ring q ! ?s}), ringStart := (?s + 1) mod ?n,
      ring := (ring q)[?s := v]\<rparr>"
    using full i by (simp add: recent_add_def Let_def)
  obtain m where m: "?n = Suc m" using pos by (cases ?n) auto
  have hd: "recent_list q = ring q ! ?s # tl (recent_list q)"
    using s full m by (simp add: recent_list_def upt_conv_Cons del: upt_Suc)
  have tl: "tl (recent_list q) = map (\<lambda>j. ring q ! ((?s + Suc j) mod ?n)) [0..<m]"
    using full m by (simp add: recent_list_def upt_conv_Cons map_Suc_upt [symmetric] comp_def del: upt_Suc map_Suc_upt)
  have other: "?s \<noteq> (?s + Suc j) mod ?n" if "j < m" for j
    using mod_ring_inj [of "Suc j" ?n 0 ?s] that s m by auto
  have list': "recent_list (recent_add v q) = map (\<lambda>j. (ring q)[?s := v] ! ((?s + Suc j) mod ?n)) [0..<Suc m]"
    unfolding q' recent_list_def using full m by (auto simp: mod_simps)
  have "map (\<lambda>j. (ring q)[?s := v] ! ((?s + Suc j) mod ?n)) [0..<m] = tl (recent_list q)"
    unfolding tl using other by (intro map_cong) (simp_all add: nth_list_update_neq)
  moreover have "(?s + Suc m) mod ?n = ?s" using s by (simp only: m [symmetric] mod_add_self2 mod_less)
  then have "(ring q)[?s := v] ! ((?s + Suc m) mod ?n) = v" using s by simp
  ultimately show list: "recent_list (recent_add v q) = tl (recent_list q) @ [v]" unfolding list' by simp
  have "distinct (ring q ! ?s # tl (recent_list q))" "recentValues q = set (ring q ! ?s # tl (recent_list q))"
    using ok hd by (simp_all add: recent_ok_def)
  moreover have "v \<notin> set (tl (recent_list q))" using new hd by (metis list.set_intros(2))
  ultimately show "recent_ok (recent_add v q)"
    using pos unfolding recent_ok_def list by (auto simp: q' full)
  show "length (ring (recent_add v q)) = ?n" by (simp add: q')
qed

lemma length_recent_list [simp]: "length (recent_list q) = ringSize q"
  by (simp add: recent_list_def)

text \<open>Adding a new id refines appending it to the list of the last \<open>capacity\<close> ids.\<close>

lemma recent_add_last_n:
  assumes "recent_ok q" and "v \<notin> set (recent_list q)"
  shows "recent_list (recent_add v q) = last_n (length (ring q)) (recent_list q @ [v])"
    and "recent_ok (recent_add v q)" and "length (ring (recent_add v q)) = length (ring q)"
proof -
  have "ringSize q < length (ring q) \<or> ringSize q = length (ring q)" using assms(1) by (auto simp: recent_ok_def)
  then have "recent_list (recent_add v q) = last_n (length (ring q)) (recent_list q @ [v]) \<and>
      recent_ok (recent_add v q) \<and> length (ring (recent_add v q)) = length (ring q)"
  proof
    assume room: "ringSize q < length (ring q)"
    then show ?thesis using recent_add_room [OF assms(1) room assms(2)] by (simp add: last_n_def)
  next
    assume full: "ringSize q = length (ring q)"
    with length_recent_list [of q] have len: "length (recent_list q) = length (ring q)" by simp
    have "recent_list q \<noteq> []" using len assms(1) by (auto simp: recent_ok_def simp del: length_recent_list)
    then show ?thesis
      using recent_add_full [OF assms(1) full assms(2)] len
      by (cases "recent_list q") (auto simp: last_n_def simp del: length_recent_list)
  qed
  then show "recent_list (recent_add v q) = last_n (length (ring q)) (recent_list q @ [v])"
    "recent_ok (recent_add v q)" "length (ring (recent_add v q)) = length (ring q)" by simp_all
qed

lemma last_n_snoc: "0 < n \<Longrightarrow> last_n n (last_n n xs @ [x]) = last_n n (xs @ [x])"
  by (cases "n \<le> length xs") (auto simp: last_n_def Suc_diff_le)

lemma set_last_n: "set (last_n n xs) \<subseteq> set xs"
  by (auto simp: last_n_def dest: in_set_dropD)

end
