(* ===== verification/RunEvents.thy ===== *)
theory RunEvents
  imports RunIds
begin

text \<open>
  The event envelope of a run (\<open>src/packages/protocol/src/run-events.ts\<close>): projection of an untrusted value into
  JSON, validation of the envelope, the producer that issues events and the validator of merged streams.

  \<^item> \<open>visit\<close> is the local function of \<open>projectJson\<close>; its first argument counts the levels that may still be entered
    (\<open>maxPayloadDepth + 1 - depth\<close>), its state is the entry counter and the set of visited objects.
  \<^item> \<open>validateRunEvent\<close> returns the violation code or the event. The cast at its end becomes \<open>toRunEvent\<close>, which reads the
    fields that were checked. \<open>jsonBytes\<close> stands for the UTF-8 length of \<open>JSON.stringify\<close>.
  \<^item> \<open>acceptEvent\<close> is \<open>RunEventStreamValidator.accept\<close> after its call of \<open>validateRunEvent\<close>; \<open>accept\<close> is the whole method.
  \<^item> \<open>emit\<close> is \<open>RunEventProducer.emit\<close>; the clock, the wall clock and the UUID source are functions of the number of
    calls. Prose in failures is left out.
\<close>

section \<open>Data\<close>

datatype event_class = Authoritative | StateClass | Diagnostic

definition class_of_name :: "js_string \<Rightarrow> event_class option" where
  "class_of_name s =
     (if s = u ''authoritative'' then Some Authoritative
      else if s = u ''state'' then Some StateClass
      else if s = u ''diagnostic'' then Some Diagnostic else None)"

fun class_name :: "event_class \<Rightarrow> js_string" where
  "class_name Authoritative = u ''authoritative''"
| "class_name StateClass = u ''state''"
| "class_name Diagnostic = u ''diagnostic''"

definition RUN_EVENT_VERSION :: rat where
  "RUN_EVENT_VERSION = 3"

datatype event_violation =
    InvalidEnvelope | InvalidId | InvalidIdentity | InvalidPayload | EventOversized | EventCollision
  | EpochRegression | SequenceRegression | MonotonicTimeRegression | CausalCycle
  | CausalReferenceUnavailable | StreamCapacity

record run_event_limits =
  maxEventBytes :: js_number
  maxPayloadDepth :: js_number
  maxPayloadEntries :: js_number
  maxStringBytesE :: js_number
  maxCauses :: js_number

definition DEFAULT_RUN_EVENT_LIMITS :: run_event_limits where
  "DEFAULT_RUN_EVENT_LIMITS = \<lparr>maxEventBytes = js_int (256 * 1024), maxPayloadDepth = js_int 32,
     maxPayloadEntries = js_int 10000, maxStringBytesE = js_int (16 * 1024), maxCauses = js_int 64\<rparr>"

record run_event =
  eventId :: js_string
  producerId :: js_string
  epoch :: int
  seq :: int
  eventClass :: event_class
  eventType :: js_string
  monotonicTime :: rat
  wallTime :: "rat option"
  identity :: "(js_string \<times> json) list"
  causedBy :: "js_string list option"
  payload :: "json option"

section \<open>Projection\<close>

definition validateLimits :: "run_event_limits \<Rightarrow> event_violation option" where
  "validateLimits l =
     (if list_all (\<lambda>v. isSafeInteger v \<and> \<not> num_le v (js_int 0))
           [maxEventBytes l, maxPayloadDepth l, maxPayloadEntries l, maxStringBytesE l, maxCauses l]
      then None else Some InvalidEnvelope)"

record visit_state =
  entries :: nat
  visited :: "ref set"

type_synonym visitor = "js_value \<Rightarrow> visit_state \<Rightarrow> (event_violation, json \<times> visit_state) res"

definition reserved_key :: "js_string \<Rightarrow> bool" where
  "reserved_key k \<longleftrightarrow> k = u ''__proto__'' \<or> k = u ''constructor'' \<or> k = u ''prototype''"

text \<open>The value at an index of an array; a hole reads as undefined, an accessor is invoked.\<close>

definition element_at :: "js_object \<Rightarrow> nat \<Rightarrow> js_value" where
  "element_at ob i =
     (case js_get (ownProperties ob) (nat_name i) of
        None \<Rightarrow> Undefined | Some (Data v _) \<Rightarrow> v | Some (Accessor v _) \<Rightarrow> v)"

primrec visit_items :: "nat \<Rightarrow> visitor \<Rightarrow> js_value list \<Rightarrow> visit_state \<Rightarrow> (event_violation, json list \<times> visit_state) res" where
  "visit_items maxEntries f [] st = Inr ([], st)"
| "visit_items maxEntries f (v # vs) st =
     (let st1 = st\<lparr>entries := entries st + 1\<rparr>
      in if entries st1 > maxEntries then Inl InvalidPayload
      else res_bind (f v st1) (\<lambda>(j, st).
           res_map (\<lambda>(js, st). (j # js, st)) (visit_items maxEntries f vs st)))"

primrec visit_keys ::
  "nat \<Rightarrow> nat \<Rightarrow> visitor \<Rightarrow> (js_string, property) js_map \<Rightarrow> visit_state \<Rightarrow>
   (event_violation, (js_string \<times> json) list \<times> visit_state) res" where
  "visit_keys maxEntries maxString f [] st = Inr ([], st)"
| "visit_keys maxEntries maxString f (kp # kps) st =
     (if reserved_key (fst kp) then Inl InvalidPayload
      else if utf8_length (fst kp) > maxString then Inl InvalidPayload
      else case snd kp of
             Accessor _ _ \<Rightarrow> Inl InvalidPayload
           | Data v _ \<Rightarrow>
               (let st1 = st\<lparr>entries := entries st + 1\<rparr>
                in if entries st1 > maxEntries then Inl InvalidPayload
                else res_bind (f v st1) (\<lambda>(j, st).
                     res_map (\<lambda>(js, st). ((fst kp, j) # js, st)) (visit_keys maxEntries maxString f kps st))))"

text \<open>Everything but objects.\<close>

definition visit_scalar :: "nat \<Rightarrow> js_value \<Rightarrow> (event_violation, json) res" where
  "visit_scalar maxString v =
     (case v of
        Null \<Rightarrow> Inr JNull
      | Boolean b \<Rightarrow> Inr (JBool b)
      | Str s \<Rightarrow> if utf8_length s > maxString then Inl InvalidPayload else Inr (JString s)
      | Number (Num q) \<Rightarrow> Inr (JNumber q)
      | _ \<Rightarrow> Inl InvalidPayload)"

primrec visit :: "heap \<Rightarrow> nat \<Rightarrow> nat \<Rightarrow> nat \<Rightarrow> js_value \<Rightarrow> visit_state \<Rightarrow> (event_violation, json \<times> visit_state) res" where
  "visit h maxEntries maxString 0 v st =
     (case v of Ref _ \<Rightarrow> Inl InvalidPayload | _ \<Rightarrow> res_map (\<lambda>j. (j, st)) (visit_scalar maxString v))"
| "visit h maxEntries maxString (Suc n) v st =
     (case v of
        Ref r \<Rightarrow>
          if r \<in> visited st then Inl InvalidPayload
          else let st = st\<lparr>visited := insert r (visited st)\<rparr>; ob = h ! r
          in if symbolKeys ob > 0 then Inl InvalidPayload
          else (case arrayLength ob of
                  Some len \<Rightarrow>
                    if length (objectKeys ob) \<noteq> len then Inl InvalidPayload
                    else res_map (\<lambda>(js, st). (JArray js, st))
                           (visit_items maxEntries (visit h maxEntries maxString n) (map (element_at ob) [0..<len]) st)
                | None \<Rightarrow>
                    if objPrototype ob \<noteq> ObjectPrototype \<and> objPrototype ob \<noteq> NullPrototype then Inl InvalidPayload
                    else res_map (\<lambda>(js, st). (JObject js, st))
                           (visit_keys maxEntries maxString (visit h maxEntries maxString n)
                              (filter (\<lambda>(_, p). enumerable p) (ownProperties ob)) st))
      | _ \<Rightarrow> res_map (\<lambda>j. (j, st)) (visit_scalar maxString v))"

abbreviation limit :: "js_number \<Rightarrow> nat" where
  "limit n \<equiv> nat (int_of n)"

definition projectJson :: "heap \<Rightarrow> js_value \<Rightarrow> run_event_limits \<Rightarrow> (event_violation, json) res" where
  "projectJson h v l =
     res_map fst (visit h (limit (maxPayloadEntries l)) (limit (maxStringBytesE l)) (Suc (limit (maxPayloadDepth l))) v
       \<lparr>entries = 0, visited = {}\<rparr>)"

section \<open>Validation\<close>

definition field :: "(js_string \<times> json) list \<Rightarrow> string \<Rightarrow> json option" where
  "field m k = map_of m (u k)"

definition id_ok :: "run_id_kind \<Rightarrow> json option \<Rightarrow> bool" where
  "id_ok kind v = (case v of Some (JString s) \<Rightarrow> ID_PATTERNS kind s | _ \<Rightarrow> False)"

definition nonNegativeInteger :: "json option \<Rightarrow> bool" where
  "nonNegativeInteger v = (case v of Some (JNumber q) \<Rightarrow> isSafeInteger (Num q) \<and> 0 \<le> q | _ \<Rightarrow> False)"

definition time_ok :: "json option \<Rightarrow> bool" where
  "time_ok v = (case v of Some (JNumber q) \<Rightarrow> 0 \<le> q | _ \<Rightarrow> False)"

text \<open>The pattern \<open>/^[a-z][a-z0-9]*(?:[./:-][a-z0-9]+)*$/\<close>.\<close>

definition lower :: char_class where
  "lower c \<longleftrightarrow> 97 \<le> c \<and> c \<le> 122"

definition lower_digit :: char_class where
  "lower_digit c \<longleftrightarrow> lower c \<or> (48 \<le> c \<and> c \<le> 57)"

definition separator :: char_class where
  "separator c \<longleftrightarrow> c = 46 \<or> c = 47 \<or> c = 58 \<or> c = 45"

primrec type_rest :: "bool \<Rightarrow> js_string \<Rightarrow> bool" where
  "type_rest need [] = (\<not> need)"
| "type_rest need (c # s) =
     (if lower_digit c then type_rest False s else separator c \<and> \<not> need \<and> type_rest True s)"

definition type_ok :: "json option \<Rightarrow> bool" where
  "type_ok v =
     (case v of
        Some (JString s) \<Rightarrow> (case s of [] \<Rightarrow> False | c # cs \<Rightarrow> lower c \<and> type_rest False cs) \<and> utf8_length s \<le> 128
      | _ \<Rightarrow> False)"

definition identity_fields :: "(string \<times> run_id_kind) list" where
  "identity_fields = [(''invocationId'', KInvocation), (''runId'', KRun), (''projectId'', KProject),
     (''shardId'', KShard), (''specId'', KSpec), (''runnerTaskId'', KRunnerTask), (''executionId'', KExecution),
     (''attemptId'', KAttempt), (''sessionId'', KSession), (''stepId'', KStep), (''actionId'', KAction)]"

definition identity_parents :: "(string \<times> string) list" where
  "identity_parents = [(''runId'', ''invocationId''), (''projectId'', ''runId''), (''shardId'', ''runId''),
     (''specId'', ''projectId''), (''runnerTaskId'', ''specId''), (''executionId'', ''runnerTaskId''),
     (''attemptId'', ''executionId''), (''sessionId'', ''attemptId''), (''stepId'', ''attemptId''),
     (''actionId'', ''sessionId'')]"

definition validateIdentity :: "json option \<Rightarrow> event_violation option" where
  "validateIdentity v =
     (case v of
        Some (JObject m) \<Rightarrow>
          if \<exists>k \<in> set (map fst m). k \<notin> set (map (u \<circ> fst) identity_fields) then Some InvalidIdentity
          else if \<exists>(f, kind) \<in> set identity_fields.
                    (f = ''invocationId'' \<or> field m f \<noteq> None) \<and> \<not> id_ok kind (field m f) then Some InvalidId
          else if \<exists>(child, parent) \<in> set identity_parents. field m child \<noteq> None \<and> field m parent = None
               then Some InvalidIdentity
          else None
      | _ \<Rightarrow> Some InvalidIdentity)"

definition envelope_fields :: "string list" where
  "envelope_fields = [''v'', ''eventId'', ''producerId'', ''epoch'', ''seq'', ''eventClass'', ''type'',
     ''monotonicTime'', ''wallTime'', ''identity'', ''causedBy'', ''payload'']"

definition validateCauses :: "run_event_limits \<Rightarrow> (js_string \<times> json) list \<Rightarrow> event_violation option" where
  "validateCauses l m =
     (case field m ''causedBy'' of
        None \<Rightarrow> None
      | Some (JArray causes) \<Rightarrow>
          if length causes > limit (maxCauses l) then Some InvalidEnvelope
          else if \<not> list_all (\<lambda>c. id_ok KEvent (Some c)) causes then Some InvalidId
          else if \<not> distinct causes then Some InvalidEnvelope
          else if \<exists>c \<in> set causes. field m ''eventId'' = Some c then Some CausalCycle
          else None
      | Some _ \<Rightarrow> Some InvalidEnvelope)"

definition json_string :: "json \<Rightarrow> js_string" where
  "json_string j = (case j of JString s \<Rightarrow> s | _ \<Rightarrow> [])"

definition json_number :: "json \<Rightarrow> rat" where
  "json_number j = (case j of JNumber q \<Rightarrow> q | _ \<Rightarrow> 0)"

definition json_items :: "json \<Rightarrow> json list" where
  "json_items j = (case j of JArray js \<Rightarrow> js | _ \<Rightarrow> [])"

definition json_fields :: "json \<Rightarrow> (js_string \<times> json) list" where
  "json_fields j = (case j of JObject m \<Rightarrow> m | _ \<Rightarrow> [])"

definition the_field :: "(js_string \<times> json) list \<Rightarrow> string \<Rightarrow> json" where
  "the_field m k = (case field m k of None \<Rightarrow> JNull | Some j \<Rightarrow> j)"

definition toRunEvent :: "(js_string \<times> json) list \<Rightarrow> run_event" where
  "toRunEvent m = \<lparr>
     eventId = json_string (the_field m ''eventId''),
     producerId = json_string (the_field m ''producerId''),
     epoch = \<lfloor>json_number (the_field m ''epoch'')\<rfloor>,
     seq = \<lfloor>json_number (the_field m ''seq'')\<rfloor>,
     eventClass = (case class_of_name (json_string (the_field m ''eventClass'')) of Some c \<Rightarrow> c | None \<Rightarrow> Diagnostic),
     eventType = json_string (the_field m ''type''),
     monotonicTime = json_number (the_field m ''monotonicTime''),
     wallTime = map_option json_number (field m ''wallTime''),
     identity = json_fields (the_field m ''identity''),
     causedBy = map_option (map json_string \<circ> json_items) (field m ''causedBy''),
     payload = field m ''payload''\<rparr>"

definition validateEnvelope :: "(json \<Rightarrow> nat) \<Rightarrow> run_event_limits \<Rightarrow> json \<Rightarrow> (event_violation, run_event) res" where
  "validateEnvelope jsonBytes l j =
     (case j of
        JObject m \<Rightarrow>
          if field m ''v'' \<noteq> Some (JNumber RUN_EVENT_VERSION) then Inl InvalidEnvelope
          else if \<exists>k \<in> set (map fst m). k \<notin> set (map u envelope_fields) then Inl InvalidEnvelope
          else if \<not> id_ok KEvent (field m ''eventId'') then Inl InvalidId
          else if \<not> id_ok KProducer (field m ''producerId'') then Inl InvalidId
          else if \<not> nonNegativeInteger (field m ''epoch'') then Inl InvalidEnvelope
          else if \<not> nonNegativeInteger (field m ''seq'') then Inl InvalidEnvelope
          else if (case field m ''eventClass'' of Some (JString s) \<Rightarrow> class_of_name s = None | _ \<Rightarrow> True) then Inl InvalidEnvelope
          else if \<not> type_ok (field m ''type'') then Inl InvalidEnvelope
          else if \<not> time_ok (field m ''monotonicTime'') then Inl InvalidEnvelope
          else if field m ''wallTime'' \<noteq> None \<and> \<not> time_ok (field m ''wallTime'') then Inl InvalidEnvelope
          else (case validateIdentity (field m ''identity'') of
                  Some code \<Rightarrow> Inl code
                | None \<Rightarrow>
                    (case validateCauses l m of
                       Some code \<Rightarrow> Inl code
                     | None \<Rightarrow>
                         if jsonBytes j > limit (maxEventBytes l) then Inl EventOversized
                         else Inr (toRunEvent m)))
      | _ \<Rightarrow> Inl InvalidEnvelope)"

definition validateRunEvent ::
  "(json \<Rightarrow> nat) \<Rightarrow> heap \<Rightarrow> js_value \<Rightarrow> run_event_limits \<Rightarrow> (event_violation, run_event) res" where
  "validateRunEvent jsonBytes h value l =
     (case validateLimits l of
        Some code \<Rightarrow> Inl code
      | None \<Rightarrow> res_bind (projectJson h value l) (validateEnvelope jsonBytes l))"

section \<open>The stream validator\<close>

record stream_limits =
  maxEvents :: js_number
  maxProducers :: js_number
  maxRecentEventIds :: js_number
  eventIdFilterBits :: js_number
  eventIdFilterHashes :: js_number

definition DEFAULT_RUN_EVENT_STREAM_LIMITS :: stream_limits where
  "DEFAULT_RUN_EVENT_STREAM_LIMITS = \<lparr>maxEvents = js_int 1000000, maxProducers = js_int 4096,
     maxRecentEventIds = js_int 65536, eventIdFilterBits = js_int (128 * 1024 * 1024), eventIdFilterHashes = js_int 7\<rparr>"

definition validateStreamLimits :: "stream_limits \<Rightarrow> bool" where
  "validateStreamLimits l \<longleftrightarrow>
     list_all isSafeInteger [maxProducers l, maxEvents l, maxRecentEventIds l, eventIdFilterBits l, eventIdFilterHashes l] \<and>
     1 \<le> int_of (maxProducers l) \<and> 1 \<le> int_of (maxEvents l) \<and> 1 \<le> int_of (maxRecentEventIds l) \<and>
     32 \<le> int_of (eventIdFilterBits l) \<and> int_of (eventIdFilterBits l) mod 32 = 0 \<and>
     1 \<le> int_of (eventIdFilterHashes l) \<and> int_of (eventIdFilterHashes l) \<le> 16"

record coordinates =
  coordEpoch :: int
  coordSeq :: int
  coordTime :: rat

record stream_validator =
  eventLimits :: run_event_limits
  streamLimits :: stream_limits
  eventIds :: id_filter
  recentEventIds :: recent_ids
  producerState :: "(js_string, coordinates) js_map"
  acceptedEvents :: nat

definition createValidator :: "run_event_limits \<Rightarrow> stream_limits \<Rightarrow> stream_validator option" where
  "createValidator l sl =
     (if validateLimits l \<noteq> None \<or> \<not> validateStreamLimits sl then None
      else Some \<lparr>eventLimits = l, streamLimits = sl,
        eventIds = createFilter (limit (eventIdFilterBits sl)) (limit (eventIdFilterHashes sl)),
        recentEventIds = createRecent (limit (maxRecentEventIds sl)), producerState = [], acceptedEvents = 0\<rparr>)"

definition causes_of :: "run_event \<Rightarrow> js_string list" where
  "causes_of e = (case causedBy e of None \<Rightarrow> [] | Some cs \<Rightarrow> cs)"

definition acceptEvent :: "run_event \<Rightarrow> stream_validator \<Rightarrow> (event_violation, run_event) res \<times> stream_validator" where
  "acceptEvent e s =
     (let previous = js_get (producerState s) (producerId e)
      in if acceptedEvents s \<ge> limit (maxEvents (streamLimits s)) then (Inl StreamCapacity, s)
      else if maybeHas (eventIds s) (eventId e) then (Inl EventCollision, s)
      else if previous = None \<and> length (producerState s) \<ge> limit (maxProducers (streamLimits s))
           then (Inl StreamCapacity, s)
      else if (case previous of None \<Rightarrow> False | Some p \<Rightarrow> epoch e < coordEpoch p) then (Inl EpochRegression, s)
      else if (case previous of None \<Rightarrow> False | Some p \<Rightarrow> epoch e = coordEpoch p \<and> seq e \<le> coordSeq p)
           then (Inl SequenceRegression, s)
      else if (case previous of None \<Rightarrow> False | Some p \<Rightarrow> epoch e = coordEpoch p \<and> monotonicTime e < coordTime p)
           then (Inl MonotonicTimeRegression, s)
      else if \<not> list_all (recent_has (recentEventIds s)) (causes_of e) then (Inl CausalReferenceUnavailable, s)
      else (Inr e, s\<lparr>eventIds := filter_add (eventId e) (eventIds s),
              recentEventIds := recent_add (eventId e) (recentEventIds s),
              producerState := js_set (producerId e)
                \<lparr>coordEpoch = epoch e, coordSeq = seq e, coordTime = monotonicTime e\<rparr> (producerState s),
              acceptedEvents := acceptedEvents s + 1\<rparr>))"

definition accept ::
  "(json \<Rightarrow> nat) \<Rightarrow> heap \<Rightarrow> js_value \<Rightarrow> stream_validator \<Rightarrow> (event_violation, run_event) res \<times> stream_validator" where
  "accept jsonBytes h value s =
     (case validateRunEvent jsonBytes h value (eventLimits s) of
        Inl code \<Rightarrow> (Inl code, s)
      | Inr e \<Rightarrow> acceptEvent e s)"

section \<open>The producer\<close>

record event_producer =
  ownId :: js_string
  ownEpoch :: js_number
  issuedIds :: recent_ids
  nextSeq :: int
  lastTime :: rat
  uuidDraws :: nat
  clockReads :: nat

record producer_env =
  producerUuid :: "nat \<Rightarrow> js_string"
  monotonicNow :: "nat \<Rightarrow> js_number"
  wallNow :: "(nat \<Rightarrow> js_number) option"

definition createProducer :: "js_value \<Rightarrow> js_number \<Rightarrow> event_producer option" where
  "createProducer pid ep =
     (if \<not> isSafeInteger ep \<or> int_of ep < 0 then None
      else map_option (\<lambda>s. \<lparr>ownId = s, ownEpoch = ep, issuedIds = createRecent 4096, nextSeq = 0, lastTime = 0,
             uuidDraws = 0, clockReads = 0\<rparr>) (parseRunId KProducer pid))"

primrec createEventId :: "nat \<Rightarrow> producer_env \<Rightarrow> event_producer \<Rightarrow> js_string option \<times> event_producer" where
  "createEventId 0 env p = (None, p)"
| "createEventId (Suc n) env p =
     (let p1 = p\<lparr>uuidDraws := Suc (uuidDraws p)\<rparr>
      in case createRunId KEvent (producerUuid env (uuidDraws p)) of
           None \<Rightarrow> (None, p1)
         | Some i \<Rightarrow>
             if \<not> recent_has (issuedIds p) i then (Some i, p1\<lparr>issuedIds := recent_add i (issuedIds p)\<rparr>)
             else createEventId n env p1)"

text \<open>The object literal that \<open>createRunEvent\<close> validates.\<close>

definition candidate ::
  "js_string \<Rightarrow> js_string \<Rightarrow> js_number \<Rightarrow> int \<Rightarrow> event_class \<Rightarrow> js_string \<Rightarrow> js_number \<Rightarrow> js_number option \<Rightarrow>
   js_value \<Rightarrow> js_value option \<Rightarrow> js_value \<Rightarrow> js_object" where
  "candidate eid pid ep sq cls ty now wall ident causes pl =
     \<lparr>arrayLength = None, isProxy = False, objPrototype = ObjectPrototype, symbolKeys = 0,
      ownProperties = map (\<lambda>(k, v). (u k, Data v True))
        ([(''v'', Number (Num RUN_EVENT_VERSION)), (''eventId'', Str eid), (''producerId'', Str pid),
          (''epoch'', Number ep), (''seq'', Number (js_int sq)), (''eventClass'', Str (class_name cls)),
          (''type'', Str ty), (''monotonicTime'', Number now)] @
         (case wall of None \<Rightarrow> [] | Some w \<Rightarrow> [(''wallTime'', Number w)]) @
         [(''identity'', ident)] @
         (case causes of None \<Rightarrow> [] | Some c \<Rightarrow> [(''causedBy'', c)]) @
         [(''payload'', pl)])\<rparr>"

definition createRunEvent :: "(json \<Rightarrow> nat) \<Rightarrow> heap \<Rightarrow> js_object \<Rightarrow> run_event_limits \<Rightarrow> run_event option" where
  "createRunEvent jsonBytes h ob l =
     (case validateRunEvent jsonBytes (h @ [ob]) (Ref (length h)) l of Inl _ \<Rightarrow> None | Inr e \<Rightarrow> Some e)"

text \<open>\<open>None\<close>: the method threw.\<close>

definition emit ::
  "(json \<Rightarrow> nat) \<Rightarrow> producer_env \<Rightarrow> heap \<Rightarrow> event_class \<Rightarrow> js_string \<Rightarrow> js_value \<Rightarrow> js_value option \<Rightarrow> js_value \<Rightarrow>
   run_event_limits \<Rightarrow> event_producer \<Rightarrow> run_event option \<times> event_producer" where
  "emit jsonBytes env h cls ty ident causes pl l p =
     (if \<not> isSafeInteger (js_int (nextSeq p)) then (None, p)
      else let now = monotonicNow env (clockReads p); p = p\<lparr>clockReads := Suc (clockReads p)\<rparr>
      in case now of
           Num t \<Rightarrow>
             if t < 0 \<or> t < lastTime p then (None, p)
             else (case createEventId 8 env p of
                     (None, p) \<Rightarrow> (None, p)
                   | (Some eid, p) \<Rightarrow>
                       (case createRunEvent jsonBytes h
                               (candidate eid (ownId p) (ownEpoch p) (nextSeq p) cls ty now
                                  (map_option (\<lambda>w. w (clockReads p)) (wallNow env)) ident causes pl) l of
                          None \<Rightarrow> (None, p)
                        | Some e \<Rightarrow> (Some e, p\<lparr>nextSeq := nextSeq p + 1, lastTime := t\<rparr>)))
         | _ \<Rightarrow> (None, p))"

end
