(* ===== verification/RunEvents_Props.thy ===== *)
theory RunEvents_Props
  imports RunEvents
begin

text \<open>
  Theorems about run events: what a merged stream that the validator accepted looks like, that the id filter has no
  false negatives and the ring holds the last ids, and that an accepted payload is within its limits.
\<close>

section \<open>The stream\<close>

text \<open>The validator with the events it accepted so far, under any sequence of offers.\<close>

type_synonym stream = "stream_validator \<times> run_event list"

definition offer :: "run_event \<Rightarrow> stream \<Rightarrow> stream" where
  "offer e = (\<lambda>(s, acc). case acceptEvent e s of (Inr e', s') \<Rightarrow> (s', acc @ [e']) | (Inl _, s') \<Rightarrow> (s', acc))"

text \<open>A producer moves forward: a newer epoch, or the same epoch with a higher sequence number and no earlier time.\<close>

definition forward :: "run_event \<Rightarrow> run_event \<Rightarrow> bool" where
  "forward e f \<longleftrightarrow> epoch e < epoch f \<or> (epoch e = epoch f \<and> seq e < seq f \<and> monotonicTime e \<le> monotonicTime f)"

definition coords :: "run_event \<Rightarrow> coordinates" where
  "coords e = \<lparr>coordEpoch = epoch e, coordSeq = seq e, coordTime = monotonicTime e\<rparr>"

abbreviation of_producer :: "js_string \<Rightarrow> run_event list \<Rightarrow> run_event list" where
  "of_producer pid acc \<equiv> filter (\<lambda>e. producerId e = pid) acc"

definition order_inv :: "stream \<Rightarrow> bool" where
  "order_inv = (\<lambda>(s, acc). wf_map (producerState s) \<and>
     (\<forall>pid. sorted_wrt forward (of_producer pid acc) \<and>
        js_get (producerState s) pid = (if of_producer pid acc = [] then None else Some (coords (last (of_producer pid acc))))))"

definition ids_inv :: "stream \<Rightarrow> bool" where
  "ids_inv = (\<lambda>(s, acc). filter_ok (eventIds s) \<and> recent_ok (recentEventIds s) \<and>
     length (ring (recentEventIds s)) = limit (maxRecentEventIds (streamLimits s)) \<and>
     recent_list (recentEventIds s) = last_n (limit (maxRecentEventIds (streamLimits s))) (map eventId acc) \<and>
     (\<forall>e \<in> set acc. maybeHas (eventIds s) (eventId e)) \<and> distinct (map eventId acc))"

definition causes_inv :: "stream \<Rightarrow> bool" where
  "causes_inv = (\<lambda>(s, acc). \<forall>i < length acc. set (causes_of (acc ! i)) \<subseteq>
     set (last_n (limit (maxRecentEventIds (streamLimits s))) (map eventId (take i acc))))"

definition size_inv :: "stream \<Rightarrow> bool" where
  "size_inv = (\<lambda>(s, acc). acceptedEvents s = length acc \<and> length acc \<le> limit (maxEvents (streamLimits s)) \<and>
     length (producerState s) \<le> limit (maxProducers (streamLimits s)))"

definition stream_inv :: "stream_limits \<Rightarrow> stream \<Rightarrow> bool" where
  "stream_inv sl st \<longleftrightarrow> streamLimits (fst st) = sl \<and> order_inv st \<and> ids_inv st \<and> causes_inv st \<and> size_inv st"

lemma acceptEvent_cases:
  obtains (refused) code where "acceptEvent e s = (Inl code, s)"
  | (accepted) s' where "acceptEvent e s = (Inr e, s')"
      and "s' = s\<lparr>eventIds := filter_add (eventId e) (eventIds s),
              recentEventIds := recent_add (eventId e) (recentEventIds s),
              producerState := js_set (producerId e) (coords e) (producerState s),
              acceptedEvents := acceptedEvents s + 1\<rparr>"
      and "acceptedEvents s < limit (maxEvents (streamLimits s))" and "\<not> maybeHas (eventIds s) (eventId e)"
      and "js_get (producerState s) (producerId e) = None \<longrightarrow> length (producerState s) < limit (maxProducers (streamLimits s))"
      and "\<forall>p. js_get (producerState s) (producerId e) = Some p \<longrightarrow> coordEpoch p < epoch e \<or>
        (coordEpoch p = epoch e \<and> coordSeq p < seq e \<and> coordTime p \<le> monotonicTime e)"
      and "\<forall>c \<in> set (causes_of e). recent_has (recentEventIds s) c"
proof -
  have "(\<exists>code. acceptEvent e s = (Inl code, s)) \<or>
    (acceptEvent e s = (Inr e, s\<lparr>eventIds := filter_add (eventId e) (eventIds s),
              recentEventIds := recent_add (eventId e) (recentEventIds s),
              producerState := js_set (producerId e) (coords e) (producerState s),
              acceptedEvents := acceptedEvents s + 1\<rparr>) \<and>
      acceptedEvents s < limit (maxEvents (streamLimits s)) \<and> \<not> maybeHas (eventIds s) (eventId e) \<and>
      (js_get (producerState s) (producerId e) = None \<longrightarrow> length (producerState s) < limit (maxProducers (streamLimits s))) \<and>
      (\<forall>p. js_get (producerState s) (producerId e) = Some p \<longrightarrow> coordEpoch p < epoch e \<or>
        (coordEpoch p = epoch e \<and> coordSeq p < seq e \<and> coordTime p \<le> monotonicTime e)) \<and>
      (\<forall>c \<in> set (causes_of e). recent_has (recentEventIds s) c))"
    unfolding acceptEvent_def Let_def coords_def [symmetric]
    by (auto simp: list_all_iff split: option.splits)
  then show thesis
  proof (elim disjE exE conjE)
    fix code assume "acceptEvent e s = (Inl code, s)"
    then show thesis by (rule refused)
  qed (rule accepted [OF _ refl])
qed

lemma forward_trans: "forward e f \<Longrightarrow> forward f g \<Longrightarrow> forward e g"
  by (auto simp: forward_def)

lemma sorted_forward_snoc:
  "sorted_wrt forward es \<Longrightarrow> es = [] \<or> forward (last es) e \<Longrightarrow> sorted_wrt forward (es @ [e])"
proof (cases es rule: rev_cases)
  case (snoc fs f)
  assume "sorted_wrt forward es" "es = [] \<or> forward (last es) e"
  with snoc show ?thesis by (auto simp: sorted_wrt_append intro: forward_trans)
qed simp

lemma order_inv_accept:
  assumes inv: "order_inv (s, acc)"
    and fwd: "\<forall>p. js_get (producerState s) (producerId e) = Some p \<longrightarrow> coordEpoch p < epoch e \<or>
        (coordEpoch p = epoch e \<and> coordSeq p < seq e \<and> coordTime p \<le> monotonicTime e)"
    and s': "producerState s' = js_set (producerId e) (coords e) (producerState s)"
  shows "order_inv (s', acc @ [e])"
proof -
  have old: "wf_map (producerState s)" "sorted_wrt forward (of_producer pid acc)"
    "js_get (producerState s) pid = (if of_producer pid acc = [] then None else Some (coords (last (of_producer pid acc))))" for pid
    using inv by (simp_all add: order_inv_def)
  have last: "of_producer (producerId e) acc = [] \<or> forward (last (of_producer (producerId e) acc)) e"
    using fwd old(3) [of "producerId e"] by (auto simp: coords_def forward_def)
  have new: "sorted_wrt forward (of_producer pid (acc @ [e]))" for pid
    using sorted_forward_snoc [OF old(2) last] old(2) [of pid] by (cases "producerId e = pid") auto
  have "js_get (producerState s') pid = (if of_producer pid (acc @ [e]) = [] then None
      else Some (coords (last (of_producer pid (acc @ [e])))))" for pid
    using old(3) [of pid] by (simp add: s' update_conv')
  with old(1) new show ?thesis by (simp add: order_inv_def s')
qed

lemma ids_inv_accept:
  assumes inv: "ids_inv (s, acc)" and new: "\<not> maybeHas (eventIds s) (eventId e)"
    and s': "eventIds s' = filter_add (eventId e) (eventIds s)"
      "recentEventIds s' = recent_add (eventId e) (recentEventIds s)" "streamLimits s' = streamLimits s"
  shows "ids_inv (s', acc @ [e])"
proof -
  let ?n = "limit (maxRecentEventIds (streamLimits s))" and ?q = "recentEventIds s"
  from inv have f: "filter_ok (eventIds s)" and q: "recent_ok ?q" and n: "length (ring ?q) = ?n"
    and l: "recent_list ?q = last_n ?n (map eventId acc)" and has: "\<forall>e \<in> set acc. maybeHas (eventIds s) (eventId e)"
    and dist: "distinct (map eventId acc)" by (simp_all add: ids_inv_def)
  have fresh: "eventId e \<notin> eventId ` set acc" using has new by auto
  then have "eventId e \<notin> set (recent_list ?q)" using set_last_n [of ?n "map eventId acc"] l by auto
  note add = recent_add_last_n [OF q this]
  have "0 < ?n" using q n by (auto simp: recent_ok_def)
  then have "recent_list (recentEventIds s') = last_n ?n (map eventId (acc @ [e]))"
    using add(1) l n last_n_snoc [of ?n "map eventId acc" "eventId e"] by (simp add: s')
  then show ?thesis
    using add(2,3) f has dist fresh n by (auto simp: ids_inv_def s' maybeHas_add maybeHas_mono)
qed

lemma stream_inv_offer:
  assumes "stream_inv sl st"
  shows "stream_inv sl (offer e st)"
proof -
  obtain s acc where st: "st = (s, acc)" by (cases st)
  show ?thesis
  proof (cases rule: acceptEvent_cases [of e s])
    case (refused code)
    with assms st show ?thesis by (simp add: offer_def)
  next
    case (accepted s')
    from assms st have lim: "streamLimits s = sl" and inv: "order_inv (s, acc)" "ids_inv (s, acc)" "causes_inv (s, acc)"
      "size_inv (s, acc)" by (simp_all add: stream_inv_def)
    have "order_inv (s', acc @ [e])" using accepted by (intro order_inv_accept [OF inv(1)]) simp_all
    moreover have "ids_inv (s', acc @ [e])" using accepted by (intro ids_inv_accept [OF inv(2)]) simp_all
    moreover have "set (causes_of e) \<subseteq> set (recent_list (recentEventIds s))"
      using accepted(7) inv(2) by (auto simp: recent_has_def ids_inv_def recent_ok_def)
    then have "causes_inv (s', acc @ [e])"
      using inv(2,3) by (auto simp: causes_inv_def ids_inv_def accepted(2) nth_append less_Suc_eq)
    moreover have "size_inv (s', acc @ [e])"
      using inv(4) accepted(3,5) by (auto simp: size_inv_def accepted(2) length_js_set js_get_None_iff)
    ultimately have "stream_inv sl (s', acc @ [e])" using lim by (simp add: stream_inv_def accepted(2))
    then show ?thesis using accepted(1) st by (simp add: offer_def)
  qed
qed

lemma createValidator_inv:
  assumes "createValidator l sl = Some s"
  shows "stream_inv sl (s, [])"
proof -
  have ok: "validateStreamLimits sl" and s: "s = \<lparr>eventLimits = l, streamLimits = sl,
        eventIds = createFilter (limit (eventIdFilterBits sl)) (limit (eventIdFilterHashes sl)),
        recentEventIds = createRecent (limit (maxRecentEventIds sl)), producerState = [], acceptedEvents = 0\<rparr>"
    using assms by (auto simp: createValidator_def split: if_splits)
  have "0 < limit (eventIdFilterBits sl)" "limit (eventIdFilterBits sl) mod 32 = 0" "0 < limit (maxRecentEventIds sl)"
    using ok by (auto simp: validateStreamLimits_def nat_mod_as_int)
  then show ?thesis
    using filter_ok_create recent_ok_create
    by (auto simp: stream_inv_def order_inv_def ids_inv_def causes_inv_def size_inv_def s last_n_def createRecent_def)
qed

interpretation streams: event_machine "\<lambda>(l, sl). (the (createValidator l sl), [])" offer
  "\<lambda>(l, sl) _ st. createValidator l sl \<noteq> None \<longrightarrow> stream_inv sl st"
  by unfold_locales (auto simp: createValidator_inv stream_inv_offer)

lemma offers_inv:
  assumes "createValidator l sl = Some s"
  shows "stream_inv sl (fold offer es (s, []))"
  using streams.run_keeps [of "(l, sl)" es] assms by simp

section \<open>Bounds of a payload\<close>

text \<open>The number of array items and object entries of a JSON value, its nesting, and its longest string or key.\<close>

fun json_entries :: "json \<Rightarrow> nat" where
  "json_entries (JArray js) = length js + sum_list (map json_entries js)"
| "json_entries (JObject m) = length m + sum_list (map (\<lambda>kj. json_entries (snd kj)) m)"
| "json_entries _ = 0"

fun json_depth :: "json \<Rightarrow> nat" where
  "json_depth (JArray js) = Suc (foldr max (map json_depth js) 0)"
| "json_depth (JObject m) = Suc (foldr max (map (\<lambda>kj. json_depth (snd kj)) m) 0)"
| "json_depth _ = 0"

fun json_strings :: "json \<Rightarrow> js_string list" where
  "json_strings (JString s) = [s]"
| "json_strings (JArray js) = concat (map json_strings js)"
| "json_strings (JObject m) = concat (map (\<lambda>kj. fst kj # json_strings (snd kj)) m)"
| "json_strings _ = []"

text \<open>What one visit promises.\<close>

definition visits :: "nat \<Rightarrow> nat \<Rightarrow> nat \<Rightarrow> visit_state \<Rightarrow> json \<Rightarrow> visit_state \<Rightarrow> bool" where
  "visits maxE maxS n st j st' \<longleftrightarrow> entries st' = entries st + json_entries j \<and>
     (entries st \<le> maxE \<longrightarrow> entries st' \<le> maxE) \<and> json_depth j \<le> n \<and>
     (\<forall>s \<in> set (json_strings j). utf8_length s \<le> maxS)"

lemma visit_items_bounds:
  assumes f: "\<And>v st j st'. f v st = Inr (j, st') \<Longrightarrow> visits maxE maxS n st j st'"
  shows "visit_items maxE f vs st = Inr (js, st') \<Longrightarrow> visits maxE maxS (Suc n) st (JArray js) st'"
proof (induction vs arbitrary: st js)
  case Nil
  then show ?case by (auto simp: visits_def)
next
  case (Cons v vs)
  then obtain j st1 js1 where j: "f v (st\<lparr>entries := entries st + 1\<rparr>) = Inr (j, st1)" "entries st + 1 \<le> maxE"
      and rest: "visit_items maxE f vs st1 = Inr (js1, st')" and js: "js = j # js1"
    by (auto simp: res_simps Let_def split: if_splits)
  from f [OF j(1)] Cons.IH [OF rest] j(2) js show ?case by (auto simp: visits_def)
qed

lemma visit_keys_bounds:
  assumes f: "\<And>v st j st'. f v st = Inr (j, st') \<Longrightarrow> visits maxE maxS n st j st'"
  shows "visit_keys maxE maxS f kps st = Inr (m, st') \<Longrightarrow> visits maxE maxS (Suc n) st (JObject m) st'"
proof (induction kps arbitrary: st m)
  case Nil
  then show ?case by (auto simp: visits_def)
next
  case (Cons kp kps)
  then obtain v e j st1 m1 where "snd kp = Data v e" and j: "f v (st\<lparr>entries := entries st + 1\<rparr>) = Inr (j, st1)" "entries st + 1 \<le> maxE"
      and rest: "visit_keys maxE maxS f kps st1 = Inr (m1, st')" and m: "m = (fst kp, j) # m1" and k: "utf8_length (fst kp) \<le> maxS"
    by (auto simp: res_simps Let_def split: if_splits property.splits)
  from f [OF j(1)] Cons.IH [OF rest] j(2) m k show ?case by (auto simp: visits_def)
qed

lemma visit_scalar_bounds: "visit_scalar maxS v = Inr j \<Longrightarrow> visits maxE maxS n st j st"
  by (auto simp: visit_scalar_def visits_def split: js_value.splits js_number.splits if_splits)

lemma visit_bounds: "visit h maxE maxS n v st = Inr (j, st') \<Longrightarrow> visits maxE maxS n st j st'"
proof (induction n arbitrary: v st j st')
  case 0
  then show ?case by (auto simp: res_simps split: js_value.splits dest: visit_scalar_bounds)
next
  case (Suc n)
  show ?case
  proof (cases v)
    case (Ref r)
    let ?st = "st\<lparr>visited := insert r (visited st)\<rparr>"
    have "visits maxE maxS (Suc n) ?st j st'"
    proof (cases "arrayLength (h ! r)")
      case None
      with Suc.prems Ref obtain m where "j = JObject m" "visit_keys maxE maxS (visit h maxE maxS n)
          (filter (\<lambda>(_, p). enumerable p) (ownProperties (h ! r))) ?st = Inr (m, st')"
        by (auto simp: res_simps Let_def split: if_splits)
      then show ?thesis using visit_keys_bounds [of "visit h maxE maxS n" maxE maxS n] Suc.IH by blast
    next
      case (Some len)
      with Suc.prems Ref obtain js where "j = JArray js" "visit_items maxE (visit h maxE maxS n)
          (map (element_at (h ! r)) [0..<len]) ?st = Inr (js, st')"
        by (auto simp: res_simps Let_def split: if_splits)
      then show ?thesis using visit_items_bounds [of "visit h maxE maxS n" maxE maxS n] Suc.IH by blast
    qed
    then show ?thesis by (auto simp: visits_def)
  qed (use Suc.prems in \<open>auto simp: res_simps dest: visit_scalar_bounds\<close>)
qed

section \<open>Theorems\<close>

text \<open>C6: A merged stream is well formed. Whatever events are offered to a fresh validator and in whatever order, among
  those it accepts no event id occurs twice, the events of each producer move strictly forward, every cause refers to
  one of the last \<open>maxRecentEventIds\<close> events accepted before, and the bounds on events and producers hold.\<close>

theorem accepted_stream:
  assumes "createValidator l sl = Some s" and "fold offer es (s, []) = (s', acc)"
  shows "distinct (map eventId acc) \<and> (\<forall>pid. sorted_wrt forward (filter (\<lambda>e. producerId e = pid) acc)) \<and>
    (\<forall>i < length acc. set (causes_of (acc ! i)) \<subseteq>
       set (last_n (limit (maxRecentEventIds sl)) (map eventId (take i acc)))) \<and>
    length acc \<le> limit (maxEvents sl) \<and> length (producerState s') \<le> limit (maxProducers sl)"
  using offers_inv [OF assms(1), of es] assms(2)
  by (auto simp: stream_inv_def order_inv_def ids_inv_def causes_inv_def size_inv_def)

definition demo_limits :: stream_limits where
  "demo_limits = \<lparr>maxEvents = js_int 10, maxProducers = js_int 2, maxRecentEventIds = js_int 2,
     eventIdFilterBits = js_int 64, eventIdFilterHashes = js_int 2\<rparr>"

definition demo_event :: "string \<Rightarrow> int \<Rightarrow> string list \<Rightarrow> run_event" where
  "demo_event i n cs = \<lparr>eventId = u i, producerId = u ''p'', epoch = 0, seq = n, eventClass = Authoritative,
     eventType = u ''t'', monotonicTime = of_int n, wallTime = None, identity = [], causedBy = Some (map u cs), payload = None\<rparr>"

definition demo_validator :: stream_validator where
  "demo_validator = \<lparr>eventLimits = DEFAULT_RUN_EVENT_LIMITS, streamLimits = demo_limits,
     eventIds = createFilter 64 2, recentEventIds = createRecent 2, producerState = [], acceptedEvents = 0\<rparr>"

lemma demo_validator_created: "createValidator DEFAULT_RUN_EVENT_LIMITS demo_limits = Some demo_validator"
  by (simp add: createValidator_def validateLimits_def DEFAULT_RUN_EVENT_LIMITS_def validateStreamLimits_def
      demo_limits_def MAX_SAFE_INTEGER_def demo_validator_def)

lemma empty_filter:
  assumes "0 < bits" and "bits mod 32 = 0" and "0 < hashes"
  shows "\<not> maybeHas (createFilter bits hashes) v"
proof -
  let ?f = "createFilter bits hashes"
  obtain i where i: "i \<in> set (indexes ?f v)" using assms(3) by (fastforce simp: indexes_def createFilter_def Let_def)
  then have "i < 32 * (bits div 32)" using assms(1,2) by (auto simp: indexes_def createFilter_def Let_def)
  then have "i div 32 < bits div 32" by (simp add: less_mult_imp_div_less mult.commute)
  then have "\<not> bit_set (filterWords ?f) i" by (simp add: bit_set_def createFilter_def)
  with i show ?thesis by (auto simp: maybeHas_bits)
qed

theorem accepted_stream_witness:
  "\<exists>s' acc. fold offer [demo_event ''a'' 1 [], demo_event ''b'' 1 []] (demo_validator, []) = (s', acc) \<and>
     acc \<noteq> [] \<and> distinct (map eventId acc)"
proof -
  let ?es = "[demo_event ''a'' 1 [], demo_event ''b'' 1 []]"
  have first: "\<exists>s1. acceptEvent (demo_event ''a'' 1 []) demo_validator = (Inr (demo_event ''a'' 1 []), s1)"
    using empty_filter [of 64 2]
    by (simp add: acceptEvent_def demo_validator_def demo_limits_def demo_event_def causes_of_def)
  obtain s' acc where eq: "fold offer ?es (demo_validator, []) = (s', acc)" by (cases "fold offer ?es (demo_validator, [])")
  with first have "acc \<noteq> []"
    by (auto simp: offer_def split: prod.splits sum.splits)
  with accepted_stream [OF demo_validator_created eq] eq show ?thesis by auto
qed

text \<open>An event that was validated is within its limits: the projected value has at most \<open>maxPayloadEntries\<close> items and
  entries, nests at most \<open>maxPayloadDepth + 1\<close> levels and contains no string or key longer than \<open>maxStringBytes\<close>.\<close>

theorem projectJson_bounded:
  assumes "projectJson h v l = Inr j"
  shows "json_entries j \<le> limit (maxPayloadEntries l) \<and> json_depth j \<le> limit (maxPayloadDepth l) + 1 \<and>
    (\<forall>s \<in> set (json_strings j). utf8_length s \<le> limit (maxStringBytesE l))"
proof -
  from assms obtain st where "visit h (limit (maxPayloadEntries l)) (limit (maxStringBytesE l)) (Suc (limit (maxPayloadDepth l))) v
      \<lparr>entries = 0, visited = {}\<rparr> = Inr (j, st)"
    by (auto simp: projectJson_def res_simps simp del: visit.simps)
  from visit_bounds [OF this] show ?thesis by (auto simp: visits_def)
qed

definition demo_payload :: heap where
  "demo_payload = [\<lparr>arrayLength = None, isProxy = False, objPrototype = NullPrototype, symbolKeys = 0,
     ownProperties = [(u ''k'', Data (Str (u ''text'')) True)]\<rparr>]"

theorem projectJson_bounded_witness:
  "projectJson demo_payload (Ref 0) DEFAULT_RUN_EVENT_LIMITS = Inr (JObject [(u ''k'', JString (u ''text''))]) \<and>
   json_entries (JObject [(u ''k'', JString (u ''text''))]) \<le> 10000"
proof -
  have eq: "projectJson demo_payload (Ref 0) DEFAULT_RUN_EVENT_LIMITS = Inr (JObject [(u ''k'', JString (u ''text''))])"
    by code_simp
  from projectJson_bounded [OF this] eq show ?thesis by (simp add: DEFAULT_RUN_EVENT_LIMITS_def)
qed

text \<open>The event id filter has no false negatives: an id that was added is reported by \<open>maybeHas\<close> after any further
  additions, for every admissible filter size and number of hashes.\<close>

theorem filter_no_false_negative:
  assumes "0 < bits" and "bits mod 32 = 0" and "v \<in> set vs"
  shows "maybeHas (fold filter_add vs (createFilter bits hashes)) v"
proof -
  have mono: "maybeHas f v \<Longrightarrow> maybeHas (fold filter_add ws f) v" for f ws
    by (induction ws arbitrary: f) (simp_all add: maybeHas_mono)
  have "filter_ok f \<Longrightarrow> v \<in> set vs \<Longrightarrow> maybeHas (fold filter_add vs f) v" for f
    by (induction vs arbitrary: f) (auto simp: maybeHas_add mono)
  with filter_ok_create [OF assms(1,2)] assms(3) show ?thesis by blast
qed

theorem filter_no_false_negative_witness:
  "maybeHas (fold filter_add [u ''event:1'', u ''event:2''] (createFilter 64 7)) (u ''event:1'')"
  by (rule filter_no_false_negative) simp_all

end
