(* ===== verification/RunJournal.thy ===== *)
theory RunJournal
  imports RunEvents
begin

text \<open>
  The ordering core of the test host (\<open>src/packages/protocol/src/run-journal.ts\<close>).

  \<^item> \<open>journal\<close> is the private state of \<open>RunEventJournal\<close>. Entries and gaps are compared by identity in the source; their
    ordinals are unique, so the model compares them as values.
  \<^item> \<open>append\<close>, \<open>barrier\<close> and the two halves of \<open>flushThrough\<close> before and after the sink was awaited (\<open>flushBegin\<close>,
    \<open>flushEnd\<close>) follow the methods; what the sink answers is an input. Between the halves anything but another flush
    may happen.
  \<^item> \<open>value\<close> is validated by \<open>validateRunEvent\<close>; validating the frozen result once more inside the stream validator returns
    it unchanged, so \<open>append\<close> calls \<open>acceptEvent\<close>. \<open>eventBytes\<close> stands for the byte length of the serialised event.
  \<^item> \<open>jenv\<close> collects what is injected: the serialisation sizes and the clocks and randomness of the gap producer.
\<close>

section \<open>State\<close>

record journal_limits =
  maxAuthoritativeEvents :: int
  maxStateKeys :: int
  maxDiagnosticEvents :: int
  maxPendingBytes :: int

definition DEFAULT_RUN_EVENT_JOURNAL_LIMITS :: journal_limits where
  "DEFAULT_RUN_EVENT_JOURNAL_LIMITS = \<lparr>maxAuthoritativeEvents = 10000, maxStateKeys = 10000,
     maxDiagnosticEvents = 1000, maxPendingBytes = 16 * 1024 * 1024\<rparr>"

datatype journal_violation =
    EventViolation event_violation | JStaleRun | JournalFull | StateKeyRequired | InvalidBarrier

record journal_entry =
  ordinal :: int
  entryEvent :: run_event
  entryBytes :: int
  entryKey :: "js_string option"

record diagnostic_gap =
  gapOrdinal :: int
  gapCount :: int
  firstEventId :: js_string
  lastEventId :: js_string
  gapEvent :: "run_event option"
  gapBytes :: int

definition DIAGNOSTIC_GAP_RESERVATION_BYTES :: int where
  "DIAGNOSTIC_GAP_RESERVATION_BYTES = 4 * 1024"

record flush_barrier =
  token :: int
  highWaterMark :: int

record jenv =
  jsonSize :: "json \<Rightarrow> nat"
  eventBytes :: "run_event \<Rightarrow> nat"
  gapEnv :: producer_env

record journal =
  jInvocation :: js_string
  jRun :: js_string
  jLimits :: journal_limits
  validator :: stream_validator
  gapProducer :: event_producer
  jEntries :: "journal_entry list"
  currentState :: "(js_string, journal_entry) js_map"
  gaps :: "diagnostic_gap list"
  barriers :: "(int, int) js_map"
  counts :: "event_class \<Rightarrow> int"
  openGap :: "diagnostic_gap option"
  nextOrdinal :: int
  nextBarrierToken :: int
  flushedThrough :: int
  sealedThrough :: int
  flushActive :: bool
  pendingBytes :: int
  peakPending :: int
  peakPendingBytes :: int
  jAccepted :: int
  jAcceptedBytes :: int

definition createJournal ::
  "js_string \<Rightarrow> js_string \<Rightarrow> event_producer \<Rightarrow> stream_validator \<Rightarrow> journal_limits \<Rightarrow> journal option" where
  "createJournal invocation run gp v l =
     (if \<exists>x \<in> {maxAuthoritativeEvents l, maxStateKeys l, maxDiagnosticEvents l, maxPendingBytes l}.
            \<bar>x\<bar> > MAX_SAFE_INTEGER \<or> x < 1 then None
      else Some \<lparr>jInvocation = invocation, jRun = run, jLimits = l, validator = v, gapProducer = gp, jEntries = [],
        currentState = [], gaps = [], barriers = [], counts = (\<lambda>_. 0), openGap = None, nextOrdinal = 0,
        nextBarrierToken = 0, flushedThrough = -1, sealedThrough = -1, flushActive = False, pendingBytes = 0,
        peakPending = 0, peakPendingBytes = 0, jAccepted = 0, jAcceptedBytes = 0\<rparr>)"

section \<open>Helpers\<close>

definition pending :: "journal \<Rightarrow> int" where
  "pending s = int (length (jEntries s)) + int (length (gaps s)) + (if openGap s = None then 0 else 1)"

definition observePeak :: "journal \<Rightarrow> journal" where
  "observePeak s = s\<lparr>peakPending := max (peakPending s) (pending s),
     peakPendingBytes := max (peakPendingBytes s) (pendingBytes s)\<rparr>"

definition key_char :: char_class where
  "key_char c \<longleftrightarrow> (48 \<le> c \<and> c \<le> 57) \<or> (65 \<le> c \<and> c \<le> 90) \<or> (97 \<le> c \<and> c \<le> 122)"

text \<open>The pattern \<open>/^[a-zA-Z0-9][a-zA-Z0-9./:_-]{0,255}$/\<close>.\<close>

definition validStateKey :: "js_string option \<Rightarrow> bool" where
  "validStateKey k =
     (case k of
        Some (c # cs) \<Rightarrow> key_char c \<and> length cs \<le> 255 \<and> list_all (\<lambda>c. key_char c \<or> separator c \<or> c = 95) cs
      | _ \<Rightarrow> False)"

definition removeEntry :: "journal_entry \<Rightarrow> journal \<Rightarrow> journal" where
  "removeEntry e s =
     (if e \<in> set (jEntries s)
      then s\<lparr>jEntries := remove1 e (jEntries s), pendingBytes := pendingBytes s - entryBytes e,
             counts := (counts s)(eventClass (entryEvent e) := counts s (eventClass (entryEvent e)) - 1)\<rparr>
      else s)"

definition recordDiagnosticGap :: "journal_entry \<Rightarrow> journal \<Rightarrow> journal" where
  "recordDiagnosticGap dropped s =
     (case openGap s of
        None \<Rightarrow>
          observePeak (s\<lparr>openGap := Some \<lparr>gapOrdinal = ordinal dropped, gapCount = 1,
              firstEventId = eventId (entryEvent dropped), lastEventId = eventId (entryEvent dropped),
              gapEvent = None, gapBytes = DIAGNOSTIC_GAP_RESERVATION_BYTES\<rparr>,
            pendingBytes := pendingBytes s + DIAGNOSTIC_GAP_RESERVATION_BYTES\<rparr>)
      | Some g \<Rightarrow> s\<lparr>openGap := Some (g\<lparr>gapCount := gapCount g + 1, lastEventId := eventId (entryEvent dropped)\<rparr>)\<rparr>)"

text \<open>The identity and the payload of a gap event, as fresh objects.\<close>

definition plain_object_of :: "(string \<times> js_value) list \<Rightarrow> js_object" where
  "plain_object_of ps = \<lparr>arrayLength = None, isProxy = False, objPrototype = ObjectPrototype, symbolKeys = 0,
     ownProperties = map (\<lambda>(k, v). (u k, Data v True)) ps\<rparr>"

definition gap_heap :: "journal \<Rightarrow> diagnostic_gap \<Rightarrow> heap" where
  "gap_heap s g =
     [plain_object_of [(''invocationId'', Str (jInvocation s)), (''runId'', Str (jRun s))],
      plain_object_of [(''dropped'', Number (js_int (gapCount g))), (''firstEventId'', Str (firstEventId g)),
        (''lastEventId'', Str (lastEventId g))]]"

text \<open>\<open>sealGap\<close> is \<open>Inl\<close> when the producer or the size check threw; the state is the one reached.\<close>

definition sealGap :: "jenv \<Rightarrow> journal \<Rightarrow> (unit, unit) res \<times> journal" where
  "sealGap env s =
     (case openGap s of
        None \<Rightarrow> (Inr (), s)
      | Some g \<Rightarrow>
          (case emit (jsonSize env) (gapEnv env) (gap_heap s g) Diagnostic (u ''journal.diagnostic-gap'') (Ref 0) None (Ref 1)
                  DEFAULT_RUN_EVENT_LIMITS (gapProducer s) of
             (None, p) \<Rightarrow> (Inl (), s\<lparr>gapProducer := p\<rparr>)
           | (Some e, p) \<Rightarrow>
               (let g = g\<lparr>gapEvent := Some e\<rparr>; bytes = int (eventBytes env e)
                in if bytes > DIAGNOSTIC_GAP_RESERVATION_BYTES
                   then (Inl (), s\<lparr>gapProducer := p, openGap := Some g\<rparr>)
                   else (Inr (), s\<lparr>gapProducer := p, pendingBytes := pendingBytes s + (bytes - gapBytes g),
                           gaps := gaps s @ [g\<lparr>gapBytes := bytes\<rparr>], openGap := None\<rparr>))))"

section \<open>Appending\<close>

text \<open>The loop that chooses which diagnostics to drop. \<open>fresh\<close>: the first drop has to reserve a gap.\<close>

primrec chooseDrops ::
  "journal_limits \<Rightarrow> bool \<Rightarrow> journal_entry list \<Rightarrow> int \<Rightarrow> int \<Rightarrow> journal_entry list \<times> int \<times> int" where
  "chooseDrops l fresh [] cnt bytes = ([], cnt, bytes)"
| "chooseDrops l fresh (c # cs) cnt bytes =
     (if cnt < maxDiagnosticEvents l \<and> bytes \<le> maxPendingBytes l then ([], cnt, bytes)
      else let (ds, cnt', bytes') = chooseDrops l False cs (cnt - 1)
                 (bytes - entryBytes c + (if fresh then DIAGNOSTIC_GAP_RESERVATION_BYTES else 0))
           in (c # ds, cnt', bytes'))"

definition dropCandidates :: "journal \<Rightarrow> journal_entry list" where
  "dropCandidates s =
     filter (\<lambda>c. eventClass (entryEvent c) = Diagnostic \<and> ordinal c > sealedThrough s) (jEntries s)"

definition drop_diagnostic :: "journal_entry \<Rightarrow> journal \<Rightarrow> journal" where
  "drop_diagnostic d s = recordDiagnosticGap d (removeEntry d s)"

text \<open>The end of \<open>append\<close>, common to the classes: the entry is queued and counted.\<close>

definition pushEntry :: "journal_entry \<Rightarrow> journal \<Rightarrow> journal" where
  "pushEntry entry s =
     observePeak (s\<lparr>jEntries := jEntries s @ [entry], pendingBytes := pendingBytes s + entryBytes entry,
       counts := (counts s)(eventClass (entryEvent entry) := counts s (eventClass (entryEvent entry)) + 1),
       jAccepted := jAccepted s + 1, jAcceptedBytes := jAcceptedBytes s + entryBytes entry\<rparr>)"

text \<open>The entry that a state event replaces.\<close>

definition previousState :: "run_event \<Rightarrow> js_string option \<Rightarrow> journal \<Rightarrow> journal_entry option" where
  "previousState event stateKey s =
     (if eventClass event = StateClass
      then (case stateKey of None \<Rightarrow> None | Some k \<Rightarrow> js_get (currentState s) k) else None)"

text \<open>The checks of \<open>append\<close> before the stream validator, in the order of the source; the drops are chosen on the way.\<close>

definition appendChecks ::
  "jenv \<Rightarrow> run_event \<Rightarrow> js_string option \<Rightarrow> journal \<Rightarrow> (journal_violation, journal_entry list) res" where
  "appendChecks env event stateKey s =
     (let bytes = int (eventBytes env event);
          prev = previousState event stateKey s;
          after = pendingBytes s - (case prev of None \<Rightarrow> 0 | Some e \<Rightarrow> entryBytes e) + bytes;
          (drops, cnt, projected) = chooseDrops (jLimits s) (openGap s = None) (dropCandidates s)
             (counts s Diagnostic) (pendingBytes s + bytes)
      in if field (identity event) ''invocationId'' \<noteq> Some (JString (jInvocation s)) \<or>
            field (identity event) ''runId'' \<noteq> Some (JString (jRun s)) then Inl JStaleRun
      else if eventClass event \<noteq> Diagnostic \<and>
           (bytes > maxPendingBytes (jLimits s) \<or> after > maxPendingBytes (jLimits s)) then Inl JournalFull
      else if eventClass event = StateClass \<and> \<not> validStateKey stateKey then Inl StateKeyRequired
      else if eventClass event = Authoritative \<and> counts s Authoritative \<ge> maxAuthoritativeEvents (jLimits s)
           then Inl JournalFull
      else if eventClass event = StateClass \<and> prev = None \<and> int (length (currentState s)) \<ge> maxStateKeys (jLimits s)
           then Inl JournalFull
      else if eventClass event = Diagnostic \<and>
           (cnt \<ge> maxDiagnosticEvents (jLimits s) \<or> projected > maxPendingBytes (jLimits s)) then Inl JournalFull
      else Inr (if eventClass event = Diagnostic then drops else []))"

text \<open>\<open>append\<close> after the value was parsed.\<close>

definition appendEvent ::
  "jenv \<Rightarrow> run_event \<Rightarrow> js_string option \<Rightarrow> journal \<Rightarrow> (journal_violation, int) res \<times> journal" where
  "appendEvent env event stateKey s =
     (case appendChecks env event stateKey s of
        Inl code \<Rightarrow> (Inl code, s)
      | Inr drops \<Rightarrow>
          (case acceptEvent event (validator s) of
             (Inl code, v) \<Rightarrow> (Inl (EventViolation code), s\<lparr>validator := v\<rparr>)
           | (Inr _, v) \<Rightarrow>
               (let n = nextOrdinal s;
                    entry = \<lparr>ordinal = n, entryEvent = event, entryBytes = int (eventBytes env event), entryKey = stateKey\<rparr>;
                    s1 = s\<lparr>validator := v, nextOrdinal := n + 1\<rparr>;
                    s2 = (case eventClass event of
                            StateClass \<Rightarrow>
                              (let s2 = (case previousState event stateKey s of None \<Rightarrow> s1 | Some e \<Rightarrow> removeEntry e s1)
                               in s2\<lparr>currentState := js_set (the stateKey) entry (currentState s2)\<rparr>)
                          | Diagnostic \<Rightarrow> fold drop_diagnostic drops s1
                          | Authoritative \<Rightarrow> s1)
                in (Inr n, pushEntry entry s2))))"

definition append_value ::
  "jenv \<Rightarrow> heap \<Rightarrow> js_value \<Rightarrow> js_string option \<Rightarrow> journal \<Rightarrow> (journal_violation, int) res \<times> journal" where
  "append_value env h value stateKey s =
     (case validateRunEvent (jsonSize env) h value DEFAULT_RUN_EVENT_LIMITS of
        Inl code \<Rightarrow> (Inl (EventViolation code), s)
      | Inr event \<Rightarrow> appendEvent env event stateKey s)"

section \<open>Barriers and flushing\<close>

definition barrier :: "jenv \<Rightarrow> journal \<Rightarrow> (unit, flush_barrier) res \<times> journal" where
  "barrier env s =
     (case sealGap env (s\<lparr>currentState := []\<rparr>) of
        (Inl _, s1) \<Rightarrow> (Inl (), s1)
      | (Inr _, s1) \<Rightarrow>
          (let b = \<lparr>token = nextBarrierToken s1, highWaterMark = nextOrdinal s1 - 1\<rparr>
           in (Inr b, s1\<lparr>nextBarrierToken := nextBarrierToken s1 + 1,
                 sealedThrough := max (sealedThrough s1) (highWaterMark b),
                 barriers := js_set (token b) (highWaterMark b) (barriers s1)\<rparr>)))"

text \<open>What \<open>flushThrough\<close> holds while it awaits the sink.\<close>

record flush_plan =
  planBarrier :: flush_barrier
  planOrdinary :: "journal_entry list"
  planGaps :: "diagnostic_gap list"

definition planBatch :: "flush_plan \<Rightarrow> (int \<times> run_event) list" where
  "planBatch p = sort_key fst
     (map (\<lambda>e. (ordinal e, entryEvent e)) (planOrdinary p) @ map (\<lambda>g. (gapOrdinal g, the (gapEvent g))) (planGaps p))"

definition flushBegin :: "flush_barrier \<Rightarrow> journal \<Rightarrow> flush_plan option \<times> journal" where
  "flushBegin b s =
     (if flushActive s then (None, s)
      else if js_get (barriers s) (token b) \<noteq> Some (highWaterMark b) \<or> highWaterMark b < flushedThrough s \<or>
              highWaterMark b \<ge> nextOrdinal s then (None, s)
      else (Some \<lparr>planBarrier = b, planOrdinary = filter (\<lambda>e. ordinal e \<le> highWaterMark b) (jEntries s),
                   planGaps = filter (\<lambda>g. gapOrdinal g \<le> highWaterMark b) (gaps s)\<rparr>,
            s\<lparr>flushActive := True\<rparr>))"

definition flushEnd :: "flush_plan \<Rightarrow> bool \<Rightarrow> journal \<Rightarrow> journal" where
  "flushEnd p delivered s =
     (if \<not> delivered then s\<lparr>flushActive := False\<rparr>
      else let flushed = filter (\<lambda>e. e \<in> set (planOrdinary p)) (jEntries s);
               flushedGaps = filter (\<lambda>g. g \<in> set (planGaps p)) (gaps s);
               hwm = highWaterMark (planBarrier p)
      in s\<lparr>flushActive := False,
           pendingBytes := pendingBytes s - sum_list (map entryBytes flushed) - sum_list (map gapBytes flushedGaps),
           counts := (\<lambda>c. counts s c - int (length (filter (\<lambda>e. eventClass (entryEvent e) = c) flushed))),
           jEntries := filter (\<lambda>e. e \<notin> set (planOrdinary p)) (jEntries s),
           gaps := filter (\<lambda>g. g \<notin> set (planGaps p)) (gaps s),
           flushedThrough := hwm,
           barriers := filter (\<lambda>(_, h). \<not> h \<le> hwm) (barriers s)\<rparr>)"

end
