(* ===== verification/Journal_Props.thy ===== *)
theory Journal_Props
  imports RunJournal
begin

text \<open>
  The invariant of a run journal and what each part of an append does to it. \<open>Journal_Theorems\<close> adds barriers and the two
  halves of a flush and has the theorems about all interleavings.
\<close>

section \<open>Invariants\<close>

definition ord_inv :: "journal \<Rightarrow> bool" where
  "ord_inv s \<longleftrightarrow> sorted_wrt (<) (map ordinal (jEntries s)) \<and>
     (\<forall>e \<in> set (jEntries s). flushedThrough s < ordinal e \<and> ordinal e < nextOrdinal s) \<and>
     flushedThrough s \<le> sealedThrough s \<and> sealedThrough s < nextOrdinal s"

definition gap_sum :: "(diagnostic_gap \<Rightarrow> int) \<Rightarrow> journal \<Rightarrow> int" where
  "gap_sum f s = sum_list (map f (gaps s)) + (case openGap s of None \<Rightarrow> 0 | Some g \<Rightarrow> f g)"

definition acct_inv :: "journal \<Rightarrow> bool" where
  "acct_inv s \<longleftrightarrow> pendingBytes s = sum_list (map entryBytes (jEntries s)) + gap_sum gapBytes s \<and>
     (\<forall>c. counts s c = int (length (filter (\<lambda>e. eventClass (entryEvent e) = c) (jEntries s)))) \<and>
     (\<forall>g. openGap s = Some g \<longrightarrow> gapBytes g = DIAGNOSTIC_GAP_RESERVATION_BYTES)"

definition gap_inv :: "journal \<Rightarrow> bool" where
  "gap_inv s \<longleftrightarrow> distinct (map gapOrdinal (gaps s)) \<and>
     (\<forall>g \<in> set (gaps s). flushedThrough s < gapOrdinal g \<and> gapOrdinal g \<le> sealedThrough s \<and>
        gapOrdinal g \<notin> ordinal ` set (jEntries s) \<and> gapEvent g \<noteq> None) \<and>
     (\<forall>g. openGap s = Some g \<longrightarrow> sealedThrough s < gapOrdinal g \<and> gapOrdinal g < nextOrdinal s \<and>
        gapOrdinal g \<notin> ordinal ` set (jEntries s))"

definition state_inv :: "journal \<Rightarrow> bool" where
  "state_inv s \<longleftrightarrow> wf_map (currentState s) \<and> (\<forall>(k, e) \<in> set (currentState s). e \<in> set (jEntries s) \<and>
     eventClass (entryEvent e) = StateClass \<and> sealedThrough s < ordinal e \<and> entryKey e = Some k)"

definition barrier_inv :: "journal \<Rightarrow> bool" where
  "barrier_inv s \<longleftrightarrow> (\<forall>(t, h) \<in> set (barriers s). t < nextBarrierToken s \<and> h \<le> sealedThrough s)"

definition core_inv :: "journal \<Rightarrow> bool" where
  "core_inv s \<longleftrightarrow> ord_inv s \<and> acct_inv s \<and> gap_inv s \<and> barrier_inv s"

definition journal_inv :: "journal \<Rightarrow> bool" where
  "journal_inv s \<longleftrightarrow> core_inv s \<and> state_inv s \<and> pendingBytes s \<le> maxPendingBytes (jLimits s)"

lemmas inv_defs = ord_inv_def acct_inv_def gap_inv_def barrier_inv_def gap_sum_def

text \<open>Fields that the invariants do not read.\<close>

lemma observePeak_fields [simp]:
  "jEntries (observePeak s) = jEntries s" "gaps (observePeak s) = gaps s" "openGap (observePeak s) = openGap s"
  "pendingBytes (observePeak s) = pendingBytes s" "counts (observePeak s) = counts s"
  "flushedThrough (observePeak s) = flushedThrough s" "sealedThrough (observePeak s) = sealedThrough s"
  "nextOrdinal (observePeak s) = nextOrdinal s" "barriers (observePeak s) = barriers s"
  "currentState (observePeak s) = currentState s" "jLimits (observePeak s) = jLimits s"
  "flushActive (observePeak s) = flushActive s" "nextBarrierToken (observePeak s) = nextBarrierToken s"
  by (simp_all add: observePeak_def)

lemma sorted_distinct: "sorted_wrt (<) (map ordinal es) \<Longrightarrow> distinct es"
  by (metis distinct_map strict_sorted_iff)

lemma sorted_wrt_filter_map: "sorted_wrt (<) (map f xs) \<Longrightarrow> sorted_wrt (<) (map f (filter P xs))"
  by (induction xs) auto

lemma distinct_remove1_filter: "distinct xs \<Longrightarrow> remove1 x xs = filter (\<lambda>y. y \<noteq> x) xs"
  by (simp add: distinct_remove1_removeAll removeAll_filter_not_eq eq_commute)

lemma sum_list_remove1:
  "x \<in> set xs \<Longrightarrow> sum_list (map f (remove1 x xs)) = sum_list (map f xs) - (f x :: int)"
  by (induction xs) auto

lemma length_filter_remove1:
  "x \<in> set xs \<Longrightarrow> int (length (filter P (remove1 x xs))) = int (length (filter P xs)) - (if P x then 1 else 0)"
  by (induction xs) auto

section \<open>Removing and dropping\<close>

lemma sorted_remove1: "sorted_wrt (<) (map ordinal es) \<Longrightarrow> sorted_wrt (<) (map ordinal (remove1 e es))"
  using distinct_remove1_filter [OF sorted_distinct] sorted_wrt_filter_map by metis

lemma removeEntry_core:
  assumes inv: "core_inv s" and e: "e \<in> set (jEntries s)"
  shows "core_inv (removeEntry e s)"
proof -
  have sub: "set (remove1 e (jEntries s)) \<subseteq> set (jEntries s)" by (rule set_remove1_subset)
  have "ord_inv (removeEntry e s)"
    using inv e sub by (auto simp: core_inv_def ord_inv_def removeEntry_def sorted_remove1)
  moreover have "acct_inv (removeEntry e s)"
    using inv e by (auto simp: core_inv_def acct_inv_def removeEntry_def gap_sum_def sum_list_remove1 length_filter_remove1)
  moreover have "gap_inv (removeEntry e s)"
    using inv e sub by (auto simp: core_inv_def gap_inv_def removeEntry_def)
  moreover have "barrier_inv (removeEntry e s)"
    using inv e by (simp add: core_inv_def barrier_inv_def removeEntry_def)
  ultimately show ?thesis by (simp add: core_inv_def)
qed

lemma ordinal_inj:
  "sorted_wrt (<) (map ordinal es) \<Longrightarrow> e \<in> set es \<Longrightarrow> e' \<in> set es \<Longrightarrow> ordinal e = ordinal e' \<Longrightarrow> e = e'"
  by (metis distinct_map inj_onD strict_sorted_iff)

lemma drop_diagnostic_core:
  assumes inv: "core_inv s" and e: "e \<in> set (jEntries s)" "sealedThrough s < ordinal e"
  shows "core_inv (drop_diagnostic e s)"
proof -
  let ?s = "removeEntry e s"
  have core: "core_inv ?s" using removeEntry_core [OF inv e(1)] .
  have srt: "sorted_wrt (<) (map ordinal (jEntries s))" and lt: "ordinal e < nextOrdinal s"
    using inv e by (auto simp: core_inv_def ord_inv_def)
  have "ordinal e \<notin> ordinal ` set (jEntries ?s)"
  proof
    assume "ordinal e \<in> ordinal ` set (jEntries ?s)"
    then obtain e' where e': "e' \<in> set (remove1 e (jEntries s))" "ordinal e' = ordinal e"
      using e(1) by (auto simp: removeEntry_def)
    then have "e' \<in> set (jEntries s)" using set_remove1_subset by fast
    with ordinal_inj [OF srt this e(1) e'(2)] e'(1) sorted_distinct [OF srt] show False by simp
  qed
  moreover have "sealedThrough ?s = sealedThrough s" "nextOrdinal ?s = nextOrdinal s"
    by (simp_all add: removeEntry_def)
  ultimately show ?thesis
    using core e lt unfolding core_inv_def drop_diagnostic_def
    by (auto simp: inv_defs recordDiagnosticGap_def split: option.split)
qed

section \<open>Choosing and dropping diagnostics\<close>

lemma chooseDrops_spec:
  assumes "chooseDrops l fresh cs cnt bytes = (ds, cnt', bytes')"
  shows "(\<exists>n. ds = take n cs) \<and> cnt' = cnt - int (length ds) \<and>
     bytes' = bytes - sum_list (map entryBytes ds) + (if fresh \<and> ds \<noteq> [] then DIAGNOSTIC_GAP_RESERVATION_BYTES else 0)"
  using assms
proof (induction cs arbitrary: fresh cnt bytes ds)
  case (Cons c cs)
  show ?case
  proof (cases "cnt < maxDiagnosticEvents l \<and> bytes \<le> maxPendingBytes l")
    case True
    with Cons.prems show ?thesis by (auto intro: exI [of _ 0])
  next
    case False
    let ?b = "bytes - entryBytes c + (if fresh then DIAGNOSTIC_GAP_RESERVATION_BYTES else 0)"
    obtain ds' where ds': "chooseDrops l False cs (cnt - 1) ?b = (ds', cnt', bytes')" "ds = c # ds'"
      using False Cons.prems by (auto simp: Let_def split: prod.splits)
    from Cons.IH [OF ds'(1)] obtain n where "ds' = take n cs" by blast
    then have "ds = take (Suc n) (c # cs)" using ds'(2) by simp
    moreover have "cnt' = cnt - int (length ds) \<and> bytes' = bytes - sum_list (map entryBytes ds) +
       (if fresh \<and> ds \<noteq> [] then DIAGNOSTIC_GAP_RESERVATION_BYTES else 0)"
      using Cons.IH [OF ds'(1)] ds'(2) by auto
    ultimately show ?thesis by blast
  qed
qed simp

definition open_count :: "journal \<Rightarrow> int" where
  "open_count s = (case openGap s of None \<Rightarrow> 0 | Some g \<Rightarrow> gapCount g)"

definition same_frame :: "journal \<Rightarrow> journal \<Rightarrow> bool" where
  "same_frame s s' \<longleftrightarrow> sealedThrough s' = sealedThrough s \<and> nextOrdinal s' = nextOrdinal s \<and> gaps s' = gaps s \<and>
     flushedThrough s' = flushedThrough s \<and> jLimits s' = jLimits s \<and> currentState s' = currentState s \<and>
     flushActive s' = flushActive s \<and> barriers s' = barriers s \<and> nextBarrierToken s' = nextBarrierToken s"

lemma drop_diagnostic_fields:
  assumes "e \<in> set (jEntries s)" "distinct (jEntries s)"
  shows "same_frame s (drop_diagnostic e s)"
    and "jEntries (drop_diagnostic e s) = filter (\<lambda>x. x \<noteq> e) (jEntries s)"
    and "openGap (drop_diagnostic e s) \<noteq> None"
    and "open_count (drop_diagnostic e s) = open_count s + 1"
    and "pendingBytes (drop_diagnostic e s) =
      pendingBytes s - entryBytes e + (if openGap s = None then DIAGNOSTIC_GAP_RESERVATION_BYTES else 0)"
  using assms
  by (auto simp: same_frame_def drop_diagnostic_def recordDiagnosticGap_def removeEntry_def open_count_def
      distinct_remove1_filter split: option.split)

lemma fold_drop:
  assumes "core_inv s" "distinct ds" "set ds \<subseteq> set (jEntries s)" "\<forall>d \<in> set ds. sealedThrough s < ordinal d"
  shows "core_inv (fold drop_diagnostic ds s) \<and> same_frame s (fold drop_diagnostic ds s) \<and>
    jEntries (fold drop_diagnostic ds s) = filter (\<lambda>x. x \<notin> set ds) (jEntries s) \<and>
    open_count (fold drop_diagnostic ds s) = open_count s + int (length ds) \<and>
    pendingBytes (fold drop_diagnostic ds s) = pendingBytes s - sum_list (map entryBytes ds) +
      (if openGap s = None \<and> ds \<noteq> [] then DIAGNOSTIC_GAP_RESERVATION_BYTES else 0)"
  using assms
proof (induction ds arbitrary: s)
  case Nil
  then show ?case by (simp add: same_frame_def)
next
  case (Cons d ds)
  let ?s = "drop_diagnostic d s"
  have d: "d \<in> set (jEntries s)" and dis: "distinct (jEntries s)"
    using Cons.prems sorted_distinct by (auto simp: core_inv_def ord_inv_def)
  note f = drop_diagnostic_fields [OF d dis]
  have "core_inv ?s" using Cons.prems d by (intro drop_diagnostic_core) auto
  then have ih: "core_inv (fold drop_diagnostic ds ?s) \<and> same_frame ?s (fold drop_diagnostic ds ?s) \<and>
    jEntries (fold drop_diagnostic ds ?s) = filter (\<lambda>x. x \<notin> set ds) (jEntries ?s) \<and>
    open_count (fold drop_diagnostic ds ?s) = open_count ?s + int (length ds) \<and>
    pendingBytes (fold drop_diagnostic ds ?s) = pendingBytes ?s - sum_list (map entryBytes ds) +
      (if openGap ?s = None \<and> ds \<noteq> [] then DIAGNOSTIC_GAP_RESERVATION_BYTES else 0)"
    using Cons.prems f(1,2) by (intro Cons.IH) (auto simp: same_frame_def)
  then have "same_frame s (fold drop_diagnostic ds ?s)" using f(1) by (simp add: same_frame_def)
  moreover have "filter (\<lambda>x. x \<notin> set ds) (jEntries ?s) = filter (\<lambda>x. x \<notin> set (d # ds)) (jEntries s)"
    unfolding f(2) filter_filter by (rule filter_cong) auto
  ultimately show ?case using ih f(3-5) by simp
qed

section \<open>Appending\<close>

text \<open>The common end of an accepted append: \<open>t\<close> is the journal after the drops.\<close>

definition finish :: "journal_entry \<Rightarrow> stream_validator \<Rightarrow> (js_string, journal_entry) js_map \<Rightarrow> journal \<Rightarrow> journal" where
  "finish entry v cs t = pushEntry entry (t\<lparr>validator := v, nextOrdinal := nextOrdinal t + 1, currentState := cs\<rparr>)"

lemma finish_fields [simp]:
  "jEntries (finish e v cs t) = jEntries t @ [e]" "gaps (finish e v cs t) = gaps t" "openGap (finish e v cs t) = openGap t"
  "pendingBytes (finish e v cs t) = pendingBytes t + entryBytes e"
  "counts (finish e v cs t) = (counts t)(eventClass (entryEvent e) := counts t (eventClass (entryEvent e)) + 1)"
  "flushedThrough (finish e v cs t) = flushedThrough t" "sealedThrough (finish e v cs t) = sealedThrough t"
  "nextOrdinal (finish e v cs t) = nextOrdinal t + 1" "barriers (finish e v cs t) = barriers t"
  "currentState (finish e v cs t) = cs" "jLimits (finish e v cs t) = jLimits t" "flushActive (finish e v cs t) = flushActive t"
  "nextBarrierToken (finish e v cs t) = nextBarrierToken t"
  by (simp_all add: finish_def pushEntry_def)

lemma finish_same:
  "currentState t = cs \<Longrightarrow> finish e v cs t = pushEntry e (t\<lparr>validator := v, nextOrdinal := nextOrdinal t + 1\<rparr>)"
  by (auto simp: finish_def)

lemma finish_core:
  assumes "core_inv t" "ordinal e = nextOrdinal t"
  shows "core_inv (finish e v cs t)"
proof -
  have "ord_inv (finish e v cs t)" using assms by (auto simp: core_inv_def ord_inv_def sorted_wrt_append)
  moreover have "acct_inv (finish e v cs t)" using assms by (simp add: core_inv_def acct_inv_def gap_sum_def)
  moreover have "gap_inv (finish e v cs t)"
    using assms by (fastforce simp: core_inv_def gap_inv_def ord_inv_def)
  moreover have "barrier_inv (finish e v cs t)" using assms by (simp add: core_inv_def barrier_inv_def)
  ultimately show ?thesis by (simp add: core_inv_def)
qed

text \<open>\<open>thinned ds s t\<close>: \<open>t\<close> is \<open>s\<close> without the entries \<open>ds\<close>, none of which is authoritative or sealed; \<open>k\<close> of them were
  diagnostics and are counted in the open gap.\<close>

definition thinned :: "journal_entry list \<Rightarrow> nat \<Rightarrow> journal \<Rightarrow> journal \<Rightarrow> bool" where
  "thinned ds k s t \<longleftrightarrow> core_inv t \<and> same_frame s t \<and> jEntries t = filter (\<lambda>x. x \<notin> set ds) (jEntries s) \<and>
     (\<forall>d \<in> set ds. sealedThrough s < ordinal d \<and> eventClass (entryEvent d) \<noteq> Authoritative) \<and>
     open_count t = open_count s + int k \<and> counts t Authoritative = counts s Authoritative \<and>
     counts t Diagnostic = counts s Diagnostic - int k"

lemma thinned_refl: "core_inv s \<Longrightarrow> thinned [] 0 s s"
  by (simp add: thinned_def same_frame_def)

lemma drop_commutes:
  "drop_diagnostic d (s\<lparr>validator := v, nextOrdinal := n\<rparr>) = (drop_diagnostic d s)\<lparr>validator := v, nextOrdinal := n\<rparr>"
  by (simp add: drop_diagnostic_def recordDiagnosticGap_def removeEntry_def observePeak_def pending_def split: option.split)

lemma fold_drop_commutes:
  "fold drop_diagnostic ds (s\<lparr>validator := v, nextOrdinal := n\<rparr>) =
     (fold drop_diagnostic ds s)\<lparr>validator := v, nextOrdinal := n\<rparr>"
  by (induction ds arbitrary: s) (simp_all add: drop_commutes)

lemma fold_drop_counts:
  assumes "set ds \<subseteq> set (jEntries s)" "distinct ds" "distinct (jEntries s)" "\<forall>d \<in> set ds. eventClass (entryEvent d) = Diagnostic"
  shows "counts (fold drop_diagnostic ds s) = (counts s)(Diagnostic := counts s Diagnostic - int (length ds))"
  using assms
proof (induction ds arbitrary: s)
  case (Cons d ds)
  have d: "d \<in> set (jEntries s)" using Cons.prems by simp
  have "counts (drop_diagnostic d s) = (counts s)(Diagnostic := counts s Diagnostic - 1)"
    using d Cons.prems(4) by (simp add: drop_diagnostic_def recordDiagnosticGap_def removeEntry_def split: option.split)
  moreover have "set ds \<subseteq> set (jEntries (drop_diagnostic d s))" "distinct (jEntries (drop_diagnostic d s))"
    using Cons.prems by (auto simp: drop_diagnostic_fields(2) [OF d Cons.prems(3)])
  ultimately show ?case
    using Cons.IH [of "drop_diagnostic d s"] Cons.prems by (simp add: fun_eq_iff)
qed simp

lemma thinned_drop:
  assumes core: "core_inv s" and ds: "chooseDrops (jLimits s) (openGap s = None) (dropCandidates s) (counts s Diagnostic)
     (pendingBytes s + bytes) = (ds, cnt, projected)"
  shows "thinned ds (length ds) s (fold drop_diagnostic ds s)"
    and "pendingBytes (fold drop_diagnostic ds s) + bytes = projected"
    and "cnt = counts (fold drop_diagnostic ds s) Diagnostic"
proof -
  obtain n where n: "ds = take n (dropCandidates s)" using chooseDrops_spec [OF ds] by blast
  have dis: "distinct (jEntries s)" using core sorted_distinct by (auto simp: core_inv_def ord_inv_def)
  then have "distinct ds" by (simp add: n dropCandidates_def)
  moreover have sub: "set ds \<subseteq> set (dropCandidates s)" by (simp add: n set_take_subset)
  then have sub: "set ds \<subseteq> set (jEntries s)" "\<forall>d \<in> set ds. sealedThrough s < ordinal d \<and> eventClass (entryEvent d) = Diagnostic"
    by (auto simp: dropCandidates_def)
  ultimately have f: "core_inv (fold drop_diagnostic ds s) \<and> same_frame s (fold drop_diagnostic ds s) \<and>
    jEntries (fold drop_diagnostic ds s) = filter (\<lambda>x. x \<notin> set ds) (jEntries s) \<and>
    open_count (fold drop_diagnostic ds s) = open_count s + int (length ds) \<and>
    pendingBytes (fold drop_diagnostic ds s) = pendingBytes s - sum_list (map entryBytes ds) +
      (if openGap s = None \<and> ds \<noteq> [] then DIAGNOSTIC_GAP_RESERVATION_BYTES else 0)"
    using core by (intro fold_drop) auto
  have c: "counts (fold drop_diagnostic ds s) = (counts s)(Diagnostic := counts s Diagnostic - int (length ds))"
    using fold_drop_counts \<open>distinct ds\<close> sub dis by blast
  show "thinned ds (length ds) s (fold drop_diagnostic ds s)" using f c sub by (simp add: thinned_def)
  show "pendingBytes (fold drop_diagnostic ds s) + bytes = projected"
    "cnt = counts (fold drop_diagnostic ds s) Diagnostic"
    using f c chooseDrops_spec [OF ds] by simp_all
qed

lemma thinned_replace:
  assumes core: "core_inv s" and st: "state_inv s" and prev: "js_get (currentState s) k = Some e"
  shows "thinned [e] 0 s (removeEntry e s)" and "pendingBytes (removeEntry e s) = pendingBytes s - entryBytes e"
proof -
  have e: "e \<in> set (jEntries s)" "eventClass (entryEvent e) = StateClass" "sealedThrough s < ordinal e"
    using st map_of_SomeD [OF prev] by (auto simp: state_inv_def)
  have "distinct (jEntries s)" using core sorted_distinct by (auto simp: core_inv_def ord_inv_def)
  then show "thinned [e] 0 s (removeEntry e s)"
    using removeEntry_core [OF core e(1)] e
    by (simp add: thinned_def same_frame_def removeEntry_def open_count_def distinct_remove1_filter)
  show "pendingBytes (removeEntry e s) = pendingBytes s - entryBytes e" using e by (simp add: removeEntry_def)
qed

text \<open>An append is refused with the journal unchanged but for the validator, or the entry is pushed on a thinned journal.\<close>

definition entry_of :: "jenv \<Rightarrow> run_event \<Rightarrow> js_string option \<Rightarrow> journal \<Rightarrow> journal_entry" where
  "entry_of env ev key s =
     \<lparr>ordinal = nextOrdinal s, entryEvent = ev, entryBytes = int (eventBytes env ev), entryKey = key\<rparr>"

definition replaces :: "js_string option \<Rightarrow> journal_entry \<Rightarrow> journal_entry list \<Rightarrow> journal \<Rightarrow> (js_string, journal_entry) js_map \<Rightarrow> bool" where
  "replaces key entry ds s cs \<longleftrightarrow>
     (\<exists>x. key = Some x \<and> eventClass (entryEvent entry) = StateClass \<and> cs = js_set x entry (currentState s) \<and>
        set ds = {d. js_get (currentState s) x = Some d}) \<or>
     cs = currentState s \<and> (\<forall>d \<in> set ds. eventClass (entryEvent d) = Diagnostic)"

definition admits :: "jenv \<Rightarrow> run_event \<Rightarrow> journal \<Rightarrow> journal \<Rightarrow> bool" where
  "admits env ev s t \<longleftrightarrow> pendingBytes t + int (eventBytes env ev) \<le> maxPendingBytes (jLimits s) \<and>
     (eventClass ev = Authoritative \<longrightarrow> counts s Authoritative < maxAuthoritativeEvents (jLimits s)) \<and>
     (eventClass ev = Diagnostic \<longrightarrow> counts t Diagnostic < maxDiagnosticEvents (jLimits s))"

lemma append_diagnostic:
  assumes core: "core_inv s" and c: "eventClass ev = Diagnostic" and ok: "appendChecks env ev key s = Inr ds"
  shows "thinned ds (length ds) s (fold drop_diagnostic ds s)" and "admits env ev s (fold drop_diagnostic ds s)"
    and "\<forall>d \<in> set ds. eventClass (entryEvent d) = Diagnostic"
proof -
  obtain ds' cnt projected where ds: "chooseDrops (jLimits s) (openGap s = None) (dropCandidates s) (counts s Diagnostic)
     (pendingBytes s + int (eventBytes env ev)) = (ds', cnt, projected)" by (metis prod_cases3)
  have ds': "ds' = ds" "cnt < maxDiagnosticEvents (jLimits s)" "projected \<le> maxPendingBytes (jLimits s)"
    using ok c ds by (auto simp: appendChecks_def Let_def split: if_splits)
  note td = thinned_drop [OF core ds]
  show "thinned ds (length ds) s (fold drop_diagnostic ds s)" using td(1) ds'(1) by simp
  show "admits env ev s (fold drop_diagnostic ds s)" using td(2,3) ds' c by (simp add: admits_def)
  obtain n where "ds' = take n (dropCandidates s)" using chooseDrops_spec [OF ds] by blast
  then have "set ds' \<subseteq> set (dropCandidates s)" by (simp add: set_take_subset)
  then show "\<forall>d \<in> set ds. eventClass (entryEvent d) = Diagnostic" using ds'(1) by (auto simp: dropCandidates_def)
qed

lemma append_other:
  assumes c: "eventClass ev \<noteq> Diagnostic" and ok: "appendChecks env ev key s = Inr ds"
  shows "ds = []"
    and "pendingBytes s - (case previousState ev key s of None \<Rightarrow> 0 | Some e \<Rightarrow> entryBytes e) + int (eventBytes env ev)
      \<le> maxPendingBytes (jLimits s)"
    and "eventClass ev = Authoritative \<Longrightarrow> counts s Authoritative < maxAuthoritativeEvents (jLimits s)"
    and "eventClass ev = StateClass \<Longrightarrow> \<exists>x. key = Some x"
  using c ok by (auto simp: appendChecks_def Let_def validStateKey_def split: if_splits prod.splits option.splits)

lemma removeEntry_commutes:
  "removeEntry e (s\<lparr>validator := v, nextOrdinal := n\<rparr>) = (removeEntry e s)\<lparr>validator := v, nextOrdinal := n\<rparr>"
  "currentState (removeEntry e s) = currentState s" "nextOrdinal (removeEntry e s) = nextOrdinal s"
  by (simp_all add: removeEntry_def)

lemma appendEvent_cases:
  assumes inv: "core_inv s" "state_inv s" and app: "appendEvent env ev key s = (r, s')"
  obtains (refused) code v where "r = Inl code" "s' = s\<lparr>validator := v\<rparr>"
  | (accepted) v cs ds k t where "r = Inr (nextOrdinal s)" "s' = finish (entry_of env ev key s) v cs t" "thinned ds k s t"
      "admits env ev s t" "replaces key (entry_of env ev key s) ds s cs"
proof (cases "appendChecks env ev key s")
  case (Inl code)
  with app refused [of code "validator s"] show thesis by (simp add: appendEvent_def)
next
  case (Inr ds)
  show thesis
  proof (cases "acceptEvent ev (validator s)")
    case (Pair res v)
    show thesis
    proof (cases res)
      case (Inl code)
      with app Pair \<open>appendChecks env ev key s = Inr ds\<close> refused [of "EventViolation code" v] show thesis
        by (simp add: appendEvent_def)
    next
      case (Inr b)
      note run = app [unfolded appendEvent_def \<open>appendChecks env ev key s = Inr ds\<close> Pair Inr]
      show thesis
      proof (cases "eventClass ev")
        case Authoritative
        note o = append_other [OF _ \<open>appendChecks env ev key s = Inr ds\<close>]
        show thesis
        proof (rule accepted)
          show "r = Inr (nextOrdinal s)" "s' = finish (entry_of env ev key s) v (currentState s) s"
            using run Authoritative by (auto simp: Let_def finish_def entry_of_def)
          show "thinned [] 0 s s" using inv(1) by (rule thinned_refl)
          show "admits env ev s s" using o(2,3) Authoritative by (simp add: admits_def previousState_def)
          show "replaces key (entry_of env ev key s) [] s (currentState s)" by (simp add: replaces_def)
        qed
      next
        case Diagnostic
        note d = append_diagnostic [OF inv(1) Diagnostic \<open>appendChecks env ev key s = Inr ds\<close>]
        show thesis
        proof (rule accepted)
          show "r = Inr (nextOrdinal s)" "s' = finish (entry_of env ev key s) v (currentState s) (fold drop_diagnostic ds s)"
            using run Diagnostic d(1)
            by (simp_all add: finish_same thinned_def same_frame_def Let_def entry_of_def fold_drop_commutes)
          show "replaces key (entry_of env ev key s) ds s (currentState s)" using d(3) by (simp add: replaces_def)
        qed (fact d)+
      next
        case StateClass
        note o = append_other [OF _ \<open>appendChecks env ev key s = Inr ds\<close>]
        obtain x where x: "key = Some x" using o(4) StateClass by auto
        let ?cs = "js_set x (entry_of env ev key s) (currentState s)"
        show thesis
        proof (cases "js_get (currentState s) x")
          case None
          show thesis
          proof (rule accepted)
            show "r = Inr (nextOrdinal s)" "s' = finish (entry_of env ev key s) v ?cs s"
              using run StateClass None x by (auto simp: Let_def finish_def entry_of_def previousState_def)
            show "thinned [] 0 s s" using inv(1) by (rule thinned_refl)
            show "admits env ev s s" using o(2) StateClass None x by (simp add: admits_def previousState_def)
            show "replaces key (entry_of env ev key s) [] s ?cs"
              using None x StateClass by (simp add: replaces_def entry_of_def)
          qed
        next
          case (Some e)
          note t = thinned_replace [OF inv Some]
          show thesis
          proof (rule accepted)
            show "r = Inr (nextOrdinal s)" "s' = finish (entry_of env ev key s) v ?cs (removeEntry e s)"
              using run StateClass Some x
              by (auto simp: Let_def finish_def entry_of_def previousState_def removeEntry_commutes)
            show "admits env ev s (removeEntry e s)"
              using o(2) StateClass Some x t(2) by (simp add: admits_def previousState_def)
            show "replaces key (entry_of env ev key s) [e] s ?cs"
              using Some x StateClass by (simp add: replaces_def entry_of_def)
          qed (fact t)
        qed
      qed
    qed
  qed
qed

end
