(* ===== verification/Journal_Theorems.thy ===== *)
theory Journal_Theorems
  imports Journal_Props
begin

text \<open>
  The run journal as a system: a journal, the flush that is waiting for its sink, and what was accepted and delivered so
  far. \<open>jevent\<close> lists what can happen, in any order and with any input; the sink answers in \<open>JFlushEnd\<close>. The theorems are
  about every sequence of events.
\<close>

section \<open>The system\<close>

record jsys =
  sysJournal :: journal
  sysPlan :: "flush_plan option"
  sysAccepted :: "(int \<times> run_event) list"
  sysDelivered :: "flush_plan list"

datatype jevent =
    JAppend jenv heap js_value "js_string option" | JBarrier jenv | JFlushBegin flush_barrier | JFlushEnd bool

definition accepted_of :: "jenv \<Rightarrow> heap \<Rightarrow> js_value \<Rightarrow> (journal_violation, int) res \<Rightarrow> (int \<times> run_event) list" where
  "accepted_of env h value r =
     (case (r, validateRunEvent (jsonSize env) h value DEFAULT_RUN_EVENT_LIMITS) of
        (Inr n, Inr ev) \<Rightarrow> [(n, ev)] | _ \<Rightarrow> [])"

fun jhappen :: "jevent \<Rightarrow> jsys \<Rightarrow> jsys" where
  "jhappen (JAppend env h value key) s =
     (case append_value env h value key (sysJournal s) of
        (r, j) \<Rightarrow> s\<lparr>sysJournal := j, sysAccepted := sysAccepted s @ accepted_of env h value r\<rparr>)"
| "jhappen (JBarrier env) s = s\<lparr>sysJournal := snd (barrier env (sysJournal s))\<rparr>"
| "jhappen (JFlushBegin b) s =
     (case flushBegin b (sysJournal s) of
        (None, j) \<Rightarrow> s\<lparr>sysJournal := j\<rparr>
      | (Some p, j) \<Rightarrow> s\<lparr>sysJournal := j, sysPlan := Some p\<rparr>)"
| "jhappen (JFlushEnd ok) s =
     (case sysPlan s of
        None \<Rightarrow> s
      | Some p \<Rightarrow> s\<lparr>sysJournal := flushEnd p ok (sysJournal s), sysPlan := None,
                    sysDelivered := sysDelivered s @ (if ok then [p] else [])\<rparr>)"

definition jstart :: "journal \<Rightarrow> jsys" where
  "jstart j = \<lparr>sysJournal = j, sysPlan = None, sysAccepted = [], sysDelivered = []\<rparr>"

definition jrun :: "journal \<Rightarrow> jevent list \<Rightarrow> jsys" where
  "jrun j h = fold jhappen h (jstart j)"

section \<open>Invariants of the system\<close>

abbreviation pair_of :: "journal_entry \<Rightarrow> int \<times> run_event" where
  "pair_of e \<equiv> (ordinal e, entryEvent e)"

definition of_class :: "event_class \<Rightarrow> (int \<times> run_event) list \<Rightarrow> (int \<times> run_event) list" where
  "of_class c ps = filter (\<lambda>p. eventClass (snd p) = c) ps"

definition pendingEvents :: "journal \<Rightarrow> (int \<times> run_event) list" where
  "pendingEvents j = map pair_of (jEntries j)"

definition deliveredEntries :: "jsys \<Rightarrow> (int \<times> run_event) list" where
  "deliveredEntries s = concat (map (\<lambda>p. map pair_of (planOrdinary p)) (sysDelivered s))"

definition droppedCount :: "jsys \<Rightarrow> int" where
  "droppedCount s = sum_list (map (\<lambda>p. sum_list (map gapCount (planGaps p))) (sysDelivered s)) +
     sum_list (map gapCount (gaps (sysJournal s))) + open_count (sysJournal s)"

definition bounds_inv :: "journal \<Rightarrow> bool" where
  "bounds_inv j \<longleftrightarrow> pendingBytes j \<le> maxPendingBytes (jLimits j) \<and>
     counts j Authoritative \<le> maxAuthoritativeEvents (jLimits j) \<and> counts j Diagnostic \<le> maxDiagnosticEvents (jLimits j) \<and>
     (\<forall>e \<in> set (jEntries j). 0 \<le> entryBytes e) \<and> (\<forall>g \<in> set (gaps j). 0 \<le> gapBytes g)"

definition flush_inv :: "flush_plan option \<Rightarrow> journal \<Rightarrow> bool" where
  "flush_inv plan j =
     (case plan of
        None \<Rightarrow> \<not> flushActive j
      | Some p \<Rightarrow> flushActive j \<and> highWaterMark (planBarrier p) \<le> sealedThrough j \<and>
          flushedThrough j \<le> highWaterMark (planBarrier p) \<and> highWaterMark (planBarrier p) < nextOrdinal j \<and>
          js_get (barriers j) (token (planBarrier p)) = Some (highWaterMark (planBarrier p)) \<and>
          planOrdinary p = filter (\<lambda>e. ordinal e \<le> highWaterMark (planBarrier p)) (jEntries j) \<and>
          planGaps p = filter (\<lambda>g. gapOrdinal g \<le> highWaterMark (planBarrier p)) (gaps j))"

definition log_inv :: "jsys \<Rightarrow> bool" where
  "log_inv s \<longleftrightarrow>
     of_class Authoritative (sysAccepted s) =
       of_class Authoritative (deliveredEntries s) @ of_class Authoritative (pendingEvents (sysJournal s)) \<and>
     int (length (of_class Diagnostic (sysAccepted s))) =
       int (length (of_class Diagnostic (deliveredEntries s))) + int (length (of_class Diagnostic (pendingEvents (sysJournal s))))
       + droppedCount s"

definition order_inv :: "jsys \<Rightarrow> bool" where
  "order_inv s \<longleftrightarrow> sorted_wrt (<) (map fst (concat (map planBatch (sysDelivered s)))) \<and>
     (\<forall>p \<in> set (sysDelivered s). \<forall>b \<in> set (planBatch p). fst b \<le> flushedThrough (sysJournal s))"

definition jsys_inv :: "journal_limits \<Rightarrow> jsys \<Rightarrow> bool" where
  "jsys_inv l s \<longleftrightarrow> jLimits (sysJournal s) = l \<and> core_inv (sysJournal s) \<and> state_inv (sysJournal s) \<and> bounds_inv (sysJournal s) \<and>
     flush_inv (sysPlan s) (sysJournal s) \<and> log_inv s \<and> order_inv s"

section \<open>Appending\<close>

lemma of_class_simps [simp]:
  "of_class c [] = []" "of_class c (xs @ ys) = of_class c xs @ of_class c ys"
  "of_class c [x] = (if eventClass (snd x) = c then [x] else [])"
  by (simp_all add: of_class_def)

lemma of_class_pending: "of_class c (map pair_of es) = map pair_of (filter (\<lambda>e. eventClass (entryEvent e) = c) es)"
  by (simp add: of_class_def filter_map o_def)

lemma counts_pending: "acct_inv j \<Longrightarrow> int (length (of_class c (pendingEvents j))) = counts j c"
  by (simp add: pendingEvents_def of_class_pending acct_inv_def)

lemma thinned_bounds:
  assumes "bounds_inv s" "thinned ds k s t" "admits env ev s t"
  shows "bounds_inv (finish (entry_of env ev key s) v cs t)"
proof -
  have "jLimits t = jLimits s" "counts t Authoritative = counts s Authoritative" "counts t Diagnostic \<le> counts s Diagnostic"
    "gaps t = gaps s" "set (jEntries t) \<subseteq> set (jEntries s)"
    using assms(2) by (auto simp: thinned_def same_frame_def)
  then show ?thesis
    using assms(1,3) by (cases "eventClass ev") (auto simp: bounds_inv_def admits_def entry_of_def)
qed

lemma thinned_flush:
  assumes "flush_inv plan s" "thinned ds k s t" "core_inv s" "ordinal entry = nextOrdinal s"
  shows "flush_inv plan (finish entry v cs t)"
proof (cases plan)
  case None
  with assms show ?thesis by (simp add: flush_inv_def thinned_def same_frame_def)
next
  case (Some p)
  let ?h = "highWaterMark (planBarrier p)"
  have frame: "same_frame s t" and ent: "jEntries t = filter (\<lambda>x. x \<notin> set ds) (jEntries s)"
    and late: "\<forall>d \<in> set ds. sealedThrough s < ordinal d" using assms(2) by (simp_all add: thinned_def)
  have h: "?h \<le> sealedThrough s" "planOrdinary p = filter (\<lambda>e. ordinal e \<le> ?h) (jEntries s)"
    using assms(1) Some by (simp_all add: flush_inv_def)
  have "\<not> ordinal entry \<le> ?h" using h(1) assms(3,4) by (simp add: core_inv_def ord_inv_def)
  moreover have "filter (\<lambda>e. ordinal e \<le> ?h) (jEntries t) = planOrdinary p"
    unfolding ent h(2) filter_filter using late h(1) by (intro filter_cong) force+
  ultimately show ?thesis
    using assms(1) Some frame by (simp add: flush_inv_def same_frame_def)
qed

lemma replaces_state:
  assumes inv: "state_inv s" "core_inv s" and t: "thinned ds k s t" and rep: "replaces key (entry_of env ev key s) ds s cs"
  shows "state_inv (finish (entry_of env ev key s) v cs t)"
  using rep unfolding replaces_def
proof (elim disjE exE conjE)
  have ent: "jEntries t = filter (\<lambda>x. x \<notin> set ds) (jEntries s)" and sealed: "sealedThrough t = sealedThrough s"
    using t by (simp_all add: thinned_def same_frame_def)
  have wf: "wf_map (currentState s)"
    and old: "\<And>k e. (k, e) \<in> set (currentState s) \<Longrightarrow> e \<in> set (jEntries s) \<and> eventClass (entryEvent e) = StateClass \<and>
       sealedThrough s < ordinal e \<and> entryKey e = Some k" using inv(1) by (auto simp: state_inv_def)
  {
    fix x
    assume x: "key = Some x" "eventClass (entryEvent (entry_of env ev key s)) = StateClass"
      "cs = js_set x (entry_of env ev key s) (currentState s)" "set ds = {d. js_get (currentState s) x = Some d}"
    have "e \<notin> set ds" if "(k', e) \<in> set (currentState s)" "k' \<noteq> x" for k' e
      using old [OF that(1)] old [OF map_of_SomeD, of x e] that(2) x(4) by auto
    moreover have "sealedThrough s < nextOrdinal s" using inv(2) by (simp add: core_inv_def ord_inv_def)
    ultimately show ?thesis
      using x(2) by (auto simp: state_inv_def x(1,3) wf set_js_set [OF wf] ent sealed entry_of_def dest: old)
  next
    assume d: "cs = currentState s" "\<forall>d \<in> set ds. eventClass (entryEvent d) = Diagnostic"
    have "e \<notin> set ds" if "(k', e) \<in> set (currentState s)" for k' e using old [OF that] d(2) by auto
    then show ?thesis using wf by (auto simp: state_inv_def d(1) ent sealed dest: old)
  }
qed

lemma append_log:
  assumes log: "log_inv s" and s: "sysJournal s = j" and t: "thinned ds k j t" and core: "core_inv j"
    and e: "entryEvent entry = ev" "ordinal entry = n"
  shows "log_inv (s\<lparr>sysJournal := finish entry v cs t, sysAccepted := sysAccepted s @ [(n, ev)]\<rparr>)"
proof -
  have ent: "jEntries t = filter (\<lambda>x. x \<notin> set ds) (jEntries j)" and gaps: "gaps t = gaps j" and ct: "core_inv t"
    and auth: "\<forall>d \<in> set ds. eventClass (entryEvent d) \<noteq> Authoritative"
    and cnt: "open_count t = open_count j + int k" "counts t Diagnostic = counts j Diagnostic - int k"
    using t by (simp_all add: thinned_def same_frame_def)
  have "of_class Authoritative (pendingEvents t) = of_class Authoritative (pendingEvents j)"
    unfolding pendingEvents_def of_class_pending ent filter_filter
    using auth by (intro arg_cong [where f = "map pair_of"] filter_cong) auto
  moreover have "int (length (of_class Diagnostic (pendingEvents t))) = int (length (of_class Diagnostic (pendingEvents j))) - int k"
    using counts_pending [of t Diagnostic] counts_pending [of j Diagnostic] cnt core ct by (simp add: core_inv_def)
  moreover have "pendingEvents (finish entry v cs t) = pendingEvents t @ [(n, ev)]" using e by (simp add: pendingEvents_def)
  moreover have "open_count (finish entry v cs t) = open_count t" by (simp add: open_count_def)
  ultimately show ?thesis
    using log cnt gaps by (simp add: log_inv_def s deliveredEntries_def droppedCount_def)
qed

lemma validator_frame [simp]:
  "core_inv (j\<lparr>validator := v\<rparr>) = core_inv j" "state_inv (j\<lparr>validator := v\<rparr>) = state_inv j"
  "bounds_inv (j\<lparr>validator := v\<rparr>) = bounds_inv j" "flush_inv p (j\<lparr>validator := v\<rparr>) = flush_inv p j"
  "pendingEvents (j\<lparr>validator := v\<rparr>) = pendingEvents j" "open_count (j\<lparr>validator := v\<rparr>) = open_count j"
  by (simp_all add: core_inv_def inv_defs state_inv_def bounds_inv_def flush_inv_def pendingEvents_def open_count_def
      split: option.split)

lemma active_frame [simp]:
  "core_inv (j\<lparr>flushActive := a\<rparr>) = core_inv j" "state_inv (j\<lparr>flushActive := a\<rparr>) = state_inv j"
  "bounds_inv (j\<lparr>flushActive := a\<rparr>) = bounds_inv j"
  "pendingEvents (j\<lparr>flushActive := a\<rparr>) = pendingEvents j" "open_count (j\<lparr>flushActive := a\<rparr>) = open_count j"
  by (simp_all add: core_inv_def inv_defs state_inv_def bounds_inv_def pendingEvents_def open_count_def)

lemma append_inv:
  assumes inv: "jsys_inv l s"
  shows "jsys_inv l (jhappen (JAppend env h value key) s)"
proof -
  let ?j = "sysJournal s"
  have parts: "core_inv ?j" "state_inv ?j" "bounds_inv ?j" "flush_inv (sysPlan s) ?j" "log_inv s" "order_inv s"
    using inv by (simp_all add: jsys_inv_def)
  have same: "jsys_inv l (s\<lparr>sysJournal := ?j\<lparr>validator := v\<rparr>\<rparr>)" for v
    using inv by (simp add: jsys_inv_def log_inv_def order_inv_def deliveredEntries_def droppedCount_def)
  show ?thesis
  proof (cases "validateRunEvent (jsonSize env) h value DEFAULT_RUN_EVENT_LIMITS")
    case (Inl code)
    with same [of "validator ?j"] show ?thesis by (simp add: append_value_def accepted_of_def)
  next
    case (Inr ev)
    obtain r j' where app: "appendEvent env ev key ?j = (r, j')" by (cases "appendEvent env ev key ?j")
    from parts(1,2) app show ?thesis
    proof (cases rule: appendEvent_cases)
      case (refused code v)
      with Inr app same [of v] show ?thesis by (simp add: append_value_def accepted_of_def)
    next
      case (accepted v cs ds k t)
      let ?e = "entry_of env ev key ?j"
      have o: "ordinal ?e = nextOrdinal ?j" "nextOrdinal ?j = nextOrdinal t" "jLimits t = jLimits ?j" "core_inv t"
        "flushedThrough t = flushedThrough ?j"
        using accepted(3) by (simp_all add: entry_of_def thinned_def same_frame_def)
      have "core_inv j'" using o accepted(2) by (simp add: finish_core)
      moreover have "state_inv j'" using replaces_state [OF parts(2,1) accepted(3,5)] accepted(2) by simp
      moreover have "bounds_inv j'" using thinned_bounds [OF parts(3) accepted(3,4)] accepted(2) by simp
      moreover have "flush_inv (sysPlan s) j'" using thinned_flush [OF parts(4) accepted(3) parts(1) o(1)] accepted(2) by simp
      moreover have "log_inv (s\<lparr>sysJournal := j', sysAccepted := sysAccepted s @ [(nextOrdinal ?j, ev)]\<rparr>)"
        using append_log [OF parts(5) refl accepted(3) parts(1), of ?e ev "nextOrdinal ?j"] accepted(2)
        by (simp add: entry_of_def)
      moreover have "order_inv (s\<lparr>sysJournal := j', sysAccepted := sysAccepted s @ [(nextOrdinal ?j, ev)]\<rparr>)"
        using parts(6) accepted(2) o(5) by (simp add: order_inv_def)
      ultimately show ?thesis
        using inv Inr app accepted(1,2) o(3) by (simp add: append_value_def accepted_of_def jsys_inv_def)
    qed
  qed
qed

section \<open>Barriers\<close>

text \<open>A barrier fails with the gap still open, or seals the open gap, if any.\<close>

lemma barrier_cases:
  assumes "barrier env s = (r, s')"
  obtains (failed) g og gp where "openGap s = Some g" "og = g \<or> (\<exists>e. og = g\<lparr>gapEvent := Some e\<rparr>)"
      "s' = s\<lparr>currentState := [], gapProducer := gp, openGap := Some og\<rparr>"
  | (nogap) "openGap s = None"
      "s' = s\<lparr>currentState := [], nextBarrierToken := nextBarrierToken s + 1,
         sealedThrough := max (sealedThrough s) (nextOrdinal s - 1),
         barriers := js_set (nextBarrierToken s) (nextOrdinal s - 1) (barriers s)\<rparr>"
  | (sealed) g e gp bytes where "openGap s = Some g" "0 \<le> bytes" "bytes \<le> DIAGNOSTIC_GAP_RESERVATION_BYTES"
      "s' = s\<lparr>currentState := [], gapProducer := gp, pendingBytes := pendingBytes s + (bytes - gapBytes g),
         gaps := gaps s @ [g\<lparr>gapEvent := Some e, gapBytes := bytes\<rparr>], openGap := None,
         nextBarrierToken := nextBarrierToken s + 1, sealedThrough := max (sealedThrough s) (nextOrdinal s - 1),
         barriers := js_set (nextBarrierToken s) (nextOrdinal s - 1) (barriers s)\<rparr>"
proof (cases "openGap s")
  case None
  with assms show thesis by (intro nogap) (auto simp: barrier_def sealGap_def Let_def)
next
  case (Some g)
  obtain eo gp where emit: "emit (jsonSize env) (gapEnv env) (gap_heap (s\<lparr>currentState := []\<rparr>) g) Diagnostic
      (u ''journal.diagnostic-gap'') (Ref 0) None (Ref 1) DEFAULT_RUN_EVENT_LIMITS (gapProducer s) = (eo, gp)"
    by (metis surj_pair)
  show thesis
  proof (cases eo)
    case None
    with assms Some emit show thesis by (intro failed [of g g gp]) (auto simp: barrier_def sealGap_def)
  next
    case e: (Some e)
    show thesis
    proof (cases "int (eventBytes env e) > DIAGNOSTIC_GAP_RESERVATION_BYTES")
      case True
      with assms Some emit e show thesis
        by (intro failed [of g "g\<lparr>gapEvent := Some e\<rparr>" gp]) (auto simp: barrier_def sealGap_def Let_def)
    next
      case False
      with assms Some emit e show thesis
        by (intro sealed [of g "int (eventBytes env e)" e gp]) (auto simp: barrier_def sealGap_def Let_def)
    qed
  qed
qed

lemma set_js_set_subset: "set (js_set k v m) \<subseteq> insert (k, v) (set m)"
  by (induction m) auto

lemma failed_barrier_core:
  assumes "core_inv s" "openGap s = Some g" "og = g \<or> (\<exists>e. og = g\<lparr>gapEvent := Some e\<rparr>)"
  shows "core_inv (s\<lparr>currentState := cs, gapProducer := gp, openGap := Some og\<rparr>)"
proof -
  have "gapBytes og = gapBytes g" "gapOrdinal og = gapOrdinal g" using assms(3) by auto
  with assms(1,2) show ?thesis by (simp add: core_inv_def inv_defs)
qed

lemma seal_core:
  assumes core: "core_inv s" and g: "gs = [] \<and> openGap s = None \<and> b = 0 \<or>
     (\<exists>g e bytes. openGap s = Some g \<and> gs = [g\<lparr>gapEvent := Some e, gapBytes := bytes\<rparr>] \<and> b = bytes - gapBytes g)"
    and s': "s' = s\<lparr>currentState := [], gapProducer := gp, pendingBytes := pendingBytes s + b,
         gaps := gaps s @ gs, openGap := None, nextBarrierToken := nextBarrierToken s + 1, sealedThrough := max (sealedThrough s) (nextOrdinal s - 1),
         barriers := js_set (nextBarrierToken s) (nextOrdinal s - 1) (barriers s)\<rparr>"
  shows "core_inv s'"
proof -
  have top: "max (sealedThrough s) (nextOrdinal s - 1) = nextOrdinal s - 1" "flushedThrough s \<le> nextOrdinal s - 1"
    "\<forall>g. openGap s = Some g \<longrightarrow> flushedThrough s < gapOrdinal g \<and> gapOrdinal g < nextOrdinal s \<and> sealedThrough s < gapOrdinal g"
    using core by (auto simp: core_inv_def ord_inv_def gap_inv_def)
  have "ord_inv s'" using core top by (auto simp: core_inv_def ord_inv_def s')
  moreover have "acct_inv s'" using core g by (auto simp: core_inv_def acct_inv_def gap_sum_def s')
  moreover have "gap_inv s'"
  proof -
    have fresh: "gapOrdinal g \<notin> gapOrdinal ` set (gaps s)" if "openGap s = Some g" for g
    proof
      assume "gapOrdinal g \<in> gapOrdinal ` set (gaps s)"
      then have "gapOrdinal g \<le> sealedThrough s" using core by (auto simp: core_inv_def gap_inv_def)
      then show False using top(3) that by auto
    qed
    have old: "distinct (map gapOrdinal (gaps s))"
      "\<forall>g \<in> set (gaps s). flushedThrough s < gapOrdinal g \<and> gapOrdinal g \<le> nextOrdinal s - 1 \<and>
        gapOrdinal g \<notin> ordinal ` set (jEntries s) \<and> gapEvent g \<noteq> None"
      "\<forall>g. openGap s = Some g \<longrightarrow> gapOrdinal g \<notin> ordinal ` set (jEntries s)"
      using core top(1) by (auto simp: core_inv_def gap_inv_def ord_inv_def)
    from g show ?thesis
    proof (elim disjE exE conjE)
      assume "gs = []"
      with old top show ?thesis by (simp add: gap_inv_def s')
    next
      fix g e bytes
      assume "openGap s = Some g" "gs = [g\<lparr>gapEvent := Some e, gapBytes := bytes\<rparr>]"
      with old top fresh show ?thesis by (simp add: gap_inv_def s')
    qed
  qed
  moreover have "barrier_inv s'"
    using core set_js_set_subset [of "nextBarrierToken s" "nextOrdinal s - 1" "barriers s"] top(1)
    by (fastforce simp: core_inv_def barrier_inv_def ord_inv_def s')
  ultimately show ?thesis by (simp add: core_inv_def)
qed

lemma barrier_keeps:
  assumes inv: "jsys_inv l s"
  shows "jsys_inv l (jhappen (JBarrier env) s)"
proof -
  let ?j = "sysJournal s"
  have parts: "core_inv ?j" "state_inv ?j" "bounds_inv ?j" "flush_inv (sysPlan s) ?j" "log_inv s" "order_inv s" "jLimits ?j = l"
    using inv by (simp_all add: jsys_inv_def)
  obtain r j' where b: "barrier env ?j = (r, j')" by (cases "barrier env ?j")
  have late: "sealedThrough ?j < gapOrdinal g" "gapBytes g = DIAGNOSTIC_GAP_RESERVATION_BYTES" if "openGap ?j = Some g" for g
    using parts(1) that by (simp_all add: core_inv_def gap_inv_def acct_inv_def)
  have tok: "t \<noteq> nextBarrierToken ?j" if "js_get (barriers ?j) t = Some h" for t h
    using parts(1) map_of_SomeD [OF that] by (auto simp: core_inv_def barrier_inv_def)
  from b have new: "core_inv j' \<and> state_inv j' \<and> bounds_inv j' \<and> flush_inv (sysPlan s) j' \<and> jLimits j' = l \<and>
      jEntries j' = jEntries ?j \<and> flushedThrough j' = flushedThrough ?j \<and>
      sum_list (map gapCount (gaps j')) + open_count j' = sum_list (map gapCount (gaps ?j)) + open_count ?j"
  proof (cases rule: barrier_cases)
    case (failed g og gp)
    have "gapCount og = gapCount g" using failed(2) by auto
    then show ?thesis
      using failed_barrier_core [OF parts(1) failed(1,2)] parts(2-7) failed(1,3)
      by (simp add: state_inv_def bounds_inv_def flush_inv_def open_count_def split: option.splits)
  next
    case nogap
    have "core_inv j'"
      by (rule seal_core [OF parts(1), where gs = "[]" and b = 0 and gp = "gapProducer ?j"], simp add: nogap,
          rule journal.equality, simp_all add: nogap)
    with parts(2-7) nogap show ?thesis
      by (auto simp: state_inv_def bounds_inv_def flush_inv_def open_count_def le_max_iff_disj js_get_set
          split: option.splits dest: tok)
  next
    case (sealed g e gp bytes)
    let ?g = "g\<lparr>gapEvent := Some e, gapBytes := bytes\<rparr>"
    have "core_inv j'"
      by (rule seal_core [OF parts(1), where gs = "[?g]" and b = "bytes - gapBytes g" and gp = gp]) (use sealed in auto)
    moreover have "bounds_inv j'" using parts(3) sealed(2-4) late(2) [OF sealed(1)] by (simp add: bounds_inv_def)
    moreover have "flush_inv (sysPlan s) j'"
      using parts(4) sealed(4) late(1) [OF sealed(1)] by (auto simp: flush_inv_def le_max_iff_disj js_get_set
          split: option.splits dest: tok)
    ultimately show ?thesis
      using parts(7) sealed(1,4) by (simp add: state_inv_def open_count_def)
  qed
  then have "log_inv (s\<lparr>sysJournal := j'\<rparr>)" "order_inv (s\<lparr>sysJournal := j'\<rparr>)"
    using parts(5,6) by (simp_all add: log_inv_def order_inv_def deliveredEntries_def droppedCount_def pendingEvents_def)
  with new b show ?thesis by (simp add: jsys_inv_def)
qed

section \<open>Flushing\<close>

lemma flushBegin_keeps:
  assumes inv: "jsys_inv l s"
  shows "jsys_inv l (jhappen (JFlushBegin b) s)"
proof (cases "flushBegin b (sysJournal s)")
  case (Pair plan j)
  show ?thesis
  proof (cases plan)
    case None
    then have "j = sysJournal s" using Pair by (auto simp: flushBegin_def split: if_splits)
    with None Pair inv show ?thesis by simp
  next
    case (Some p)
    let ?j = "sysJournal s"
    have p: "js_get (barriers ?j) (token b) = Some (highWaterMark b)" "flushedThrough ?j \<le> highWaterMark b"
      "highWaterMark b < nextOrdinal ?j"
      "p = \<lparr>planBarrier = b, planOrdinary = filter (\<lambda>e. ordinal e \<le> highWaterMark b) (jEntries ?j),
         planGaps = filter (\<lambda>g. gapOrdinal g \<le> highWaterMark b) (gaps ?j)\<rparr>" "j = ?j\<lparr>flushActive := True\<rparr>"
      using Pair Some by (auto simp: flushBegin_def split: if_splits)
    have "highWaterMark b \<le> sealedThrough ?j"
      using inv map_of_SomeD [OF p(1)] by (auto simp: jsys_inv_def core_inv_def barrier_inv_def)
    then have "flush_inv (Some p) j" using p by (simp add: flush_inv_def)
    moreover have "core_inv j" "state_inv j" "bounds_inv j" "jLimits j = l"
      "log_inv (s\<lparr>sysJournal := j, sysPlan := Some p\<rparr>)" "order_inv (s\<lparr>sysJournal := j, sysPlan := Some p\<rparr>)"
      using inv p(5) by (simp_all add: jsys_inv_def log_inv_def order_inv_def deliveredEntries_def droppedCount_def)
    ultimately show ?thesis using Pair Some by (simp add: jsys_inv_def)
  qed
qed

lemma sum_list_filter_split:
  "sum_list (map f (filter P xs)) + sum_list (map f (filter (\<lambda>x. \<not> P x) xs)) = (sum_list (map f xs) :: int)"
  by (induction xs) auto

lemma length_filter_split:
  "length (filter Q (filter P xs)) + length (filter Q (filter (\<lambda>x. \<not> P x) xs)) = length (filter Q xs)"
  by (induction xs) auto

lemma filter_mem_filter: "filter (\<lambda>x. x \<in> set (filter P xs)) xs = filter P xs"
  "filter (\<lambda>x. x \<notin> set (filter P xs)) xs = filter (\<lambda>x. \<not> P x) xs"
  by (rule filter_cong; simp)+

lemma filter_prefix:
  fixes f :: "'a \<Rightarrow> int"
  shows "sorted_wrt (<) (map f xs) \<Longrightarrow> filter (\<lambda>x. f x \<le> h) xs @ filter (\<lambda>x. \<not> f x \<le> h) xs = xs"
proof (induction xs)
  case (Cons x xs)
  show ?case
  proof (cases "f x \<le> h")
    case False
    with Cons.prems have "\<forall>y \<in> set xs. \<not> f y \<le> h" by auto
    with False show ?thesis by (simp add: filter_empty_conv)
  qed (use Cons in simp)
qed simp

text \<open>The journal after the plan of all entries and gaps up to \<open>h\<close> was delivered.\<close>

definition flushed :: "int \<Rightarrow> journal \<Rightarrow> journal" where
  "flushed h j = j\<lparr>flushActive := False,
     pendingBytes := pendingBytes j - sum_list (map entryBytes (filter (\<lambda>e. ordinal e \<le> h) (jEntries j))) -
       sum_list (map gapBytes (filter (\<lambda>g. gapOrdinal g \<le> h) (gaps j))),
     counts := (\<lambda>c. counts j c - int (length (filter (\<lambda>e. eventClass (entryEvent e) = c) (filter (\<lambda>e. ordinal e \<le> h) (jEntries j))))),
     jEntries := filter (\<lambda>e. \<not> ordinal e \<le> h) (jEntries j), gaps := filter (\<lambda>g. \<not> gapOrdinal g \<le> h) (gaps j),
     flushedThrough := h, barriers := filter (\<lambda>(_, k). \<not> k \<le> h) (barriers j)\<rparr>"

lemma flushEnd_flushed:
  assumes "flush_inv (Some p) j"
  shows "flushEnd p True j = flushed (highWaterMark (planBarrier p)) j"
proof -
  have plan: "planOrdinary p = filter (\<lambda>e. ordinal e \<le> highWaterMark (planBarrier p)) (jEntries j)"
    "planGaps p = filter (\<lambda>g. gapOrdinal g \<le> highWaterMark (planBarrier p)) (gaps j)"
    using assms by (simp_all add: flush_inv_def)
  show ?thesis
    by (simp only: flushEnd_def flushed_def Let_def plan filter_mem_filter not_True_eq_False if_False)
qed

lemma flushed_core:
  assumes core: "core_inv j" and h: "h \<le> sealedThrough j"
  shows "core_inv (flushed h j)"
proof -
  have "ord_inv (flushed h j)" using core h by (auto simp: core_inv_def ord_inv_def flushed_def sorted_wrt_filter_map)
  moreover have "acct_inv (flushed h j)"
  proof -
    have "pendingBytes (flushed h j) = sum_list (map entryBytes (jEntries (flushed h j))) + gap_sum gapBytes (flushed h j)"
      using core sum_list_filter_split [of entryBytes "\<lambda>e. ordinal e \<le> h" "jEntries j"]
        sum_list_filter_split [of gapBytes "\<lambda>g. gapOrdinal g \<le> h" "gaps j"]
      by (simp add: core_inv_def acct_inv_def gap_sum_def flushed_def)
    moreover have "counts (flushed h j) c = int (length (filter (\<lambda>e. eventClass (entryEvent e) = c) (jEntries (flushed h j))))" for c
    proof -
      have "counts j c = int (length (filter (\<lambda>e. eventClass (entryEvent e) = c) (jEntries j)))"
        using core by (simp add: core_inv_def acct_inv_def)
      then show ?thesis
        using length_filter_split [of "\<lambda>e. eventClass (entryEvent e) = c" "\<lambda>e. ordinal e \<le> h" "jEntries j"]
        unfolding flushed_def by (simp del: filter_filter)
    qed
    ultimately show ?thesis using core by (simp add: core_inv_def acct_inv_def flushed_def)
  qed
  moreover have "gap_inv (flushed h j)"
    using core by (auto simp: core_inv_def gap_inv_def flushed_def distinct_map inj_on_def)
  moreover have "barrier_inv (flushed h j)" using core by (auto simp: core_inv_def barrier_inv_def flushed_def)
  ultimately show ?thesis by (simp add: core_inv_def)
qed

lemma flushed_log:
  assumes inv: "jsys_inv l s" and plan: "sysPlan s = Some p" and h: "h = highWaterMark (planBarrier p)"
  shows "log_inv (s\<lparr>sysJournal := flushed h (sysJournal s), sysPlan := None, sysDelivered := sysDelivered s @ [p]\<rparr>)"
proof -
  let ?j = "sysJournal s"
  have p: "planOrdinary p = filter (\<lambda>e. ordinal e \<le> h) (jEntries ?j)" "planGaps p = filter (\<lambda>g. gapOrdinal g \<le> h) (gaps ?j)"
    and srt: "sorted_wrt (<) (map ordinal (jEntries ?j))" and log: "log_inv s"
    using inv plan h by (simp_all add: jsys_inv_def flush_inv_def core_inv_def ord_inv_def)
  have "map pair_of (planOrdinary p) @ pendingEvents (flushed h ?j) = pendingEvents ?j"
    using filter_prefix [OF srt, of h] by (simp add: p(1) pendingEvents_def flushed_def flip: map_append)
  then have "of_class c (map pair_of (planOrdinary p)) @ of_class c (pendingEvents (flushed h ?j)) = of_class c (pendingEvents ?j)" for c
    by (metis of_class_simps(2))
  note split = this [of Authoritative] arg_cong [OF this [of Diagnostic], of length]
  have "sum_list (map gapCount (planGaps p)) + sum_list (map gapCount (gaps (flushed h ?j))) = sum_list (map gapCount (gaps ?j))"
    using sum_list_filter_split [of gapCount "\<lambda>g. gapOrdinal g \<le> h" "gaps ?j"] by (simp add: p(2) flushed_def)
  moreover have "open_count (flushed h ?j) = open_count ?j" by (simp add: open_count_def flushed_def)
  ultimately show ?thesis
    using log split by (simp add: log_inv_def deliveredEntries_def droppedCount_def)
qed

lemma planBatch_fst: "fst ` set (planBatch p) = ordinal ` set (planOrdinary p) \<union> gapOrdinal ` set (planGaps p)"
  by (auto simp: planBatch_def image_image image_Un)

lemma distinct_map_sort_key: "distinct (map f xs) \<Longrightarrow> distinct (map f (sort_key f xs))"
  by (simp add: distinct_map)

lemma planBatch_sorted:
  assumes "core_inv j" "planOrdinary p = filter P (jEntries j)" "planGaps p = filter Q (gaps j)"
  shows "sorted_wrt (<) (map fst (planBatch p))"
proof -
  have "distinct (map ordinal (jEntries j))" "distinct (map gapOrdinal (gaps j))"
    using assms(1) strict_sorted_iff [of "map ordinal (jEntries j)"] by (auto simp: core_inv_def ord_inv_def gap_inv_def)
  then have "distinct (map ordinal (planOrdinary p))" "distinct (map gapOrdinal (planGaps p))"
    by (simp_all add: assms(2,3) distinct_map_filter)
  moreover have "ordinal ` set (planOrdinary p) \<inter> gapOrdinal ` set (planGaps p) = {}"
    using assms by (force simp: core_inv_def gap_inv_def)
  ultimately have "distinct (map fst (map pair_of (planOrdinary p) @ map (\<lambda>g. (gapOrdinal g, the (gapEvent g))) (planGaps p)))"
    by (simp add: o_def)
  then have "distinct (map fst (planBatch p))" unfolding planBatch_def by (rule distinct_map_sort_key)
  moreover have "sorted (map fst (planBatch p))" by (simp add: planBatch_def)
  ultimately show ?thesis by (simp add: strict_sorted_iff)
qed

lemma flushed_order:
  assumes inv: "jsys_inv l s" and plan: "sysPlan s = Some p" and h: "h = highWaterMark (planBarrier p)"
  shows "order_inv (s\<lparr>sysJournal := flushed h (sysJournal s), sysPlan := None, sysDelivered := sysDelivered s @ [p]\<rparr>)"
proof -
  let ?j = "sysJournal s"
  have p: "planOrdinary p = filter (\<lambda>e. ordinal e \<le> h) (jEntries ?j)" "planGaps p = filter (\<lambda>g. gapOrdinal g \<le> h) (gaps ?j)"
    and core: "core_inv ?j" and o: "order_inv s" and le: "flushedThrough ?j \<le> h"
    using inv plan h by (simp_all add: jsys_inv_def flush_inv_def)
  have new: "flushedThrough ?j < fst b \<and> fst b \<le> h" if "b \<in> set (planBatch p)" for b
  proof -
    have "fst b \<in> ordinal ` set (planOrdinary p) \<union> gapOrdinal ` set (planGaps p)" using that planBatch_fst by blast
    then show ?thesis using core by (auto simp: p core_inv_def ord_inv_def gap_inv_def)
  qed
  have "sorted_wrt (<) (map fst (planBatch p))" using core p by (rule planBatch_sorted)
  moreover have "sorted_wrt (<) (map fst (concat (map planBatch (sysDelivered s))))"
    "\<forall>q \<in> set (sysDelivered s). \<forall>b \<in> set (planBatch q). fst b \<le> flushedThrough ?j" using o by (simp_all add: order_inv_def)
  ultimately show ?thesis
    using new le by (fastforce simp: order_inv_def flushed_def sorted_wrt_append)
qed

lemma flushEnd_keeps:
  assumes inv: "jsys_inv l s"
  shows "jsys_inv l (jhappen (JFlushEnd ok) s)"
proof (cases "sysPlan s")
  case None
  with inv show ?thesis by simp
next
  case (Some p)
  let ?j = "sysJournal s" and ?h = "highWaterMark (planBarrier p)"
  have parts: "core_inv ?j" "state_inv ?j" "bounds_inv ?j" "flush_inv (Some p) ?j" "log_inv s" "order_inv s" "jLimits ?j = l"
    using inv Some by (simp_all add: jsys_inv_def)
  show ?thesis
  proof (cases ok)
    case False
    then show ?thesis
      using parts Some by (simp add: flushEnd_def jsys_inv_def flush_inv_def log_inv_def order_inv_def deliveredEntries_def droppedCount_def)
  next
    case True
    have h: "?h \<le> sealedThrough ?j" using parts(4) by (simp add: flush_inv_def)
    note core = flushed_core [OF parts(1) h]
    have "state_inv (flushed ?h ?j)" using parts(2) h by (fastforce simp: state_inv_def flushed_def)
    moreover have "bounds_inv (flushed ?h ?j)"
    proof -
      have "0 \<le> sum_list (map entryBytes (filter (\<lambda>e. ordinal e \<le> ?h) (jEntries ?j)))"
        "0 \<le> sum_list (map gapBytes (filter (\<lambda>g. gapOrdinal g \<le> ?h) (gaps ?j)))"
        using parts(3) by (auto intro!: sum_list_nonneg simp: bounds_inv_def)
      then show ?thesis using parts(3) by (simp add: bounds_inv_def flushed_def)
    qed
    ultimately show ?thesis
      using core flushed_log [OF inv Some refl] flushed_order [OF inv Some refl] parts(7) Some True
      by (simp add: flushEnd_flushed [OF parts(4)] jsys_inv_def flush_inv_def flushed_def)
  qed
qed

section \<open>Theorems\<close>

definition fresh :: "journal \<Rightarrow> bool" where
  "fresh j \<longleftrightarrow> (\<exists>i r gp v l. createJournal i r gp v l = Some j)"

lemma fresh_inv: "fresh j \<Longrightarrow> jsys_inv (jLimits j) (jstart j)"
  by (auto simp: fresh_def createJournal_def jstart_def jsys_inv_def core_inv_def inv_defs state_inv_def bounds_inv_def flush_inv_def
      log_inv_def order_inv_def deliveredEntries_def droppedCount_def pendingEvents_def open_count_def split: if_splits)

interpretation journals: event_machine jstart jhappen "\<lambda>j _ s. fresh j \<longrightarrow> jsys_inv (jLimits j) s"
proof
  show "fresh j \<longrightarrow> jsys_inv (jLimits j) (jstart j)" for j by (simp add: fresh_inv)
next
  fix j s ev
  assume "fresh j \<longrightarrow> jsys_inv (jLimits j) s"
  then show "fresh j \<longrightarrow> jsys_inv (jLimits j) (jhappen ev s)"
    using append_inv barrier_keeps flushBegin_keeps flushEnd_keeps by (cases ev) blast+
qed

lemma jrun_inv:
  assumes "createJournal i r gp v l = Some j"
  shows "jsys_inv l (jrun j h)"
proof -
  have "fresh j" using assms unfolding fresh_def by blast
  moreover have "jLimits j = l" using assms by (auto simp: createJournal_def split: if_splits)
  ultimately show ?thesis using journals.run_keeps [of j h] by (simp add: jrun_def)
qed

text \<open>A journal with an authoritative event, a barrier and a flush that fails at first.\<close>

definition demo_id :: "string \<Rightarrow> js_string" where
  "demo_id kind = u (kind @ '':00000000-0000-4000-8000-000000000001'')"

definition demo_event_heap :: heap where
  "demo_event_heap =
     [plain_object_of [(''invocationId'', Str (demo_id ''invocation'')), (''runId'', Str (demo_id ''run''))],
      candidate (demo_id ''event'') (demo_id ''producer'') (js_int 0) 0 Authoritative (u ''run.started'') (js_int 1) None
        (Ref 0) None Null]"

definition demo_journal :: journal where
  "demo_journal = the (createJournal (demo_id ''invocation'') (demo_id ''run'')
     \<lparr>ownId = demo_id ''producer'', ownEpoch = js_int 0, issuedIds = createRecent 4096, nextSeq = 0, lastTime = 0,
       uuidDraws = 0, clockReads = 0\<rparr>
     (the (createValidator DEFAULT_RUN_EVENT_LIMITS DEFAULT_RUN_EVENT_STREAM_LIMITS)) DEFAULT_RUN_EVENT_JOURNAL_LIMITS)"

definition demo_jenv :: jenv where
  "demo_jenv = \<lparr>jsonSize = (\<lambda>_. 10), eventBytes = (\<lambda>_. 300),
     gapEnv = \<lparr>producerUuid = (\<lambda>_. u ''00000000-0000-4000-8000-000000000002''), monotonicNow = (\<lambda>n. js_int (int n)), wallNow = None\<rparr>\<rparr>"

definition demo_jhistory :: "jevent list" where
  "demo_jhistory = [JAppend demo_jenv demo_event_heap (Ref 1) None, JBarrier demo_jenv,
     JFlushBegin \<lparr>token = 0, highWaterMark = 0\<rparr>, JFlushEnd False, JFlushBegin \<lparr>token = 0, highWaterMark = 0\<rparr>, JFlushEnd True]"

lemma demo_journal_created:
  "createJournal (demo_id ''invocation'') (demo_id ''run'')
     \<lparr>ownId = demo_id ''producer'', ownEpoch = js_int 0, issuedIds = createRecent 4096, nextSeq = 0, lastTime = 0,
       uuidDraws = 0, clockReads = 0\<rparr>
     (the (createValidator DEFAULT_RUN_EVENT_LIMITS DEFAULT_RUN_EVENT_STREAM_LIMITS)) DEFAULT_RUN_EVENT_JOURNAL_LIMITS = Some demo_journal"
  by (simp add: demo_journal_def createJournal_def DEFAULT_RUN_EVENT_JOURNAL_LIMITS_def MAX_SAFE_INTEGER_def)



text \<open>Every batch, and the concatenation of all delivered batches with their gap markers, is in strictly increasing ordinal
  order: what the sink sees is one ordered stream without duplicates.\<close>

theorem delivery_ordered:
  assumes "createJournal i r gp v l = Some j"
  shows "sorted_wrt (<) (map fst (concat (map planBatch (sysDelivered (jrun j h)))))"
  using jrun_inv [OF assms, of h] by (simp add: jsys_inv_def order_inv_def)

theorem delivery_ordered_witness:
  "sorted_wrt (<) (map fst (concat (map planBatch (sysDelivered (jrun demo_journal demo_jhistory)))))"
  by (rule delivery_ordered [OF demo_journal_created])





text \<open>A rejected sink loses nothing: after the sink of a flush failed, flushing the same barrier again offers exactly the same
  batch, whatever happened while the sink was awaited.\<close>

theorem failed_flush_retries:
  assumes "createJournal i r gp v l = Some j" and "sysPlan (jrun j h) = Some p"
  shows "fst (flushBegin (planBarrier p) (flushEnd p False (sysJournal (jrun j h)))) = Some p"
  using jrun_inv [OF assms(1), of h] assms(2)
  by (auto simp: jsys_inv_def flush_inv_def flushBegin_def flushEnd_def)

theorem failed_flush_retries_witness:
  "\<exists>p. sysPlan (jrun demo_journal [JBarrier demo_jenv, JFlushBegin \<lparr>token = 0, highWaterMark = -1\<rparr>]) = Some p \<and>
     fst (flushBegin (planBarrier p) (flushEnd p False (sysJournal (jrun demo_journal
       [JBarrier demo_jenv, JFlushBegin \<lparr>token = 0, highWaterMark = -1\<rparr>])))) = Some p"
proof -
  let ?h = "[JBarrier demo_jenv, JFlushBegin \<lparr>token = 0, highWaterMark = -1\<rparr>]"
  have "sysPlan (jrun demo_journal ?h) =
      Some \<lparr>planBarrier = \<lparr>token = 0, highWaterMark = -1\<rparr>, planOrdinary = [], planGaps = []\<rparr>"
    by (simp add: jrun_def jstart_def demo_journal_def createJournal_def DEFAULT_RUN_EVENT_JOURNAL_LIMITS_def
        MAX_SAFE_INTEGER_def barrier_def sealGap_def flushBegin_def)
  with failed_flush_retries [OF demo_journal_created this] show ?thesis by blast
qed


end
