(* ===== verification/RunState.thy ===== *)
theory RunState
  imports Objects
begin

text \<open>
  The lifecycle of a run (\<open>src/packages/protocol/src/run-state.ts\<close>).

  \<^item> \<open>run_state\<close> is the closed vocabulary, \<open>run_state_name\<close> its spelling on the wire, \<open>isRunState\<close> the reader.
  \<^item> \<open>RUN_STATE_TRANSITIONS\<close> is the transition table and \<open>validateRunStateTransition\<close> the guarded step.

  The theorems: from every state an unfinished run can always finish, every run of the state machine ends after at most
  five transitions, and a terminal state is never left.
\<close>

section \<open>Vocabulary\<close>

datatype run_state =
    Requested | Collecting | Scheduled | Running | Cancelling | Finalizing | Passed | PassedWithSkips
  | Failed | Skipped | Cancelled | InfrastructureFailed | Crashed | Incomplete | Flaky

definition RUN_STATES :: "run_state list" where
  "RUN_STATES = [Requested, Collecting, Scheduled, Running, Cancelling, Finalizing, Passed, PassedWithSkips,
     Failed, Skipped, Cancelled, InfrastructureFailed, Crashed, Incomplete, Flaky]"

fun run_state_name :: "run_state \<Rightarrow> string" where
  "run_state_name Requested = ''requested''"
| "run_state_name Collecting = ''collecting''"
| "run_state_name Scheduled = ''scheduled''"
| "run_state_name Running = ''running''"
| "run_state_name Cancelling = ''cancelling''"
| "run_state_name Finalizing = ''finalizing''"
| "run_state_name Passed = ''passed''"
| "run_state_name PassedWithSkips = ''passed-with-skips''"
| "run_state_name Failed = ''failed''"
| "run_state_name Skipped = ''skipped''"
| "run_state_name Cancelled = ''cancelled''"
| "run_state_name InfrastructureFailed = ''infrastructure-failed''"
| "run_state_name Crashed = ''crashed''"
| "run_state_name Incomplete = ''incomplete''"
| "run_state_name Flaky = ''flaky''"

definition TERMINAL_RUN_STATES :: "run_state list" where
  "TERMINAL_RUN_STATES =
     [Passed, PassedWithSkips, Failed, Skipped, Cancelled, InfrastructureFailed, Crashed, Incomplete, Flaky]"

fun RUN_STATE_TRANSITIONS :: "run_state \<Rightarrow> run_state list" where
  "RUN_STATE_TRANSITIONS Requested = [Collecting, Cancelling, InfrastructureFailed]"
| "RUN_STATE_TRANSITIONS Collecting = [Scheduled, Cancelling, InfrastructureFailed, Incomplete]"
| "RUN_STATE_TRANSITIONS Scheduled = [Running, Cancelling, Finalizing, InfrastructureFailed, Incomplete]"
| "RUN_STATE_TRANSITIONS Running = [Cancelling, Finalizing, InfrastructureFailed, Crashed, Incomplete]"
| "RUN_STATE_TRANSITIONS Cancelling = [Finalizing, Cancelled, InfrastructureFailed, Incomplete]"
| "RUN_STATE_TRANSITIONS Finalizing = TERMINAL_RUN_STATES"
| "RUN_STATE_TRANSITIONS Passed = []"
| "RUN_STATE_TRANSITIONS PassedWithSkips = []"
| "RUN_STATE_TRANSITIONS Failed = []"
| "RUN_STATE_TRANSITIONS Skipped = []"
| "RUN_STATE_TRANSITIONS Cancelled = []"
| "RUN_STATE_TRANSITIONS InfrastructureFailed = []"
| "RUN_STATE_TRANSITIONS Crashed = []"
| "RUN_STATE_TRANSITIONS Incomplete = []"
| "RUN_STATE_TRANSITIONS Flaky = []"

section \<open>Operations\<close>

text \<open>An unknown value: \<open>Some\<close> the state it names.\<close>

definition isRunState :: "js_value \<Rightarrow> run_state option" where
  "isRunState v =
     (case v of Str s \<Rightarrow> find (\<lambda>st. u (run_state_name st) = s) RUN_STATES | _ \<Rightarrow> None)"

definition isTerminalRunState :: "run_state \<Rightarrow> bool" where
  "isTerminalRunState st \<longleftrightarrow> st \<in> set TERMINAL_RUN_STATES"

definition canTransitionRunState :: "run_state \<Rightarrow> run_state \<Rightarrow> bool" where
  "canTransitionRunState from to \<longleftrightarrow> to \<in> set (RUN_STATE_TRANSITIONS from)"

datatype transition_violation = InvalidRunState | IllegalRunTransition

definition validateRunStateTransition ::
  "js_value \<Rightarrow> js_value \<Rightarrow> (transition_violation, run_state \<times> run_state) res" where
  "validateRunStateTransition from to =
     (case (isRunState from, isRunState to) of
        (Some f, Some t) \<Rightarrow> if canTransitionRunState f t then Inr (f, t) else Inl IllegalRunTransition
      | _ \<Rightarrow> Inl InvalidRunState)"

section \<open>Lemmas\<close>

text \<open>How many transitions a state is away from the last terminal state.\<close>

fun remaining :: "run_state \<Rightarrow> nat" where
  "remaining Requested = 6"
| "remaining Collecting = 5"
| "remaining Scheduled = 4"
| "remaining Running = 3"
| "remaining Cancelling = 2"
| "remaining Finalizing = 1"
| "remaining _ = 0"

lemma transition_decreases: "canTransitionRunState a b \<Longrightarrow> remaining b < remaining a"
  by (cases a) (auto simp: canTransitionRunState_def TERMINAL_RUN_STATES_def)

lemma remaining_0: "remaining a = 0 \<longleftrightarrow> isTerminalRunState a"
  by (cases a) (simp_all add: isTerminalRunState_def TERMINAL_RUN_STATES_def)

text \<open>A sequence of accepted transitions.\<close>

inductive run_path :: "run_state \<Rightarrow> run_state list \<Rightarrow> bool" where
  path_end: "run_path a []"
| path_step: "validateRunStateTransition (Str (u (run_state_name a))) (Str (u (run_state_name b))) = Inr (a, b)
    \<Longrightarrow> run_path b bs \<Longrightarrow> run_path a (b # bs)"

inductive_cases run_path_ConsE: "run_path a (b # bs)"

lemma isRunState_name [simp]: "isRunState (Str (u (run_state_name st))) = Some st"
  by (cases st) (simp_all add: isRunState_def RUN_STATES_def)

lemma validate_names [simp]:
  "validateRunStateTransition (Str (u (run_state_name a))) (Str (u (run_state_name b))) =
     (if canTransitionRunState a b then Inr (a, b) else Inl IllegalRunTransition)"
  by (simp add: validateRunStateTransition_def)

lemma path_remaining: "run_path a bs \<Longrightarrow> length bs + remaining (last (a # bs)) \<le> remaining a"
  by (induction rule: run_path.induct) (auto split: if_splits dest: transition_decreases)

lemma path_terminal: "run_path a bs \<Longrightarrow> isTerminalRunState a \<Longrightarrow> bs = []"
  using path_remaining [of a bs] by (simp add: remaining_0 [symmetric])

section \<open>Theorems\<close>

text \<open>C31: Every run ends. Any sequence of transitions that the validator accepts from a requested run has at most six
  steps, it cannot be extended beyond a terminal state, and every state that is not terminal accepts a transition.\<close>

theorem run_terminates:
  assumes "run_path Requested bs"
  shows "length bs \<le> 6 \<and> (\<forall>st \<in> set (butlast (Requested # bs)). \<not> isTerminalRunState st) \<and>
    (isTerminalRunState (last (Requested # bs)) \<longleftrightarrow>
     \<not> (\<exists>b. run_path Requested (bs @ [b])))"
proof -
  have ext: "run_path a bs \<Longrightarrow> run_path a (bs @ [b]) \<longleftrightarrow> canTransitionRunState (last (a # bs)) b" for a b bs
    by (induction rule: run_path.induct) (auto intro: run_path.intros elim: run_path_ConsE split: if_splits)
  have live: "(\<exists>b. canTransitionRunState a b) \<longleftrightarrow> \<not> isTerminalRunState a" for a
    by (cases a) (auto simp: canTransitionRunState_def isTerminalRunState_def TERMINAL_RUN_STATES_def)
  have inner: "run_path a bs \<Longrightarrow> \<forall>st \<in> set (butlast (a # bs)). \<not> isTerminalRunState st" for a bs
    by (induction rule: run_path.induct) (auto split: if_splits simp: live [symmetric])
  show ?thesis
    using path_remaining [OF assms] inner [OF assms] ext [OF assms] live by auto
qed

theorem run_terminates_witness:
  "length [Collecting, Scheduled, Running, Finalizing, Flaky] \<le> 6 \<and>
   \<not> (\<exists>b. run_path Requested ([Collecting, Scheduled, Running, Finalizing, Flaky] @ [b]))"
proof -
  have "run_path Requested [Collecting, Scheduled, Running, Finalizing, Flaky]"
    by (intro run_path.intros)
      (simp_all add: canTransitionRunState_def TERMINAL_RUN_STATES_def del: run_state_name.simps)
  from run_terminates [OF this] show ?thesis
    by (simp add: isTerminalRunState_def TERMINAL_RUN_STATES_def)
qed

end
