(* ===== verification/ConPty_Props.thy ===== *)
theory ConPty_Props
  imports ConPty
begin

text \<open>
  The transducer of \<open>push\<close> on lists (\<open>scan\<close>), the law that it can be cut anywhere, and the reference transducer \<open>hostFree\<close>
  that sees the whole stream at once.
\<close>

section \<open>Without offsets\<close>

datatype move = Hold | Pass nat | Replace rewrite | Step

definition move :: "bool \<Rightarrow> string \<Rightarrow> move" where
  "move a xs =
     (case (if a then startupPassThrough xs 0 else None) of
        Some Partial \<Rightarrow> Hold
      | Some (Complete n) \<Rightarrow> Pass n
      | None \<Rightarrow> (case matchRewrites (rewritesAt a) xs 0 of Rewritten rw \<Rightarrow> Replace rw | AwaitingSuffix \<Rightarrow> Hold | NoMatch \<Rightarrow> Step))"

lemma passFixed_len: "passFixed input offset fs = Some (Complete n) \<Longrightarrow> n \<le> length input - offset"
  by (induction fs) (auto split: if_splits)

lemma passThrough_len: "startupPassThrough input offset = Some (Complete n) \<Longrightarrow> n \<le> length input - offset"
  by (auto simp: startupPassThrough_def Let_def dest: passFixed_len split: option.splits if_splits)

lemma matchRewrites_len: "matchRewrites rws input offset = Rewritten rw \<Longrightarrow> length (rwInput rw) \<le> length input - offset"
  by (induction rws) (auto split: if_splits)

lemma move_Pass: "move a xs = Pass n \<Longrightarrow> 0 < n \<and> n \<le> length xs \<and> a \<and> startupPassThrough xs 0 = Some (Complete n)"
  by (auto simp: move_def split: if_splits option.splits pass_through.splits rewrite_outcome.splits
      dest: passThrough_pos passThrough_len)

lemma move_Replace:
  assumes "move a xs = Replace rw"
  shows "rw \<in> set (rewritesAt a) \<and> rwInput rw \<noteq> [] \<and> length (rwInput rw) \<le> length xs"
proof -
  have m: "matchRewrites (rewritesAt a) xs 0 = Rewritten rw"
    using assms by (auto simp: move_def split: if_splits option.splits pass_through.splits rewrite_outcome.splits)
  show ?thesis
    using matchRewrites_in [OF m] matchRewrites_len [OF m] rewritesAt_nonempty [of rw a] by auto
qed

type_synonym scanned = "string \<times> host_query list \<times> bool \<times> string"

definition emits :: "string \<Rightarrow> host_query list \<Rightarrow> scanned \<Rightarrow> scanned" where
  "emits o1 q1 = (\<lambda>(o2, q2, a, r). (o1 @ o2, q1 @ q2, a, r))"

function scan :: "bool \<Rightarrow> string \<Rightarrow> scanned" where
  "scan a xs =
     (if xs = [] then ([], [], a, [])
      else case move a xs of
             Hold \<Rightarrow> ([], [], a, xs)
           | Pass n \<Rightarrow> emits (take n xs) [] (scan a (drop n xs))
           | Replace rw \<Rightarrow> emits (rwOutput rw) (rwQueries rw) (scan False (drop (length (rwInput rw)) xs))
           | Step \<Rightarrow> emits [hd xs] [] (scan False (tl xs)))"
  by pat_completeness auto
termination
  by (relation "measure (length \<circ> snd)") (auto dest: move_Pass move_Replace intro: diff_less)

declare scan.simps [simp del]

lemma hasPrefixAt_drop: "offset \<le> length input \<Longrightarrow> hasPrefixAt input offset p = hasPrefixAt (drop offset input) 0 p"
  by (simp add: hasPrefixAt_def Let_def list_all_iff nth_drop)

lemma passFixed_drop: "offset \<le> length input \<Longrightarrow> passFixed input offset fs = passFixed (drop offset input) 0 fs"
  by (induction fs) (simp_all add: hasPrefixAt_drop [of offset input])

lemma matchRewrites_drop: "offset \<le> length input \<Longrightarrow> matchRewrites rws input offset = matchRewrites rws (drop offset input) 0"
  by (induction rws) (simp_all add: hasPrefixAt_drop [of offset input])

lemma startupPassThrough_drop:
  assumes "offset \<le> length input"
  shows "startupPassThrough input offset = startupPassThrough (drop offset input) 0"
proof -
  have len: "length input - (offset + k) = length (drop offset input) - k" for k by simp
  have nth: "drop offset input ! i = input ! (offset + i)" for i using assms by simp
  show ?thesis
    unfolding startupPassThrough_def Let_def passFixed_drop [OF assms] hasPrefixAt_drop [OF assms] len nth
    by (simp add: add.assoc)
qed

text \<open>\<open>pushLoop\<close> refines \<open>scan\<close>.\<close>

lemma slice_self [simp]: "slice input k k = []"
  by (simp add: slice_def)

lemma concat_literal [simp]: "concat (literal input a b) = slice input a b"
  by (simp add: literal_def slice_def)

lemma slice_end: "slice input a (length input) = drop a input"
  by (simp add: slice_def)

lemma slice_Suc: "a \<le> b \<Longrightarrow> b < length input \<Longrightarrow> slice input a (Suc b) = slice input a b @ [hd (drop b input)]"
  by (simp add: slice_def Suc_diff_le take_Suc_conv_app_nth hd_drop_conv_nth)

lemma move_offset:
  assumes "offset < length input"
  shows "(case (if a then startupPassThrough input offset else None) of
        Some Partial \<Rightarrow> H
      | Some (Complete n) \<Rightarrow> P n
      | None \<Rightarrow> (case matchRewrites (rewritesAt a) input offset of Rewritten rw \<Rightarrow> R rw | AwaitingSuffix \<Rightarrow> H | NoMatch \<Rightarrow> S)) =
    (case move a (drop offset input) of Hold \<Rightarrow> H | Pass n \<Rightarrow> P n | Replace rw \<Rightarrow> R rw | Step \<Rightarrow> S)"
  using startupPassThrough_drop [of offset input] matchRewrites_drop [of offset input] assms
  by (simp add: move_def split: option.split pass_through.split rewrite_outcome.split)

lemma pushLoop_scan:
  assumes "literalStart \<le> offset" "offset \<le> length input" "scan a (drop offset input) = (o1, q1, a', r)"
  shows "\<exists>out'. pushLoop input a literalStart offset out qs = (out', qs @ q1, a', r) \<and>
    concat out' = concat out @ slice input literalStart offset @ o1"
  using assms
proof (induction "length input - offset" arbitrary: a literalStart offset out qs o1 q1 rule: less_induct)
  case less
  show ?case
  proof (cases "offset < length input")
    case False
    with less.prems have "offset = length input" by simp
    with less.prems(3) show ?thesis by (subst pushLoop.simps) (simp add: scan.simps)
  next
    case True
    let ?xs = "drop offset input"
    have ne: "?xs \<noteq> []" using True by simp
    note step = pushLoop.simps [of input a literalStart offset out qs, unfolded if_P [OF True] move_offset [OF True]]
    note sc = scan.simps [of a ?xs, unfolded if_not_P [OF ne]]
    show ?thesis
    proof (cases "move a ?xs")
      case Hold
      with step sc less.prems(3) show ?thesis by simp
    next
      case (Pass n)
      obtain o2 where o2: "scan a (drop (offset + n) input) = (o2, q1, a', r)" "o1 = take n ?xs @ o2"
        using sc less.prems(3) Pass by (auto simp: emits_def add.commute split: prod.splits)
      have n: "0 < n" "offset + n \<le> length input" using move_Pass [OF Pass] by auto
      have "length input - (offset + n) < length input - offset" using n True by linarith
      from less.hyps [OF this le_refl n(2) o2(1), of "out @ literal input literalStart offset @ [slice input offset (offset + n)]" qs]
      show ?thesis using step Pass o2(2) n by (simp add: slice_def)
    next
      case (Replace rw)
      let ?n = "length (rwInput rw)"
      obtain o2 q2 where o2: "scan False (drop (offset + ?n) input) = (o2, q2, a', r)" "o1 = rwOutput rw @ o2" "q1 = rwQueries rw @ q2"
        using sc less.prems(3) Replace by (auto simp: emits_def add.commute split: prod.splits)
      have n: "0 < ?n" "offset + ?n \<le> length input" using move_Replace [OF Replace] True by auto
      have "length input - (offset + ?n) < length input - offset" using n True by linarith
      from less.hyps [OF this le_refl n(2) o2(1), of "out @ literal input literalStart offset @ [rwOutput rw]" "qs @ rwQueries rw"]
      show ?thesis using step Replace o2(2,3) by simp
    next
      case Step
      obtain o2 where o2: "scan False (drop (Suc offset) input) = (o2, q1, a', r)" "o1 = hd ?xs # o2"
        using sc less.prems(3) Step by (auto simp: emits_def drop_Suc tl_drop split: prod.splits)
      have "length input - Suc offset < length input - offset" using True by linarith
      from less.hyps [OF this _ _ o2(1), of literalStart out qs] less.prems(1) True
      show ?thesis using step Step o2(2) by (simp add: slice_Suc)
    qed
  qed
qed

section \<open>Decisions are stable\<close>

definition compat :: "string \<Rightarrow> string \<Rightarrow> bool" where
  "compat xs p \<longleftrightarrow> prefix xs p \<or> prefix p xs"

lemma hasPrefixAt_compat: "hasPrefixAt xs 0 p = compat xs p"
proof -
  have "hasPrefixAt xs 0 p \<longleftrightarrow> take (min (length xs) (length p)) xs = take (min (length xs) (length p)) p"
    by (auto simp: hasPrefixAt_def Let_def list_all_iff list_eq_iff_nth_eq)
  also have "\<dots> \<longleftrightarrow> compat xs p"
  proof (cases "length xs \<le> length p")
    case True
    then show ?thesis by (auto simp: compat_def min_def prefix_def dest: sym) (metis append_take_drop_id)+
  next
    case False
    then show ?thesis by (auto simp: compat_def min_def prefix_def dest: sym) (metis append_take_drop_id)+
  qed
  finally show ?thesis .
qed

lemma compat_append: "compat (xs @ ys) p \<Longrightarrow> compat xs p"
  by (auto simp: compat_def prefix_append dest: append_prefixD)

lemma compat_long: "compat xs p \<Longrightarrow> length p \<le> length xs \<Longrightarrow> compat (xs @ ys) p"
  by (auto simp: compat_def intro: prefix_prefix dest: prefix_length_prefix) (metis prefix_length_le prefix_order.eq_iff append_prefixD nle_le prefix_length_prefix)

lemma matchRewrites_stable:
  "matchRewrites rws xs 0 = NoMatch \<Longrightarrow> matchRewrites rws (xs @ ys) 0 = NoMatch"
  "matchRewrites rws xs 0 = Rewritten rw \<Longrightarrow> matchRewrites rws (xs @ ys) 0 = Rewritten rw"
  by (induction rws) (auto simp: hasPrefixAt_compat compat_long dest: compat_append split: if_splits)

lemma passFixed_stable:
  "passFixed xs 0 fs = None \<Longrightarrow> passFixed (xs @ ys) 0 fs = None"
  "passFixed xs 0 fs = Some (Complete n) \<Longrightarrow> passFixed (xs @ ys) 0 fs = Some (Complete n)"
  by (induction fs) (auto simp: hasPrefixAt_compat compat_long dest: compat_append split: if_splits)

text \<open>The cursor request of the host, in whole or in part.\<close>

definition cursorRequest :: "string \<Rightarrow> pass_through option" where
  "cursorRequest xs =
     (let p = HOST_CURSOR_REQUEST_PREFIX
      in if \<not> compat xs p then None
         else if length xs < length p then Some Partial
         else if \<not> list_all hex_digit (take 32 (drop (length p) xs)) then None
         else if length xs < length p + 33 then Some Partial
         else if xs ! (length p + 32) \<noteq> CHR 0x07 then None
         else Some (Complete (length p + 33)))"

lemma startupPassThrough_cursor:
  "startupPassThrough xs 0 =
     (case passFixed xs 0 [WINDOW_DEICONIFY, WINDOW_ICONIFY] of Some p \<Rightarrow> Some p | None \<Rightarrow> cursorRequest xs)"
proof -
  let ?p = HOST_CURSOR_REQUEST_PREFIX
  have hex: "list_all (\<lambda>i. hex_digit (xs ! (length ?p + i))) [0..<min 32 (length xs - length ?p)] =
      list_all hex_digit (take 32 (drop (length ?p) xs))"
  proof (cases "length ?p \<le> length xs")
    case True
    then show ?thesis by (auto simp: list_all_length)
  qed simp
  show ?thesis
    unfolding startupPassThrough_def cursorRequest_def Let_def hasPrefixAt_compat HOST_CURSOR_REQUEST_TOKEN_BYTES_def
      add_0 diff_zero hex by (simp add: add.commute add.assoc del: passFixed.simps split: option.split)
qed

lemma cursorRequest_stable:
  "cursorRequest xs = None \<Longrightarrow> cursorRequest (xs @ ys) = None"
  "cursorRequest xs = Some (Complete n) \<Longrightarrow> cursorRequest (xs @ ys) = Some (Complete n)"
  by (auto simp: cursorRequest_def Let_def compat_long nth_append dest: compat_append split: if_splits)

lemma move_stable:
  assumes "move a xs \<noteq> Hold"
  shows "move a (xs @ ys) = move a xs"
proof (cases "if a then startupPassThrough xs 0 else None")
  case None
  then have none: "(if a then startupPassThrough (xs @ ys) 0 else None) = None"
    by (auto simp: startupPassThrough_cursor cursorRequest_stable passFixed_stable simp del: passFixed.simps split: if_splits option.splits)
  show ?thesis
    using assms matchRewrites_stable unfolding move_def None none
    by (auto split: rewrite_outcome.splits)
next
  case (Some pt)
  then obtain n where n: "a" "startupPassThrough xs 0 = Some (Complete n)"
    using assms by (cases pt) (auto simp: move_def split: if_splits)
  then have "startupPassThrough (xs @ ys) 0 = Some (Complete n)"
    by (auto simp: startupPassThrough_cursor cursorRequest_stable passFixed_stable simp del: passFixed.simps split: option.splits)
  with n show ?thesis by (simp add: move_def)
qed

lemma emits_emits [simp]: "emits a b (emits c d s) = emits (a @ c) (b @ d) s" "emits [] [] s = s"
  by (simp_all add: emits_def split: prod.split)

lemma scan_append: "scan a (xs @ ys) = (case scan a xs of (o1, q1, a', r) \<Rightarrow> emits o1 q1 (scan a' (r @ ys)))"
proof (induction a xs rule: scan.induct)
  case (1 a xs)
  show ?case
  proof (cases "xs = []")
    case True
    then show ?thesis by (simp add: scan.simps [of a "[]"])
  next
    case ne: False
    note sc = scan.simps [of a xs, unfolded if_not_P [OF ne]] and sc' = scan.simps [of a "xs @ ys"]
    show ?thesis
    proof (cases "move a xs")
      case Hold
      then show ?thesis using sc by simp
    next
      case (Pass n)
      have "scan a (xs @ ys) = emits (take n xs) [] (scan a (drop n xs @ ys))"
        using sc' ne Pass move_stable [of a xs ys] move_Pass [OF Pass] by simp
      with sc Pass show ?thesis using 1(1) [OF ne Pass] by (simp add: emits_def split: prod.splits)
    next
      case (Replace rw)
      have "scan a (xs @ ys) = emits (rwOutput rw) (rwQueries rw) (scan False (drop (length (rwInput rw)) xs @ ys))"
        using sc' ne Replace move_stable [of a xs ys] move_Replace [OF Replace] by simp
      with sc Replace show ?thesis using 1(2) [OF ne Replace] by (simp add: emits_def split: prod.splits)
    next
      case Step
      have "scan a (xs @ ys) = emits [hd xs] [] (scan False (tl xs @ ys))"
        using sc' ne Step move_stable [of a xs ys] by simp
      with sc Step show ?thesis using 1(3) [OF ne Step] by (simp add: emits_def split: prod.splits)
    qed
  qed
qed

section \<open>Streaming\<close>

text \<open>The two channels of \<open>push\<close>: the output bytes and the reported queries.\<close>

definition normalizer_bytes :: "normalizer \<Rightarrow> string \<Rightarrow> (unit, normalizer \<times> string) res" where
  "normalizer_bytes s c = res_map (\<lambda>(s', out, qs). (s', out)) (normalizer_push s c)"

definition normalizer_queries :: "normalizer \<Rightarrow> string \<Rightarrow> (unit, normalizer \<times> host_query list) res" where
  "normalizer_queries s c = res_map (\<lambda>(s', out, qs). (s', qs)) (normalizer_push s c)"

definition settled :: "normalizer \<Rightarrow> bool" where
  "settled s \<longleftrightarrow> \<not> streamFinished s \<and> scan (atStreamStart s) (heldBack s) = ([], [], atStreamStart s, heldBack s)"

lemma push_scan:
  assumes "settled s"
  shows "normalizer_push s c =
    (case scan (atStreamStart s) (heldBack s @ c) of (o1, q1, a', r) \<Rightarrow> Inr (s\<lparr>heldBack := r, atStreamStart := a'\<rparr>, o1, q1))"
proof (cases "c = []")
  case True
  with assms show ?thesis by (simp add: settled_def normalizer_push_def)
next
  case False
  obtain o1 q1 a' r where sc: "scan (atStreamStart s) (heldBack s @ c) = (o1, q1, a', r)" by (metis surj_pair)
  then obtain out where "pushLoop (heldBack s @ c) (atStreamStart s) 0 0 [] [] = (out, q1, a', r)" "concat out = o1"
    using pushLoop_scan [of 0 0 "heldBack s @ c" "atStreamStart s" o1 q1 a' r "[]" "[]"] by auto
  with False assms sc show ?thesis by (simp add: settled_def normalizer_push_def)
qed

lemma scan_rest: "scan a xs = (o1, q1, a', r) \<Longrightarrow> scan a' r = ([], [], a', r)"
proof -
  assume sc: "scan a xs = (o1, q1, a', r)"
  have "emits o1 q1 (scan a' r) = (o1, q1, a', r)" using scan_append [of a xs "[]"] sc by simp
  then show ?thesis by (auto simp: emits_def split: prod.splits)
qed

lemma push_settled: "settled s \<Longrightarrow> normalizer_push s c = Inr (s', out, qs) \<Longrightarrow> settled s'"
  by (auto simp: push_scan settled_def dest: scan_rest split: prod.splits)

lemma push_append:
  assumes "settled s"
  shows "normalizer_push s (xs @ ys) =
    res_bind (normalizer_push s xs) (\<lambda>(s', o1, q1). res_map (\<lambda>(s'', o2, q2). (s'', o1 @ o2, q1 @ q2)) (normalizer_push s' ys))"
proof -
  obtain o1 q1 a' r where sc: "scan (atStreamStart s) (heldBack s @ xs) = (o1, q1, a', r)" by (metis surj_pair)
  let ?s = "s\<lparr>heldBack := r, atStreamStart := a'\<rparr>"
  have "normalizer_push s xs = Inr (?s, o1, q1)" using push_scan [OF assms, of xs] sc by simp
  moreover from push_settled [OF assms this] have "normalizer_push ?s ys =
      (case scan a' (r @ ys) of (o2, q2, a'', r') \<Rightarrow> Inr (?s\<lparr>heldBack := r', atStreamStart := a''\<rparr>, o2, q2))"
    by (subst push_scan) simp_all
  ultimately show ?thesis
    using push_scan [OF assms, of "xs @ ys"] scan_append [of "atStreamStart s" "heldBack s @ xs" ys] sc
    by (simp add: emits_def split: prod.splits)
qed

lemma push_Nil: "settled s \<Longrightarrow> normalizer_push s [] = Inr (s, [], [])"
  by (simp add: settled_def normalizer_push_def)

lemma settled_create [simp]: "settled createNormalizer"
  by (simp add: settled_def createNormalizer_def scan.simps)

interpretation bytes: chunked_stream "\<lambda>_. normalizer_bytes" settled
proof
  fix s xs ys
  show "settled s \<Longrightarrow> normalizer_bytes s [] = Inr (s, [])" by (simp add: normalizer_bytes_def push_Nil)
  show "settled s \<Longrightarrow> normalizer_bytes s (xs @ ys) =
      res_bind (normalizer_bytes s xs) (\<lambda>(s', ms). res_map (\<lambda>(s'', ms'). (s'', ms @ ms')) (normalizer_bytes s' ys))"
    by (simp add: normalizer_bytes_def push_append res_map_bind res_bind_map res_map_comp split_def o_def)
  show "settled s \<Longrightarrow> normalizer_bytes s xs = Inr (s', ms) \<Longrightarrow> settled s'" for s' ms
    by (auto simp: normalizer_bytes_def res_simps dest: push_settled)
qed

interpretation queries: chunked_stream "\<lambda>_. normalizer_queries" settled
proof
  fix s xs ys
  show "settled s \<Longrightarrow> normalizer_queries s [] = Inr (s, [])" by (simp add: normalizer_queries_def push_Nil)
  show "settled s \<Longrightarrow> normalizer_queries s (xs @ ys) =
      res_bind (normalizer_queries s xs) (\<lambda>(s', ms). res_map (\<lambda>(s'', ms'). (s'', ms @ ms')) (normalizer_queries s' ys))"
    by (simp add: normalizer_queries_def push_append res_map_bind res_bind_map res_map_comp split_def o_def)
  show "settled s \<Longrightarrow> normalizer_queries s xs = Inr (s', ms) \<Longrightarrow> settled s'" for s' ms
    by (auto simp: normalizer_queries_def res_simps dest: push_settled)
qed

section \<open>The reference transducer\<close>

definition passLength :: "bool \<Rightarrow> string \<Rightarrow> nat option" where
  "passLength a xs =
     (if \<not> a then None
      else if startsWith xs WINDOW_DEICONIFY then Some (length WINDOW_DEICONIFY)
      else if startsWith xs WINDOW_ICONIFY then Some (length WINDOW_ICONIFY)
      else let p = length HOST_CURSOR_REQUEST_PREFIX
      in if startsWith xs HOST_CURSOR_REQUEST_PREFIX \<and> TOKEN (take 32 (drop p xs)) \<and> take 1 (drop (p + 32) xs) = OSC_TERMINATOR
         then Some (p + 33) else None)"

definition hostSequence :: "bool \<Rightarrow> string \<Rightarrow> rewrite option" where
  "hostSequence a xs = find (\<lambda>rw. startsWith xs (rwInput rw)) (rewritesAt a)"

lemma hostSequence_nonempty: "hostSequence a xs = Some rw \<Longrightarrow> 0 < length (rwInput rw)"
  unfolding hostSequence_def find_Some_iff by (metis One_nat_def Suc_le_eq nth_mem rewritesAt_nonempty)

lemma passLength_pos: "passLength a xs = Some n \<Longrightarrow> 0 < n"
  by (auto simp: passLength_def conpty_constants Let_def split: if_splits)

function hostFree :: "bool \<Rightarrow> string \<Rightarrow> string" where
  "hostFree a [] = []"
| "hostFree a (x # xs) =
     (case passLength a (x # xs) of
        Some n \<Rightarrow> take n (x # xs) @ hostFree a (drop n (x # xs))
      | None \<Rightarrow>
          (case hostSequence a (x # xs) of
             Some rw \<Rightarrow> rwOutput rw @ hostFree False (drop (length (rwInput rw)) (x # xs))
           | None \<Rightarrow> x # hostFree False xs))"
  by pat_completeness auto
termination
  by (relation "measure (length \<circ> snd)") (auto dest!: passLength_pos hostSequence_nonempty intro!: diff_less)

declare hostFree.simps(2) [simp del]

lemma startsWith_prefix: "startsWith xs p \<longleftrightarrow> prefix p xs"
  by (auto simp: startsWith_iff prefix_def)

lemma startsWith_compat: "startsWith xs p \<longleftrightarrow> compat xs p \<and> length p \<le> length xs"
  by (auto simp: startsWith_prefix compat_def dest: prefix_length_le) (metis prefix_length_prefix prefix_order.refl)

lemma take_1_drop: "take 1 (drop k xs) = [c] \<longleftrightarrow> k < length xs \<and> xs ! k = c"
  by (cases "k < length xs") (simp_all add: Cons_nth_drop_Suc [symmetric])

lemma passLength_startup: "passLength True xs = Some n \<longleftrightarrow> startupPassThrough xs 0 = Some (Complete n)"
proof -
  let ?p = HOST_CURSOR_REQUEST_PREFIX
  have cursor: "cursorRequest xs = Some (Complete n) \<longleftrightarrow> startsWith xs ?p \<and> TOKEN (take 32 (drop (length ?p) xs)) \<and>
      take 1 (drop (length ?p + 32) xs) = OSC_TERMINATOR \<and> n = length ?p + 33"
  proof -
    have "take 1 (drop (length ?p + 32) xs) = OSC_TERMINATOR \<longleftrightarrow>
        length ?p + 33 \<le> length xs \<and> xs ! (length ?p + 32) = CHR 0x07"
      unfolding OSC_TERMINATOR_def take_1_drop by auto
    then show ?thesis
      by (auto simp: cursorRequest_def Let_def startsWith_compat TOKEN_def)
  qed
  have fixed: "startsWith xs f \<Longrightarrow> compat xs f" for f by (simp add: startsWith_compat)
  have apart: "compat xs WINDOW_DEICONIFY \<Longrightarrow> \<not> startsWith xs WINDOW_ICONIFY \<and> \<not> startsWith xs ?p"
    "compat xs WINDOW_ICONIFY \<Longrightarrow> \<not> startsWith xs WINDOW_DEICONIFY \<and> \<not> startsWith xs ?p"
    by (auto simp: compat_def startsWith_iff prefix_def conpty_constants Cons_eq_append_conv append_eq_Cons_conv)
  show ?thesis
    unfolding passLength_def startupPassThrough_cursor Let_def
    using cursor apart fixed by (auto simp: hasPrefixAt_compat startsWith_compat)
qed

lemma matchRewrites_find:
  "matchRewrites rws xs 0 = Rewritten rw \<Longrightarrow> find (\<lambda>rw. startsWith xs (rwInput rw)) rws = Some rw"
  "matchRewrites rws xs 0 = NoMatch \<Longrightarrow> find (\<lambda>rw. startsWith xs (rwInput rw)) rws = None"
  by (induction rws) (auto simp: hasPrefixAt_compat startsWith_compat split: if_splits)

text \<open>What is held back at the end of the stream is output verbatim by the reference, too.\<close>

lemma rewrite_shape:
  assumes "rw \<in> set (rewritesAt a)"
  shows "\<exists>p. rwInput rw = CONPTY_ESC # p \<and> CONPTY_ESC \<in> set p"
  using assms by (auto simp: rewritesAt_def conpty_constants split: if_splits)

lemma hostSequence_one_ESC: "CONPTY_ESC \<notin> set xs \<Longrightarrow> hostSequence a (x # xs) = None"
  unfolding hostSequence_def find_None_iff by (auto simp: startsWith_iff dest!: rewrite_shape)

lemma hostFree_no_ESC: "CONPTY_ESC \<notin> set xs \<Longrightarrow> hostFree False xs = xs"
proof (induction xs)
  case (Cons x xs)
  then show ?case by (subst hostFree.simps) (simp add: passLength_def hostSequence_one_ESC)
qed simp

lemma hostFree_one_ESC: "CONPTY_ESC \<notin> set xs \<Longrightarrow> passLength a (x # xs) = None \<Longrightarrow> hostFree a (x # xs) = x # xs"
  by (subst hostFree.simps) (simp add: hostSequence_one_ESC hostFree_no_ESC)

lemma hostFree_partial:
  "list_all (\<lambda>rw. list_all (\<lambda>xs. hostFree True xs = xs) (butlast (prefixes (rwInput rw)))) (rewritesAt True)"
  "list_all (\<lambda>rw. list_all (\<lambda>xs. hostFree False xs = xs) (butlast (prefixes (rwInput rw)))) (rewritesAt False)"
  by code_simp+

lemma matchRewrites_awaiting:
  "matchRewrites rws xs 0 = AwaitingSuffix \<Longrightarrow> \<exists>rw \<in> set rws. prefix xs (rwInput rw) \<and> xs \<noteq> rwInput rw"
  by (induction rws) (auto simp: hasPrefixAt_compat compat_def dest: prefix_length_le split: if_splits)

lemma strict_prefix_butlast: "prefix xs p \<Longrightarrow> xs \<noteq> p \<Longrightarrow> xs \<in> set (butlast (prefixes p))"
proof -
  assume xs: "prefix xs p" "xs \<noteq> p"
  have "prefixes p = butlast (prefixes p) @ [p]" by (metis append_butlast_last_id last_prefixes prefixes_not_Nil)
  moreover have "xs \<in> set (prefixes p)" using xs(1) by simp
  ultimately show ?thesis using xs(2) by (metis Un_iff empty_iff empty_set insert_iff list.simps(15) set_append)
qed

lemma prefix_tl_absent: "prefix xs p \<Longrightarrow> c \<notin> set (tl p) \<Longrightarrow> xs = [] \<or> (\<exists>x ys. xs = x # ys \<and> c \<notin> set ys)"
  by (cases xs; cases p) (auto dest: set_mono_prefix)

lemma hold_verbatim:
  assumes "move a xs = Hold"
  shows "hostFree a xs = xs"
proof (cases "if a then startupPassThrough xs 0 else None")
  case None
  then have "matchRewrites (rewritesAt a) xs 0 = AwaitingSuffix" using assms by (simp add: move_def split: rewrite_outcome.splits)
  then obtain rw where "rw \<in> set (rewritesAt a)" "xs \<in> set (butlast (prefixes (rwInput rw)))"
    using matchRewrites_awaiting strict_prefix_butlast by blast
  then show ?thesis using hostFree_partial by (cases a) (auto simp: list_all_iff)
next
  case (Some pt)
  then have p: a "startupPassThrough xs 0 = Some Partial"
    using assms by (auto simp: move_def split: if_splits pass_through.splits)
  have none: "passLength a xs = None" using passLength_startup [of xs] p by (cases "passLength a xs") auto
  have "xs = [] \<or> (\<exists>x ys. xs = x # ys \<and> CONPTY_ESC \<notin> set ys)"
  proof (cases "passFixed xs 0 [WINDOW_DEICONIFY, WINDOW_ICONIFY]")
    case None
    let ?p = HOST_CURSOR_REQUEST_PREFIX
    have c: "cursorRequest xs = Some Partial" using p(2) None by (simp add: startupPassThrough_cursor)
    have esc: "CONPTY_ESC \<notin> set (tl ?p)" "?p \<noteq> []" by (simp_all add: conpty_constants CONPTY_ESC_def)
    show ?thesis
    proof (cases "length xs < length ?p")
      case True
      then have "prefix xs ?p" using c by (auto simp: cursorRequest_def Let_def compat_def dest: prefix_length_le split: if_splits)
      then show ?thesis using esc(1) by (rule prefix_tl_absent)
    next
      case False
      have "compat xs ?p" "list_all hex_digit (take 32 (drop (length ?p) xs))" "length xs < length ?p + 33"
        using c False by (auto simp: cursorRequest_def Let_def split: if_splits)
      moreover from this(1) False obtain ys where ys: "xs = ?p @ ys"
        by (metis not_less startsWith_compat startsWith_iff)
      ultimately have "list_all hex_digit ys" by simp
      moreover have "\<not> hex_digit CONPTY_ESC" by (simp add: hex_digit_def is_digit_def CONPTY_ESC_def)
      ultimately have "CONPTY_ESC \<notin> set ys" by (auto simp: list_all_iff)
      moreover obtain b bs where b: "?p = b # bs" using esc(2) by (cases ?p) auto
      moreover have "CONPTY_ESC \<notin> set bs" using esc(1) b by (metis list.sel(3))
      ultimately have "xs = b # (bs @ ys) \<and> CONPTY_ESC \<notin> set (bs @ ys)" using ys by simp
      then show ?thesis by blast
    qed
  next
    case (Some q)
    then have "q = Partial" using p(2) by (simp add: startupPassThrough_cursor)
    with Some have "prefix xs WINDOW_DEICONIFY \<or> prefix xs WINDOW_ICONIFY"
      by (auto simp: hasPrefixAt_compat compat_def dest: prefix_length_le split: if_splits)
    moreover have "CONPTY_ESC \<notin> set (tl WINDOW_DEICONIFY)" "CONPTY_ESC \<notin> set (tl WINDOW_ICONIFY)"
      by (simp_all add: conpty_constants CONPTY_ESC_def)
    ultimately show ?thesis
      using prefix_tl_absent [of xs WINDOW_DEICONIFY CONPTY_ESC] prefix_tl_absent [of xs WINDOW_ICONIFY CONPTY_ESC] by argo
  qed
  then show ?thesis using none hostFree_one_ESC by auto
qed

lemma scan_hostFree: "scan a xs = (o1, q1, a', r) \<Longrightarrow> hostFree a xs = o1 @ r"
proof (induction a xs arbitrary: o1 q1 a' r rule: scan.induct)
  case (1 a xs)
  show ?case
  proof (cases "xs = []")
    case True
    with 1(4) show ?thesis by (simp add: scan.simps)
  next
    case ne: False
    then obtain x ys where xs: "xs = x # ys" by (cases xs) auto
    note sc = 1(4) [unfolded scan.simps [of a xs] if_not_P [OF ne]]
    have pass: "passLength a xs = (case move a xs of Pass n \<Rightarrow> Some n | _ \<Rightarrow> None)" if "move a xs \<noteq> Hold"
    proof (cases a)
      case True
      then show ?thesis
        using that passLength_startup [of xs]
        by (auto simp: move_def split: option.splits pass_through.splits rewrite_outcome.splits)
    qed (auto simp: passLength_def move_def split: rewrite_outcome.splits)
    show ?thesis
    proof (cases "move a xs")
      case Hold
      with sc hold_verbatim show ?thesis by simp
    next
      case (Pass n)
      obtain o2 where o2: "scan a (drop n xs) = (o2, q1, a', r)" "o1 = take n xs @ o2"
        using sc Pass by (auto simp: emits_def split: prod.splits)
      from 1(1) [OF ne Pass o2(1)] show ?thesis using pass Pass o2(2) xs by (simp add: hostFree.simps)
    next
      case (Replace rw)
      obtain o2 q2 where o2: "scan False (drop (length (rwInput rw)) xs) = (o2, q2, a', r)" "o1 = rwOutput rw @ o2"
        using sc Replace by (auto simp: emits_def split: prod.splits)
      have "hostSequence a xs = Some rw"
        using Replace unfolding hostSequence_def move_def
        by (intro matchRewrites_find(1)) (auto split: if_splits option.splits pass_through.splits rewrite_outcome.splits)
      with 1(2) [OF ne Replace o2(1)] show ?thesis using pass Replace o2(2) xs by (simp add: hostFree.simps)
    next
      case Step
      obtain o2 where o2: "scan False (tl xs) = (o2, q1, a', r)" "o1 = hd xs # o2"
        using sc Step by (auto simp: emits_def split: prod.splits)
      have "hostSequence a xs = None"
        using Step unfolding hostSequence_def move_def
        by (intro matchRewrites_find(2)) (auto split: if_splits option.splits pass_through.splits rewrite_outcome.splits)
      with 1(3) [OF ne Step o2(1)] show ?thesis using pass Step o2(2) xs by (simp add: hostFree.simps)
    qed
  qed
qed

section \<open>Theorems\<close>

text \<open>The pipe may cut anywhere. Two divisions of the same output of the pseudo console into chunks lead to the same
  normalized bytes, the same reported host queries and the same state.\<close>

theorem normalizer_chunking:
  assumes "concat cs = concat cs'"
  shows "feed normalizer_bytes createNormalizer cs = feed normalizer_bytes createNormalizer cs' \<and>
    feed normalizer_queries createNormalizer cs = feed normalizer_queries createNormalizer cs'"
  using bytes.feed_chunking_irrelevant [OF settled_create assms] queries.feed_chunking_irrelevant [OF settled_create assms]
  by simp

theorem normalizer_chunking_witness:
  "feed normalizer_bytes createNormalizer [CONPTY_ESC # ''[c'', FOCUS_ON @ WIN32_ON @ ''ok''] =
   feed normalizer_bytes createNormalizer [[CONPTY_ESC], ''['', ''c'' @ FOCUS_ON, WIN32_ON, ''ok'']"
  by (rule conjunct1 [OF normalizer_chunking]) simp

text \<open>C12: The transducer refines the reference \<open>hostFree\<close>: however the stream is cut, every push succeeds and the output,
  with the tail that \<open>finish\<close> releases, is the reference transformation of the whole stream. The reference keeps every byte but
  the mode sequences that follow a startup handshake or a reset of the child.\<close>

theorem normalizer_refines:
  "\<exists>s out. feed normalizer_bytes createNormalizer cs = Inr (s, out) \<and>
     out @ fst (finish_stream s) = hostFree True (concat cs)"
proof -
  let ?s = createNormalizer
  obtain o1 q1 a' r where sc: "scan True (concat cs) = (o1, q1, a', r)" by (metis surj_pair)
  have "feed normalizer_bytes ?s cs = normalizer_bytes ?s (concat cs)"
    by (rule bytes.feed_concat [OF settled_create])
  also have "\<dots> = Inr (?s\<lparr>heldBack := r, atStreamStart := a'\<rparr>, o1)"
    using push_scan [OF settled_create, of "concat cs"] sc by (simp add: normalizer_bytes_def createNormalizer_def)
  finally show ?thesis
    using scan_hostFree [OF sc] by (auto simp: finish_stream_def createNormalizer_def)
qed

lemma hostFree_transparent:
  "\<forall>rw \<in> set (rewritesAt a). \<not> sublist (rwInput rw) xs \<Longrightarrow> hostFree a xs = xs"
proof (induction a xs rule: hostFree.induct)
  case (2 a x xs)
  have sub: "sublist (rwInput rw) ys \<Longrightarrow> suffix ys (x # xs) \<Longrightarrow> sublist (rwInput rw) (x # xs)" for rw ys
    by (meson suffix_imp_sublist sublist_order.order.trans)
  have rw: "set (rewritesAt False) \<subseteq> set (rewritesAt a)" by (auto simp: rewritesAt_def)
  have none: "hostSequence a (x # xs) = None"
    using "2.prems" unfolding hostSequence_def find_None_iff
    by (auto simp: startsWith_prefix dest: prefix_imp_sublist)
  show ?case
  proof (cases "passLength a (x # xs)")
    case None
    have "suffix xs (x # xs)" by (simp add: suffix_Cons)
    then have "hostFree False xs = xs" using "2.IH"(1) [OF None none] "2.prems" sub rw by blast
    with None none show ?thesis by (simp add: hostFree.simps)
  next
    case (Some n)
    have "suffix (drop n (x # xs)) (x # xs)" by (rule suffix_drop)
    then have "hostFree a (drop n (x # xs)) = drop n (x # xs)" using "2.IH"(3) [OF Some] "2.prems" sub by blast
    with Some show ?thesis by (simp add: hostFree.simps del: drop_Suc_Cons take_Suc_Cons)
  qed
qed simp

text \<open>A stream in which no host sequence occurs passes unchanged: nothing a child writes is lost or altered, not even a
  truncated or merely similar sequence at the end.\<close>

theorem normalizer_transparent:
  assumes "\<forall>rw \<in> set (rewritesAt True). \<not> sublist (rwInput rw) (concat cs)"
    and "feed normalizer_bytes createNormalizer cs = Inr (s, out)"
  shows "out @ fst (finish_stream s) = concat cs"
proof -
  obtain o1 q1 a' r where sc: "scan True (concat cs) = (o1, q1, a', r)" by (metis surj_pair)
  have "feed normalizer_bytes createNormalizer cs = Inr (createNormalizer\<lparr>heldBack := r, atStreamStart := a'\<rparr>, o1)"
    unfolding bytes.feed_concat [OF settled_create]
    using push_scan [OF settled_create, of "concat cs"] sc by (simp add: normalizer_bytes_def createNormalizer_def)
  with assms scan_hostFree [OF sc] hostFree_transparent [of True "concat cs"] show ?thesis
    by (auto simp: finish_stream_def createNormalizer_def)
qed

theorem normalizer_transparent_witness:
  "\<exists>s out. feed normalizer_bytes createNormalizer [''a'' @ FOCUS_OFF, FOCUS_OFF] = Inr (s, out) \<and>
     out @ fst (finish_stream s) = ''a'' @ FOCUS_OFF @ FOCUS_OFF"
proof -
  obtain s out where eq: "feed normalizer_bytes createNormalizer [''a'' @ FOCUS_OFF, FOCUS_OFF] = Inr (s, out)"
    using bytes.feed_concat [OF settled_create, of "[''a'' @ FOCUS_OFF, FOCUS_OFF]"]
      push_scan [OF settled_create, of "concat [''a'' @ FOCUS_OFF, FOCUS_OFF]"]
    by (auto simp: normalizer_bytes_def split: prod.splits)
  have "list_all (\<lambda>rw. \<not> sublist (rwInput rw) (concat [''a'' @ FOCUS_OFF, FOCUS_OFF])) (rewritesAt True)"
    by code_simp
  then have "\<forall>rw \<in> set (rewritesAt True). \<not> sublist (rwInput rw) (concat [''a'' @ FOCUS_OFF, FOCUS_OFF])"
    by (simp add: list_all_iff)
  from normalizer_transparent [OF this eq] eq show ?thesis by auto
qed

section \<open>The cursor protocol\<close>

lemma coordinate_decimal: "1 \<le> n \<Longrightarrow> n \<le> MAX_COORDINATE \<Longrightarrow> coordinate_text (decimal n)"
  using decimal_length [of n 4] decimal_digits [of n] decimal_hd [of n]
  by (simp add: coordinate_text_def MAX_COORDINATE_def)

text \<open>Round trip of the private cursor protocol: what \<open>encodeConPtyHostCursorResponse\<close> writes is parsed back into the
  same token, row and column.\<close>

theorem cursor_roundtrip:
  assumes "encodeConPtyHostCursorResponse t row column = Some reply"
  shows "parseConPtyHostCursorResponse reply = Some \<lparr>crToken = t, crRow = nat row, crColumn = nat column\<rparr>"
proof -
  have ok: "TOKEN t" "1 \<le> nat row" "nat row \<le> MAX_COORDINATE" "1 \<le> nat column" "nat column \<le> MAX_COORDINATE"
    and reply: "reply = response_head @ t @ CHR '':'' # decimal (nat row) @ CHR '':'' # decimal (nat column) @ OSC_TERMINATOR"
    using assms by (auto simp: encodeConPtyHostCursorResponse_def split: if_splits)
  have sep: "\<not> is_digit CHR '':''" "\<not> is_digit (CHR 0x07)" by (simp_all add: is_digit_def)
  have len: "length t = 32" using ok(1) by (simp add: TOKEN_def)
  show ?thesis
    using ok coordinate_decimal takeWhile_digits [OF decimal_digits sep(1)] takeWhile_digits [OF decimal_digits sep(2), of _ "[]"]
    by (simp add: parseConPtyHostCursorResponse_def Let_def reply len OSC_TERMINATOR_def sep)
qed

theorem cursor_roundtrip_witness:
  "parseConPtyHostCursorResponse (response_head @ replicate 32 CHR ''a'' @ '':3:17'' @ OSC_TERMINATOR) =
     Some \<lparr>crToken = replicate 32 CHR ''a'', crRow = 3, crColumn = 17\<rparr>"
proof -
  have "encodeConPtyHostCursorResponse (replicate 32 CHR ''a'') 3 17 =
      Some (response_head @ replicate 32 CHR ''a'' @ '':3:17'' @ OSC_TERMINATOR)"
    by (simp add: encodeConPtyHostCursorResponse_def TOKEN_def hex_digit_def list_all_iff MAX_COORDINATE_def decimal.simps)
  from cursor_roundtrip [OF this] show ?thesis by simp
qed

end
