(* ===== verification/Snapshot.thy ===== *)
theory Snapshot
  imports Framing Objects
begin

text \<open>
  Validation of semantic trees (\<open>src/packages/protocol/src/validate.ts\<close>).

  \<^item> \<open>tree_snapshot\<close> and \<open>semantic_node\<close> hold the fields of a parsed snapshot that the validation and the locators read. An \<open>observation\<close> is
    \<open>Known\<close> with its value or one of the statuses without; evidence and reasons are not read and left out.
  \<^item> A check is \<open>Some\<close> code when the source returns early with that code, and \<open>None\<close> when it goes on; \<open>orElse\<close> chains them
    in the order of the source and \<open>first_problem\<close> is a loop that returns early.
  \<^item> \<open>validateSnapshot\<close> takes the results of \<open>projectDto\<close>, of \<open>JSON.stringify\<close> and of the schema library on the candidate as
    arguments; what follows is \<open>checkSnapshot\<close>.
  \<^item> \<open>chainUp\<close> is the inner loop of \<open>computeDepths\<close>: it follows parents until a known depth, a root or a repetition. It
    terminates because the ids it has not seen become fewer.

  The theorems: an accepted snapshot is a forest of bounded depth with unique ids and no dangling reference; \<open>computeDepths\<close>
  computes the depth of every node or names a node on a cycle.
\<close>

section \<open>Snapshots\<close>

type_synonym node_id = js_string

datatype 'a observation = Known 'a | Absent | Unknown | Unsupported

record rect =
  row :: int
  column :: int
  width :: int
  height :: int

record span =
  spanRow :: int
  spanFrom :: int
  spanTo :: int

record painted_region =
  regionBounds :: rect
  spans :: "span list"

record text_range =
  startOffset :: int
  endOffset :: int
  rangeRect :: rect

datatype value_observation = ValueKnown js_string | ValueAbsent | ValueUnknown | ValueUnsupported | ValueWithheld

record semantic_node =
  nodeId :: node_id
  parentId :: "node_id option"
  role :: js_string
  frameworkType :: "js_string option"
  nodeName :: js_string
  testId :: "js_string option"
  nodeValue :: "value_observation option"
  nodeState :: "(js_string, json) js_map option"
  actions :: "js_string list option"
  labelledBy :: "node_id list option"
  describedBy :: "node_id list option"
  textRanges :: "text_range list option"
  intendedRect :: "rect observation"
  visibleRect :: "rect observation"
  paintedRegion :: "painted_region observation option"

record hit_region =
  hitRect :: rect
  hitRecipient :: node_id

datatype focus_state = Focused node_id | FocusNone

record provider_facts =
  evidenceProvider :: js_string
  pointerRegions :: "(node_id \<times> painted_region) list"
  focusState :: "focus_state option"
  actionRecipes :: "(node_id \<times> js_string list) list option"
  scrollStates :: "node_id list option"
  paintedRegions :: "(node_id \<times> painted_region) list option"
  providerHitGrid :: "hit_region list option"

datatype provider_status = Available provider_facts | Lost | ProviderViolation

record provider_evidence =
  providerName :: js_string
  providerSession :: js_string
  providerRevision :: int
  providerStatus :: provider_status

datatype coordinate_space = ViewportCells | FrameworkLocal

record tree_snapshot =
  sessionId :: js_string
  treeRevision :: int
  columns :: int
  rows :: int
  cursor :: "(int \<times> int) option"
  rootIds :: "node_id list"
  treeNodes :: "semantic_node list"
  coordinateSpace :: "coordinate_space observation"
  hitGrid :: "hit_region list observation"
  providerEvidence :: "provider_evidence list option"

datatype validation_code =
    VSchema | VUnknownRole | VDuplicateId | VMissingParent | VCycle | VDepth | VCount | VStringBytes | VBadRect
  | VProvider | VRevision | VBytes

section \<open>Early returns\<close>

type_synonym problem = "validation_code option"

definition orElse :: "problem \<Rightarrow> problem \<Rightarrow> problem" where
  "orElse a b = (case a of Some c \<Rightarrow> Some c | None \<Rightarrow> b)"

definition refuse :: "bool \<Rightarrow> validation_code \<Rightarrow> problem" where
  "refuse b c = (if b then Some c else None)"

primrec first_problem :: "('a \<Rightarrow> problem) \<Rightarrow> 'a list \<Rightarrow> problem" where
  "first_problem f [] = None"
| "first_problem f (x # xs) = orElse (f x) (first_problem f xs)"

primrec checks :: "problem list \<Rightarrow> problem" where
  "checks [] = None"
| "checks (p # ps) = orElse p (checks ps)"

abbreviation items :: "'a list option \<Rightarrow> 'a list" where
  "items xs \<equiv> (case xs of None \<Rightarrow> [] | Some ys \<Rightarrow> ys)"

section \<open>Geometry\<close>

definition rectIntersectsViewport :: "rect \<Rightarrow> int \<Rightarrow> int \<Rightarrow> bool" where
  "rectIntersectsViewport r cols rws =
     (if width r = 0 \<or> height r = 0 then False
      else column r < cols \<and> row r < rws \<and> column r + width r > 0 \<and> row r + height r > 0)"

definition rectContains :: "rect \<Rightarrow> rect \<Rightarrow> bool" where
  "rectContains outer inner \<longleftrightarrow> row inner \<ge> row outer \<and> column inner \<ge> column outer \<and>
     row inner + height inner \<le> row outer + height outer \<and> column inner + width inner \<le> column outer + width outer"

definition regionProblem :: "painted_region \<Rightarrow> int \<Rightarrow> int \<Rightarrow> problem" where
  "regionProblem region cols rws = first_problem (\<lambda>s. checks
     [refuse (spanRow s \<ge> rws \<or> spanFrom s \<ge> cols \<or> spanTo s > cols) VBadRect,
      refuse (spanRow s < row (regionBounds region) \<or>
        spanRow s \<ge> row (regionBounds region) + height (regionBounds region) \<or>
        spanFrom s < column (regionBounds region) \<or>
        spanTo s > column (regionBounds region) + width (regionBounds region)) VBadRect]) (spans region)"

section \<open>One node\<close>

definition unsafe_sum :: "int \<Rightarrow> int \<Rightarrow> bool" where
  "unsafe_sum a b \<longleftrightarrow> \<not> isSafeInteger (js_int (a + b))"

definition relationProblem :: "node_id set \<Rightarrow> limits \<Rightarrow> node_id list option \<Rightarrow> problem" where
  "relationProblem ids l targets =
     (case targets of
        None \<Rightarrow> None
      | Some ts \<Rightarrow> orElse (refuse (length ts > maxRelationTargets l) VCount)
          (first_problem (\<lambda>t. refuse (t \<notin> ids) VMissingParent) ts))"

definition visibleProblem :: "semantic_node \<Rightarrow> tree_snapshot \<Rightarrow> problem" where
  "visibleProblem node snap =
     (case visibleRect node of
        Known v \<Rightarrow>
          if width v > 0 \<and> height v > 0
          then orElse (refuse (coordinateSpace snap = Known ViewportCells \<and>
                    \<not> rectIntersectsViewport v (columns snap) (rows snap)) VBadRect)
                (case intendedRect node of Known i \<Rightarrow> refuse (\<not> rectContains i v) VBadRect | _ \<Rightarrow> None)
          else None
      | _ \<Rightarrow> None)"

text \<open>\<open>node.state?.key\<close>\<close>

definition state_flag :: "semantic_node \<Rightarrow> string \<Rightarrow> json option" where
  "state_flag node k = (case nodeState node of None \<Rightarrow> None | Some st \<Rightarrow> js_get st (u k))"

definition checkNodeShape :: "semantic_node \<Rightarrow> tree_snapshot \<Rightarrow> node_id set \<Rightarrow> limits \<Rightarrow> problem" where
  "checkNodeShape node snap ids l = checks
     [refuse (role node = u ''generic'' \<and> (frameworkType node = None \<or> frameworkType node = Some [])) VSchema,
      refuse (state_flag node ''offscreen'' = Some (JBool True) \<and> state_flag node ''hidden'' \<noteq> Some (JBool True)) VSchema,
      first_problem (\<lambda>ob. case ob of
          Known r \<Rightarrow> refuse (unsafe_sum (row r) (height r) \<or> unsafe_sum (column r) (width r)) VBadRect
        | _ \<Rightarrow> None) [intendedRect node, visibleRect node],
      (case paintedRegion node of Some (Known r) \<Rightarrow> regionProblem r (columns snap) (rows snap) | _ \<Rightarrow> None),
      visibleProblem node snap,
      first_problem (\<lambda>r. checks [refuse (endOffset r < startOffset r) VBadRect,
          refuse (unsafe_sum (row (rangeRect r)) (height (rangeRect r))) VBadRect]) (items (textRanges node)),
      relationProblem ids l (labelledBy node),
      relationProblem ids l (describedBy node)]"

section \<open>Depths\<close>

text \<open>The ids that the loop may still meet.\<close>

definition unseen :: "(node_id, semantic_node) js_map \<Rightarrow> semantic_node option \<Rightarrow> node_id list \<Rightarrow> node_id set" where
  "unseen byId current chain =
     (case current of None \<Rightarrow> {} | Some n \<Rightarrow> insert (nodeId n) (nodeId ` set (js_values byId)) - set chain)"

lemma unseen_decreases:
  assumes "nodeId n \<notin> set chain"
  shows "card (unseen byId (case parentId n of None \<Rightarrow> None | Some p \<Rightarrow> js_get byId p) (chain @ [nodeId n])) <
    card (unseen byId (Some n) chain)"
proof (rule psubset_card_mono)
  show "finite (unseen byId (Some n) chain)" by (simp add: unseen_def)
  have "m \<in> set (js_values byId)" if "js_get byId p = Some m" for p m
    using map_of_SomeD [OF that] by force
  then show "unseen byId (case parentId n of None \<Rightarrow> None | Some p \<Rightarrow> js_get byId p) (chain @ [nodeId n]) \<subset>
      unseen byId (Some n) chain"
    using assms by (auto simp: unseen_def split: option.splits)
qed

text \<open>\<open>Inl\<close>: the id where a parent chain closes on itself. \<open>Inr\<close>: the chain that was followed and the depth above it.\<close>

function chainUp ::
  "(node_id, semantic_node) js_map \<Rightarrow> (node_id, nat) js_map \<Rightarrow> semantic_node option \<Rightarrow> node_id list \<Rightarrow>
   (node_id, node_id list \<times> nat) res" where
  "chainUp byId depths None chain = Inr (chain, 0)"
| "chainUp byId depths (Some current) chain =
     (case js_get depths (nodeId current) of
        Some d \<Rightarrow> Inr (chain, d)
      | None \<Rightarrow>
          if nodeId current \<in> set chain then Inl (nodeId current)
          else chainUp byId depths (case parentId current of None \<Rightarrow> None | Some p \<Rightarrow> js_get byId p)
                 (chain @ [nodeId current]))"
  by pat_completeness auto
termination
  by (relation "measure (\<lambda>(byId, _, current, chain). card (unseen byId current chain))") (simp_all add: unseen_decreases)

declare chainUp.simps(2) [simp del]

text \<open>The loop that assigns depths to the chain, from its upper end.\<close>

definition assignDepths :: "node_id list \<Rightarrow> nat \<Rightarrow> (node_id, nat) js_map \<Rightarrow> (node_id, nat) js_map" where
  "assignDepths chain base depths =
     snd (fold (\<lambda>i (d, m). (d + 1, js_set i (d + 1) m)) (rev chain) (base, depths))"

primrec depthsLoop ::
  "(node_id, semantic_node) js_map \<Rightarrow> semantic_node list \<Rightarrow> (node_id, nat) js_map \<Rightarrow> (node_id, (node_id, nat) js_map) res" where
  "depthsLoop byId [] depths = Inr depths"
| "depthsLoop byId (start # rest) depths =
     (if js_has depths (nodeId start) then depthsLoop byId rest depths
      else res_bind (chainUp byId depths (Some start) [])
             (\<lambda>(chain, base). depthsLoop byId rest (assignDepths chain base depths)))"

definition computeDepths ::
  "semantic_node list \<Rightarrow> (node_id, semantic_node) js_map \<Rightarrow> (node_id, (node_id, nat) js_map) res" where
  "computeDepths ns byId = depthsLoop byId ns []"

section \<open>The whole snapshot\<close>

primrec buildIndex ::
  "semantic_node list \<Rightarrow> (node_id, semantic_node) js_map \<Rightarrow> (validation_code, (node_id, semantic_node) js_map) res" where
  "buildIndex [] m = Inr m"
| "buildIndex (n # ns) m =
     (if js_has m (nodeId n) then Inl VDuplicateId else buildIndex ns (js_set (nodeId n) n m))"

primrec rootProblem :: "(node_id, semantic_node) js_map \<Rightarrow> node_id list \<Rightarrow> node_id list \<Rightarrow> problem" where
  "rootProblem byId seen [] = None"
| "rootProblem byId seen (i # is) =
     (if i \<in> set seen then Some VDuplicateId
      else case js_get byId i of
             None \<Rightarrow> Some VMissingParent
           | Some n \<Rightarrow> if parentId n \<noteq> None then Some VSchema else rootProblem byId (i # seen) is)"

definition hitProblem :: "node_id set \<Rightarrow> tree_snapshot \<Rightarrow> hit_region list \<Rightarrow> problem" where
  "hitProblem ids snap = first_problem (\<lambda>r. checks
     [refuse (hitRecipient r \<notin> ids) VMissingParent,
      refuse (\<not> rectIntersectsViewport (hitRect r) (columns snap) (rows snap)) VBadRect])"

definition recipientRegions :: "node_id set \<Rightarrow> tree_snapshot \<Rightarrow> (node_id \<times> painted_region) list \<Rightarrow> problem" where
  "recipientRegions ids snap = first_problem (\<lambda>(i, r). orElse (refuse (i \<notin> ids) VMissingParent)
     (regionProblem r (columns snap) (rows snap)))"

definition recipeProblem :: "node_id set \<Rightarrow> tree_snapshot \<Rightarrow> node_id \<times> js_string list \<Rightarrow> problem" where
  "recipeProblem ids snap = (\<lambda>(i, recipes). orElse (refuse (i \<notin> ids) VMissingParent)
     (case find (\<lambda>n. nodeId n = i) (treeNodes snap) of
        None \<Rightarrow> None
      | Some n \<Rightarrow> refuse (list_ex (\<lambda>a. a \<notin> set (items (actions n))) recipes) VProvider))"

definition factsProblem :: "node_id set \<Rightarrow> tree_snapshot \<Rightarrow> provider_evidence \<Rightarrow> provider_facts \<Rightarrow> problem" where
  "factsProblem ids snap p f = checks
     [refuse (evidenceProvider f \<noteq> providerName p) VSchema,
      (case focusState f of Some (Focused i) \<Rightarrow> refuse (i \<notin> ids) VMissingParent | _ \<Rightarrow> None),
      recipientRegions ids snap (pointerRegions f),
      recipientRegions ids snap (items (paintedRegions f)),
      hitProblem ids snap (items (providerHitGrid f)),
      first_problem (recipeProblem ids snap) (items (actionRecipes f)),
      first_problem (\<lambda>i. refuse (i \<notin> ids) VMissingParent) (items (scrollStates f))]"

primrec providersProblem :: "node_id set \<Rightarrow> tree_snapshot \<Rightarrow> js_string list \<Rightarrow> provider_evidence list \<Rightarrow> problem" where
  "providersProblem ids snap seen [] = None"
| "providersProblem ids snap seen (p # ps) =
     checks [refuse (providerName p \<in> set seen) VProvider,
             refuse (providerSession p \<noteq> sessionId snap) VProvider,
             refuse (providerRevision p \<noteq> treeRevision snap) VProvider,
             (case providerStatus p of Available f \<Rightarrow> factsProblem ids snap p f | _ \<Rightarrow> None),
             providersProblem ids snap (providerName p # seen) ps]"

definition nodeProblem ::
  "(node_id, semantic_node) js_map \<Rightarrow> tree_snapshot \<Rightarrow> limits \<Rightarrow> semantic_node \<Rightarrow> problem" where
  "nodeProblem byId snap l n = orElse
     (case parentId n of
        None \<Rightarrow> refuse (nodeId n \<notin> set (rootIds snap)) VSchema
      | Some p \<Rightarrow> if \<not> js_has byId p then Some VMissingParent else refuse (p = nodeId n) VCycle)
     (checkNodeShape n snap (set (js_keys byId)) l)"

definition checkSnapshot :: "limits \<Rightarrow> tree_snapshot \<Rightarrow> problem" where
  "checkSnapshot l snap =
     (if length (treeNodes snap) > maxNodes l then Some VCount
      else case buildIndex (treeNodes snap) [] of
             Inl c \<Rightarrow> Some c
           | Inr byId \<Rightarrow> checks
               [rootProblem byId [] (rootIds snap),
                (case hitGrid snap of Known rs \<Rightarrow> hitProblem (set (js_keys byId)) snap rs | _ \<Rightarrow> None),
                providersProblem (set (js_keys byId)) snap [] (items (providerEvidence snap)),
                first_problem (nodeProblem byId snap l) (treeNodes snap),
                (case computeDepths (treeNodes snap) byId of
                   Inl _ \<Rightarrow> Some VCycle
                 | Inr depths \<Rightarrow> first_problem (\<lambda>(_, d). refuse (d > maxDepthL l) VDepth) depths),
                (case cursor snap of None \<Rightarrow> None | Some (r, c) \<Rightarrow> refuse (r \<ge> rows snap \<or> c \<ge> columns snap) VBadRect)])"

text \<open>\<open>projected\<close> is the result of \<open>projectDto\<close>, \<open>serialised\<close> the byte length of its JSON text, if it has one, and \<open>schema\<close> the
  verdict of the schema on it.\<close>

definition validateSnapshot ::
  "(violation, 'v) res \<Rightarrow> ('v \<Rightarrow> nat option) \<Rightarrow> ('v \<Rightarrow> (validation_code, tree_snapshot) res) \<Rightarrow> limits \<Rightarrow> nat option \<Rightarrow>
   (validation_code, tree_snapshot) res" where
  "validateSnapshot projected serialised schema l wireBytes =
     (case projected of
        Inl e \<Rightarrow> Inl (if e = DtoDepth then VDepth else VSchema)
      | Inr v \<Rightarrow>
          (case (case wireBytes of Some b \<Rightarrow> Some b | None \<Rightarrow> serialised v) of
             None \<Rightarrow> Inl VSchema
           | Some bytes \<Rightarrow>
               if bytes > maxSnapshotBytes l then Inl VBytes
               else res_bind (schema v) (\<lambda>snap.
                      case checkSnapshot l snap of Some c \<Rightarrow> Inl c | None \<Rightarrow> Inr snap)))"

end
