(* ===== verification/Snapshot_Props.thy ===== *)
theory Snapshot_Props
  imports Snapshot
begin

text \<open>
  What the validation of semantic trees guarantees: the depths that \<open>computeDepths\<close> assigns are the depths of the forest, and
  an accepted snapshot is such a forest with all its references resolved.
\<close>

section \<open>Early returns\<close>

lemma orElse_None [simp]: "orElse a b = None \<longleftrightarrow> a = None \<and> b = None"
  by (simp add: orElse_def split: option.split)

lemma refuse_None [simp]: "refuse b c = None \<longleftrightarrow> \<not> b"
  by (simp add: refuse_def)

lemma first_problem_None [simp]: "first_problem f xs = None \<longleftrightarrow> (\<forall>x \<in> set xs. f x = None)"
  by (induction xs) auto

lemma checks_None [simp]: "checks ps = None \<longleftrightarrow> (\<forall>p \<in> set ps. p = None)"
  by (induction ps) auto

section \<open>The forest\<close>

definition parent_rel :: "semantic_node list \<Rightarrow> (node_id \<times> node_id) set" where
  "parent_rel ns = {(nodeId n, p) | n p. n \<in> set ns \<and> parentId n = Some p}"

inductive depth_of :: "semantic_node list \<Rightarrow> node_id \<Rightarrow> nat \<Rightarrow> bool" for ns where
  depth_root: "n \<in> set ns \<Longrightarrow> parentId n = None \<Longrightarrow> depth_of ns (nodeId n) 1"
| depth_child: "n \<in> set ns \<Longrightarrow> parentId n = Some p \<Longrightarrow> depth_of ns p d \<Longrightarrow> depth_of ns (nodeId n) (Suc d)"

abbreviation index_of :: "semantic_node list \<Rightarrow> (node_id, semantic_node) js_map" where
  "index_of ns \<equiv> map (\<lambda>n. (nodeId n, n)) ns"

text \<open>Unique ids and existing parents.\<close>

definition tree_ok :: "semantic_node list \<Rightarrow> bool" where
  "tree_ok ns \<longleftrightarrow> distinct (map nodeId ns) \<and> (\<forall>n \<in> set ns. \<forall>p. parentId n = Some p \<longrightarrow> p \<in> nodeId ` set ns)"

lemma index_get: "tree_ok ns \<Longrightarrow> js_get (index_of ns) i = Some n \<longleftrightarrow> n \<in> set ns \<and> nodeId n = i"
  by (auto simp: tree_ok_def js_get_Some_iff o_def)

lemma index_member: "tree_ok ns \<Longrightarrow> n \<in> set ns \<Longrightarrow> js_get (index_of ns) (nodeId n) = Some n"
  by (simp add: index_get)

lemma buildIndex_spec:
  "buildIndex ns m = Inr m' \<Longrightarrow> m' = m @ index_of ns \<and> (distinct (js_keys m) \<longrightarrow> distinct (js_keys m'))"
proof (induction ns arbitrary: m)
  case (Cons n ns)
  then have new: "nodeId n \<notin> set (js_keys m)" by (auto simp: js_get_None_iff split: if_splits)
  then have "js_set (nodeId n) n m = m @ [(nodeId n, n)]" by (rule js_set_absent)
  then have "buildIndex ns (m @ [(nodeId n, n)]) = Inr m'" using Cons.prems by (simp split: if_splits)
  note ih = Cons.IH [OF this]
  show ?case
  proof (intro conjI impI)
    show "m' = m @ index_of (n # ns)" using ih by simp
    assume "wf_map m"
    with new have "wf_map (m @ [(nodeId n, n)])" by simp
    with ih show "wf_map m'" by blast
  qed
qed simp

lemma depth_unique_acyclic:
  "depth_of ns i d \<Longrightarrow> distinct (map nodeId ns) \<Longrightarrow> (i, j) \<in> (parent_rel ns)\<^sup>+ \<Longrightarrow> \<exists>d' < d. depth_of ns j d'"
proof (induction arbitrary: j rule: depth_of.induct)
  case (depth_root n)
  then obtain k where "(nodeId n, k) \<in> parent_rel ns" by (meson tranclD)
  then obtain m where "m \<in> set ns" "nodeId m = nodeId n" "parentId m = Some k" by (auto simp: parent_rel_def)
  with depth_root show ?case by (metis distinct_map inj_onD option.distinct(1))
next
  case (depth_child n p d)
  from depth_child.prems(2) obtain k where k: "(nodeId n, k) \<in> parent_rel ns" "(k, j) \<in> (parent_rel ns)\<^sup>*" by (meson tranclD)
  then obtain m where "m \<in> set ns" "nodeId m = nodeId n" "parentId m = Some k" by (auto simp: parent_rel_def)
  with depth_child have "k = p" by (metis distinct_map inj_onD option.inject)
  with k(2) depth_child.IH depth_child.hyps(3) depth_child.prems(1) show ?case
    by (metis less_Suc_eq rtranclD)
qed

section \<open>Following parents\<close>

text \<open>\<open>climbs ns tip rev_chain\<close>: the chain, read from its end, leads up to \<open>tip\<close>.\<close>

primrec climbs :: "semantic_node list \<Rightarrow> node_id option \<Rightarrow> node_id list \<Rightarrow> bool" where
  "climbs ns tip [] = True"
| "climbs ns tip (i # is) \<longleftrightarrow> (\<exists>n \<in> set ns. nodeId n = i \<and> parentId n = tip) \<and> climbs ns (Some i) is"

lemma climbs_trancl: "climbs ns (Some t) is \<Longrightarrow> i \<in> set is \<Longrightarrow> (i, t) \<in> (parent_rel ns)\<^sup>+"
proof (induction "is" arbitrary: t)
  case (Cons j "is")
  then have "(j, t) \<in> parent_rel ns" by (auto simp: parent_rel_def)
  with Cons show ?case by (cases "i = j") (auto intro: trancl_into_trancl)
qed simp

definition depths_ok :: "semantic_node list \<Rightarrow> (node_id, nat) js_map \<Rightarrow> bool" where
  "depths_ok ns depths \<longleftrightarrow> wf_map depths \<and> (\<forall>(i, d) \<in> set depths. depth_of ns i d)"

definition tip_ok :: "semantic_node list \<Rightarrow> node_id option \<Rightarrow> nat \<Rightarrow> bool" where
  "tip_ok ns tip base = (case tip of None \<Rightarrow> base = 0 | Some t \<Rightarrow> depth_of ns t base)"

lemma chainUp_spec:
  assumes "tree_ok ns" "depths_ok ns depths" "climbs ns (map_option nodeId current) (rev chain)"
    and "\<forall>n. current = Some n \<longrightarrow> n \<in> set ns"
  shows "case chainUp (index_of ns) depths current chain of
      Inl c \<Rightarrow> (c, c) \<in> (parent_rel ns)\<^sup>+
    | Inr (chain', base) \<Rightarrow> \<exists>tip. climbs ns tip (rev chain') \<and> tip_ok ns tip base \<and> set chain \<subseteq> set chain' \<and>
        (\<forall>n. current = Some n \<and> js_get depths (nodeId n) = None \<longrightarrow> nodeId n \<in> set chain')"
  using assms
proof (induction "index_of ns" depths current chain rule: chainUp.induct)
  case (1 depths chain)
  then show ?case by (auto simp: tip_ok_def intro!: exI [of _ None])
next
  case (2 depths current chain)
  show ?case
  proof (cases "js_get depths (nodeId current)")
    case (Some d)
    then have "depth_of ns (nodeId current) d" using "2.prems"(2) map_of_SomeD [OF Some] by (auto simp: depths_ok_def)
    with Some "2.prems"(3) show ?thesis
      by (auto simp: chainUp.simps tip_ok_def intro!: exI [of _ "Some (nodeId current)"])
  next
    case None
    show ?thesis
    proof (cases "nodeId current \<in> set chain")
      case True
      then have "(nodeId current, nodeId current) \<in> (parent_rel ns)\<^sup>+"
        using "2.prems"(3) by (intro climbs_trancl [of ns _ "rev chain"]) simp_all
      with None True show ?thesis by (simp add: chainUp.simps)
    next
      case False
      let ?up = "case parentId current of None \<Rightarrow> None | Some p \<Rightarrow> js_get (index_of ns) p"
      have cur: "current \<in> set ns" using "2.prems"(4) by simp
      have up: "map_option nodeId ?up = parentId current \<and> (\<forall>n. ?up = Some n \<longrightarrow> n \<in> set ns)"
      proof (cases "parentId current")
        case (Some p)
        then obtain m where "m \<in> set ns" "nodeId m = p" using "2.prems"(1) cur by (auto simp: tree_ok_def)
        with Some index_member [OF "2.prems"(1)] show ?thesis by auto
      qed simp
      have "climbs ns (map_option nodeId ?up) (rev (chain @ [nodeId current]))" using up cur "2.prems"(3) by auto
      from "2.hyps" [OF None False "2.prems"(1,2) this] up
      show ?thesis using None False by (auto simp: chainUp.simps split: sum.splits prod.splits)
    qed
  qed
qed

lemma assignDepths_snoc:
  "assignDepths (chain @ [i]) base depths = assignDepths chain (base + 1) (js_set i (base + 1) depths)"
  by (simp add: assignDepths_def)

lemma assignDepths_spec:
  assumes "depths_ok ns depths" "climbs ns tip (rev chain)" "tip_ok ns tip base"
  shows "depths_ok ns (assignDepths chain base depths) \<and>
    set (js_keys (assignDepths chain base depths)) = set (js_keys depths) \<union> set chain"
  using assms
proof (induction chain arbitrary: depths tip base rule: rev_induct)
  case Nil
  then show ?case by (simp add: assignDepths_def)
next
  case (snoc i chain)
  obtain n where n: "n \<in> set ns" "nodeId n = i" "parentId n = tip" using snoc.prems(2) by auto
  have d: "depth_of ns i (Suc base)"
    using n snoc.prems(3) depth_of.intros [of n ns] by (cases tip) (auto simp: tip_ok_def)
  have wf: "wf_map depths" using snoc.prems(1) by (simp add: depths_ok_def)
  have "depths_ok ns (js_set i (Suc base) depths)"
    using snoc.prems(1) d wf by (auto simp: depths_ok_def set_js_set)
  moreover have "set (js_keys (js_set i (Suc base) depths)) = insert i (set (js_keys depths))" by (auto simp: update_keys)
  ultimately show ?case
    using snoc.IH [of "js_set i (Suc base) depths" "Some i" "Suc base"] snoc.prems(2) d
    by (auto simp: assignDepths_snoc tip_ok_def)
qed

lemma depthsLoop_spec:
  assumes "tree_ok ns" "depths_ok ns depths" "set todo \<subseteq> set ns"
  shows "case depthsLoop (index_of ns) todo depths of
      Inl c \<Rightarrow> (c, c) \<in> (parent_rel ns)\<^sup>+
    | Inr depths' \<Rightarrow> depths_ok ns depths' \<and> set (js_keys depths) \<union> nodeId ` set todo \<subseteq> set (js_keys depths')"
  using assms
proof (induction todo arbitrary: depths)
  case (Cons n todo)
  show ?case
  proof (cases "js_has depths (nodeId n)")
    case True
    then have key: "nodeId n \<in> set (js_keys depths)" using js_get_None_iff [of depths "nodeId n"] by simp
    have "set todo \<subseteq> set ns" using Cons.prems(3) by simp
    from Cons.IH [OF Cons.prems(1,2) this] show ?thesis using True key by (auto split: sum.splits)
  next
    case False
    have "climbs ns (map_option nodeId (Some n)) (rev [])" by simp
    note up = chainUp_spec [OF Cons.prems(1,2) this]
    show ?thesis
    proof (cases "chainUp (index_of ns) depths (Some n) []")
      case (Inl c)
      with up Cons.prems(3) False show ?thesis by simp
    next
      case (Inr r)
      then obtain chain base where r: "chainUp (index_of ns) depths (Some n) [] = Inr (chain, base)" by (cases r) auto
      with up Cons.prems(3) False obtain tip where tip: "climbs ns tip (rev chain)" "tip_ok ns tip base" "nodeId n \<in> set chain"
        by auto
      note a = assignDepths_spec [OF Cons.prems(2) tip(1,2)]
      have "set todo \<subseteq> set ns" using Cons.prems(3) by simp
      from Cons.IH [OF Cons.prems(1) _ this, of "assignDepths chain base depths"] a tip(3) r False
      show ?thesis by (auto split: sum.splits)
    qed
  qed
qed simp

lemma computeDepths_spec:
  assumes "tree_ok ns"
  shows "case computeDepths ns (index_of ns) of
      Inl c \<Rightarrow> (c, c) \<in> (parent_rel ns)\<^sup>+
    | Inr depths \<Rightarrow> depths_ok ns depths \<and> nodeId ` set ns \<subseteq> set (js_keys depths)"
  using depthsLoop_spec [OF assms, of "[]" ns] by (auto simp: computeDepths_def depths_ok_def split: sum.splits)

lemma depths_lookup:
  assumes "depths_ok ns depths" "nodeId ` set ns \<subseteq> set (js_keys depths)" "n \<in> set ns"
  shows "\<exists>d. js_get depths (nodeId n) = Some d \<and> depth_of ns (nodeId n) d"
proof -
  have "nodeId n \<in> set (js_keys depths)" using assms(2,3) by blast
  then obtain d where "js_get depths (nodeId n) = Some d" using js_get_None_iff [of depths "nodeId n"] by auto
  moreover from map_of_SomeD [OF this] assms(1) have "depth_of ns (nodeId n) d" by (auto simp: depths_ok_def)
  ultimately show ?thesis by blast
qed

lemma depth_acyclic: "tree_ok ns \<Longrightarrow> depth_of ns i d \<Longrightarrow> (i, i) \<notin> (parent_rel ns)\<^sup>+"
proof (induction d arbitrary: i rule: less_induct)
  case (less d)
  show ?case
  proof
    assume loop: "(i, i) \<in> (parent_rel ns)\<^sup>+"
    with depth_unique_acyclic [OF less.prems(2) _ loop] less.prems(1) obtain d' where "d' < d" "depth_of ns i d'"
      by (auto simp: tree_ok_def)
    with less.IH [OF this(1) less.prems(1)] loop show False by blast
  qed
qed

section \<open>Theorems\<close>

text \<open>\<open>computeDepths\<close> is correct and terminates on every list of nodes with unique ids and existing parents. It returns a
  depth for every node, each the length of the node's chain of ancestors, if and only if the parents are acyclic; otherwise
  it names a node on a cycle.\<close>

theorem computeDepths_correct:
  assumes "tree_ok ns"
  shows "case computeDepths ns (index_of ns) of
      Inl c \<Rightarrow> (c, c) \<in> (parent_rel ns)\<^sup>+
    | Inr depths \<Rightarrow> (\<forall>n \<in> set ns. \<exists>d. js_get depths (nodeId n) = Some d \<and> depth_of ns (nodeId n) d) \<and>
        (\<forall>n \<in> set ns. (nodeId n, nodeId n) \<notin> (parent_rel ns)\<^sup>+)"
proof (cases "computeDepths ns (index_of ns)")
  case (Inl c)
  with computeDepths_spec [OF assms] show ?thesis by simp
next
  case (Inr depths)
  have spec: "depths_ok ns depths" "nodeId ` set ns \<subseteq> set (js_keys depths)"
    using computeDepths_spec [OF assms] Inr by simp_all
  have depth: "\<exists>d. js_get depths (nodeId n) = Some d \<and> depth_of ns (nodeId n) d" if "n \<in> set ns" for n
    using spec that by (rule depths_lookup)
  then have "\<forall>n \<in> set ns. (nodeId n, nodeId n) \<notin> (parent_rel ns)\<^sup>+" using depth_acyclic [OF assms] by blast
  with depth Inr show ?thesis by simp
qed

definition leaf_node :: "string \<Rightarrow> string option \<Rightarrow> semantic_node" where
  "leaf_node i p = \<lparr>nodeId = u i, parentId = map_option u p, role = u ''text'', frameworkType = None, nodeName = u i, testId = None,
     nodeValue = None, nodeState = None, actions = None, labelledBy = None, describedBy = None, textRanges = None, intendedRect = Unknown,
     visibleRect = Unknown, paintedRegion = None\<rparr>"

theorem computeDepths_correct_witness:
  "tree_ok [leaf_node ''a'' (Some ''b''), leaf_node ''b'' (Some ''a'')] \<and>
   (\<exists>c. computeDepths [leaf_node ''a'' (Some ''b''), leaf_node ''b'' (Some ''a'')]
        (index_of [leaf_node ''a'' (Some ''b''), leaf_node ''b'' (Some ''a'')]) = Inl c \<and>
      (c, c) \<in> (parent_rel [leaf_node ''a'' (Some ''b''), leaf_node ''b'' (Some ''a'')])\<^sup>+)"
proof -
  let ?ns = "[leaf_node ''a'' (Some ''b''), leaf_node ''b'' (Some ''a'')]"
  have ok: "tree_ok ?ns" by (simp add: tree_ok_def leaf_node_def)
  have "computeDepths ?ns (index_of ?ns) = Inl (u ''a'')"
    by (simp add: computeDepths_def leaf_node_def chainUp.simps)
  with computeDepths_correct [OF ok] ok show ?thesis by auto
qed

lemma relationProblem_None: "relationProblem ids l ts = None \<Longrightarrow> set (items ts) \<subseteq> ids"
  by (auto simp: relationProblem_def split: option.splits)

lemma rootProblem_None:
  "rootProblem byId seen is = None \<Longrightarrow> distinct is \<and> set is \<inter> set seen = {} \<and>
     (\<forall>i \<in> set is. \<exists>n. js_get byId i = Some n \<and> parentId n = None)"
proof (induction "is" arbitrary: seen)
  case (Cons i "is")
  then have "i \<notin> set seen" "\<exists>n. js_get byId i = Some n \<and> parentId n = None" "rootProblem byId (i # seen) is = None"
    by (auto split: if_splits option.splits)
  with Cons.IH [OF this(3)] show ?case by auto
qed simp

lemma validated_depths:
  assumes "checkSnapshot l snap = None"
  shows "tree_ok (treeNodes snap)" and "n \<in> set (treeNodes snap) \<Longrightarrow> \<exists>d \<le> maxDepthL l. depth_of (treeNodes snap) (nodeId n) d"
proof -
  let ?ns = "treeNodes snap"
  obtain byId where byId: "buildIndex ?ns [] = Inr byId"
    using assms by (auto simp: checkSnapshot_def split: if_splits sum.splits)
  then have idx: "byId = index_of ?ns" "distinct (map nodeId ?ns)" using buildIndex_spec [OF byId] by (auto simp: o_def)
  have nodes: "\<forall>n \<in> set ?ns. nodeProblem byId snap l n = None"
    and deep: "(case computeDepths ?ns byId of Inl _ \<Rightarrow> Some VCycle
        | Inr depths \<Rightarrow> first_problem (\<lambda>(_, d). refuse (d > maxDepthL l) VDepth) depths) = None"
    using assms byId by (simp_all add: checkSnapshot_def split: if_splits)
  show ok: "tree_ok ?ns"
    using nodes idx by (auto simp: tree_ok_def nodeProblem_def js_get_None_iff image_image split: if_splits option.splits)
  assume n: "n \<in> set ?ns"
  obtain depths where d: "computeDepths ?ns byId = Inr depths" "\<forall>(i, d) \<in> set depths. d \<le> maxDepthL l"
    using deep by (force split: sum.splits)
  with computeDepths_spec [OF ok] idx(1) depths_lookup [OF _ _ n, of depths] obtain k where
    k: "js_get depths (nodeId n) = Some k" "depth_of ?ns (nodeId n) k" by auto
  from map_of_SomeD [OF k(1)] d(2) k(2) show "\<exists>d \<le> maxDepthL l. depth_of ?ns (nodeId n) d" by auto
qed

lemma validated_root_ids:
  assumes "checkSnapshot l snap = None"
  shows "distinct (rootIds snap)" and "set (rootIds snap) = nodeId ` {n \<in> set (treeNodes snap). parentId n = None}"
proof -
  let ?ns = "treeNodes snap"
  obtain byId where byId: "buildIndex ?ns [] = Inr byId"
    using assms by (auto simp: checkSnapshot_def split: if_splits sum.splits)
  then have idx: "byId = index_of ?ns" using buildIndex_spec [OF byId] by (auto simp: o_def)
  have roots: "rootProblem byId [] (rootIds snap) = None" and nodes: "\<forall>n \<in> set ?ns. nodeProblem byId snap l n = None"
    using assms byId by (simp_all add: checkSnapshot_def split: if_splits)
  show "distinct (rootIds snap)" using rootProblem_None [OF roots] by auto
  show "set (rootIds snap) = nodeId ` {n \<in> set ?ns. parentId n = None}"
  proof (intro equalityI subsetI)
    fix i assume "i \<in> set (rootIds snap)"
    then obtain n where "js_get byId i = Some n" "parentId n = None" using rootProblem_None [OF roots] by blast
    then show "i \<in> nodeId ` {n \<in> set ?ns. parentId n = None}" using index_get [OF validated_depths(1) [OF assms]] idx by auto
  next
    fix i assume "i \<in> nodeId ` {n \<in> set ?ns. parentId n = None}"
    then show "i \<in> set (rootIds snap)" using nodes by (auto simp: nodeProblem_def)
  qed
qed

text \<open>C8: An accepted snapshot is a forest. Node ids are unique, the roots are exactly the nodes without a parent, each once,
  every parent exists, every node has a depth between 1 and \<open>maxDepth\<close>, so that no parent chain is cyclic, and every
  relation of a node refers to a node of the snapshot.\<close>

theorem validated_forest:
  assumes "checkSnapshot l snap = None"
  shows "distinct (map nodeId (treeNodes snap)) \<and> distinct (rootIds snap) \<and>
    set (rootIds snap) = nodeId ` {n \<in> set (treeNodes snap). parentId n = None} \<and>
    (\<forall>n \<in> set (treeNodes snap). (\<exists>d \<le> maxDepthL l. depth_of (treeNodes snap) (nodeId n) d) \<and>
       set (items (labelledBy n)) \<union> set (items (describedBy n)) \<subseteq> nodeId ` set (treeNodes snap))"
proof -
  let ?ns = "treeNodes snap"
  obtain byId where byId: "buildIndex ?ns [] = Inr byId"
    using assms by (auto simp: checkSnapshot_def split: if_splits sum.splits)
  then have idx: "byId = index_of ?ns" "distinct (map nodeId ?ns)" using buildIndex_spec [OF byId] by (auto simp: o_def)
  have nodes: "\<forall>n \<in> set ?ns. nodeProblem byId snap l n = None"
    using assms byId by (simp_all add: checkSnapshot_def split: if_splits)
  note depth = validated_depths(2) [OF assms]
  have keys: "set (js_keys byId) = nodeId ` set ?ns" using idx(1) by (auto simp: image_image)
  have rel: "set (items (labelledBy n)) \<union> set (items (describedBy n)) \<subseteq> nodeId ` set ?ns" if "n \<in> set ?ns" for n
  proof -
    have "relationProblem (set (js_keys byId)) l (labelledBy n) = None" "relationProblem (set (js_keys byId)) l (describedBy n) = None"
      using nodes that by (simp_all add: nodeProblem_def checkNodeShape_def)
    then show ?thesis using relationProblem_None keys by blast
  qed
  show ?thesis using idx(2) validated_root_ids [OF assms] depth rel by auto
qed

definition demo_tree :: tree_snapshot where
  "demo_tree = \<lparr>sessionId = u ''s'', treeRevision = 1, columns = 80, rows = 24, cursor = Some (0, 0), rootIds = [u ''a''],
     treeNodes = [leaf_node ''b'' (Some ''a''), (leaf_node ''a'' None)\<lparr>labelledBy := Some [u ''b'']\<rparr>],
     coordinateSpace = Known ViewportCells, hitGrid = Unknown, providerEvidence = None\<rparr>"

lemma demo_tree_ok: "checkSnapshot DEFAULT_LIMITS demo_tree = None"
  by (simp add: checkSnapshot_def demo_tree_def leaf_node_def DEFAULT_LIMITS_def nodeProblem_def checkNodeShape_def
      relationProblem_def visibleProblem_def state_flag_def computeDepths_def chainUp.simps assignDepths_def orElse_def refuse_def)

theorem validated_forest_witness:
  "checkSnapshot DEFAULT_LIMITS demo_tree = None \<and> (\<exists>d. depth_of (treeNodes demo_tree) (u ''b'') d \<and> d \<le> 64) \<and>
   u ''b'' \<in> nodeId ` set (treeNodes demo_tree)"
proof -
  let ?b = "leaf_node ''b'' (Some ''a'')"
  have b: "?b \<in> set (treeNodes demo_tree)" "nodeId ?b = u ''b''"
    by (simp_all add: demo_tree_def leaf_node_def)
  have "\<exists>d \<le> maxDepthL DEFAULT_LIMITS. depth_of (treeNodes demo_tree) (nodeId ?b) d"
    using validated_forest [OF demo_tree_ok] b(1) by blast
  then have "\<exists>d. depth_of (treeNodes demo_tree) (u ''b'') d \<and> d \<le> 64" unfolding b(2) by (auto simp: DEFAULT_LIMITS_def)
  with demo_tree_ok imageI [OF b(1), of nodeId] b(2) show ?thesis by simp
qed

end
