(* ===== verification/SemanticDelta_Props.thy ===== *)
theory SemanticDelta_Props
  imports SemanticDelta Snapshot_Props "HOL-Library.Multiset"
begin

text \<open>
  Applying the difference of two committed snapshots to the first reconstructs the second, up to the order of the nodes and
  up to \<open>valueEqual\<close> on the fields that were not sent.
\<close>

section \<open>Field lists\<close>

text \<open>What a committed snapshot promises: the schema requires it of every snapshot.\<close>

definition node_ok :: "fields \<Rightarrow> bool" where
  "node_ok n \<longleftrightarrow> wf_map n \<and> attr n ''id'' = Some (JString (nid n)) \<and> nid n \<noteq> [] \<and> set (js_keys n) \<subseteq> set SEMANTIC_NODE_KEYS \<and>
     set REQUIRED_NODE_FIELDS \<subseteq> set (js_keys n)"

definition committed_ok :: "committed \<Rightarrow> bool" where
  "committed_ok c \<longleftrightarrow> distinct (map nid (cNodes c)) \<and> (\<forall>n \<in> set (cNodes c). node_ok n) \<and> 0 < cRevision c \<and>
     cRevision c \<le> MAX_SAFE_INTEGER \<and> wf_map (cTop c) \<and> set (js_keys (cTop c)) \<subseteq> set SNAPSHOT_FIELDS \<and>
     set SNAPSHOT_FIELDS - set SNAPSHOT_CLEAR_FIELDS \<subseteq> set (js_keys (cTop c))"

definition same_value :: "json option \<Rightarrow> json option \<Rightarrow> bool" where
  "same_value a b \<longleftrightarrow> a = b \<or> optEqual a b"

lemma optEqual_None [simp]: "optEqual a None \<longleftrightarrow> a = None" "optEqual None b \<longleftrightarrow> b = None"
  by (cases a; simp) (cases b; simp)

lemma changedSet_keys: "js_keys (changedSet names old new) =
    filter (\<lambda>f. js_get new f \<noteq> None \<and> \<not> optEqual (js_get old f) (js_get new f)) names"
  by (induction names) (auto simp: changedSet_def List.map_filter_simps split: option.splits)

lemma changedSet_get:
  assumes "distinct names"
  shows "js_get (changedSet names old new) f =
    (if f \<in> set names \<and> \<not> optEqual (js_get old f) (js_get new f) then js_get new f else None)"
  using assms
proof (induction names)
  case Nil
  then show ?case by (simp add: changedSet_def List.map_filter_simps)
next
  case (Cons g names)
  have "changedSet (g # names) old new = (case js_get new g of
      Some v \<Rightarrow> if optEqual (js_get old g) (Some v) then changedSet names old new else (g, v) # changedSet names old new
    | None \<Rightarrow> changedSet names old new)"
    by (auto simp: changedSet_def List.map_filter_simps split: option.split)
  with Cons show ?case by (auto split: option.splits if_splits)
qed

lemma fold_js_set_get:
  "wf_map s \<Longrightarrow> js_get (fold (\<lambda>(k, v). js_set k v) s m) f = (case js_get s f of Some v \<Rightarrow> Some v | None \<Rightarrow> js_get m f)"
proof (induction s arbitrary: m)
  case (Cons e s)
  obtain k v where e: "e = (k, v)" by (cases e)
  have "js_get s k = None" using Cons.prems e by (simp add: js_get_None_iff)
  with Cons e show ?case by (auto simp: js_get_set split: option.split)
qed simp

lemma fold_js_delete_get: "js_get (fold js_delete c m) f = (if f \<in> set c then None else js_get m f)"
  by (induction c arbitrary: m) (auto simp: js_get_delete)

lemma patchNode_get:
  "wf_map s \<Longrightarrow> js_get (patchNode p s c) f =
     (if f \<in> set c then None else case js_get s f of Some v \<Rightarrow> Some v | None \<Rightarrow> js_get p f)"
  by (simp add: patchNode_def fold_js_delete_get fold_js_set_get)

lemma changedClear_set: "f \<in> set (changedClear names old new) \<longleftrightarrow>
    f \<in> set names \<and> js_get new f = None \<and> js_get old f \<noteq> None"
  by (auto simp: changedClear_def)

lemma NODE_PATCH_FIELDS_eq: "NODE_PATCH_FIELDS = tl SEMANTIC_NODE_KEYS"
  by (simp add: NODE_PATCH_FIELDS_def SEMANTIC_NODE_KEYS_def)

lemma node_keys_distinct: "distinct SEMANTIC_NODE_KEYS" "distinct NODE_PATCH_FIELDS" "distinct SNAPSHOT_FIELDS"
  by (simp_all add: NODE_PATCH_FIELDS_eq SEMANTIC_NODE_KEYS_def SNAPSHOT_FIELDS_def)

lemma SEMANTIC_NODE_KEYS_split: "set SEMANTIC_NODE_KEYS = insert (u ''id'') (set NODE_PATCH_FIELDS)" "u ''id'' \<notin> set NODE_PATCH_FIELDS"
  by (auto simp: NODE_PATCH_FIELDS_eq SEMANTIC_NODE_KEYS_def)

lemma unchanged:
  assumes "\<And>f. optEqual (js_get n f) (js_get n f)"
  shows "changedSet names n n = []" and "changedClear names n n = []"
proof -
  have "js_keys (changedSet names n n) = []" unfolding changedSet_keys using assms by simp
  then show "changedSet names n n = []" by simp
  show "changedClear names n n = []" by (auto simp: changedClear_def filter_empty_conv)
qed

text \<open>Patching with the changed fields gives the new fields, up to \<open>valueEqual\<close>.\<close>

lemma patch_changed:
  assumes "distinct names"
  shows "same_value (js_get (patchNode old (changedSet names old new) (changedClear names old new)) f)
    (if f \<in> set names then js_get new f else js_get old f)"
proof -
  have "wf_map (changedSet names old new)" unfolding changedSet_keys using assms by simp
  then show ?thesis
    by (auto simp: patchNode_get changedSet_get [OF assms] changedClear_set same_value_def split: option.splits)
qed

lemma patched_node:
  assumes "node_ok old" "node_ok new" "nid old = nid new"
  shows "same_value (js_get (patchNode old (changedSet NODE_PATCH_FIELDS old new) (changedClear NODE_PATCH_FIELDS old new)) f)
    (js_get new f)"
proof (cases "f \<in> set NODE_PATCH_FIELDS")
  case False
  have "js_get old f = js_get new f"
  proof (cases "f = u ''id''")
    case True
    with assms show ?thesis by (simp add: node_ok_def attr_def)
  next
    case other: False
    with False have "f \<notin> set SEMANTIC_NODE_KEYS" by (simp add: SEMANTIC_NODE_KEYS_split)
    then have "f \<notin> set (js_keys old)" "f \<notin> set (js_keys new)" using assms(1,2) by (auto simp: node_ok_def)
    then have "js_get old f = None" "js_get new f = None" unfolding js_get_None_iff by simp_all
    then show ?thesis by simp
  qed
  with patch_changed [OF node_keys_distinct(2), of old new f] False show ?thesis by simp
qed (use patch_changed [OF node_keys_distinct(2), of old new f] in simp)

section \<open>Staging\<close>

lemma nodeIndex_append:
  "distinct (js_keys m @ map nid ns) \<Longrightarrow> fold (\<lambda>n. js_set (nid n) n) ns m = m @ map (\<lambda>n. (nid n, n)) ns"
proof (induction ns arbitrary: m)
  case (Cons n ns)
  then have "js_set (nid n) n m = m @ [(nid n, n)]" by (intro js_set_absent) auto
  with Cons show ?case by simp
qed simp

lemma nodeIndex_eq: "distinct (map nid ns) \<Longrightarrow> nodeIndex ns = map (\<lambda>n. (nid n, n)) ns"
  using nodeIndex_append [of "[]" ns] by (simp add: nodeIndex_def)

lemma nodeIndex_None: "distinct (map nid ns) \<Longrightarrow> js_get (nodeIndex ns) i = None \<longleftrightarrow> i \<notin> nid ` set ns"
  unfolding js_get_None_iff by (simp add: nodeIndex_eq image_image)

lemma removeNodes_ok:
  "distinct is \<Longrightarrow> set is \<subseteq> set (js_keys m) \<Longrightarrow> removeNodes is m = Inr (filter (\<lambda>(k, _). k \<notin> set is) m)"
proof (induction "is" arbitrary: m)
  case (Cons i "is")
  have "js_has m i" using Cons.prems(2) js_get_None_iff [of m i] by auto
  moreover have "set is \<subseteq> set (js_keys (js_delete i m))" using Cons.prems by (auto simp: AList.delete_keys)
  moreover have "filter (\<lambda>(k, _). k \<notin> set is) (js_delete i m) = filter (\<lambda>(k, _). k \<notin> set (i # is)) m"
    by (auto simp: AList.delete_eq intro!: filter_cong)
  ultimately show ?case using Cons by simp
qed simp

lemma insertNodes_ok:
  "distinct (js_keys m @ map nid ns) \<Longrightarrow> insertNodes ns m = Inr (m @ map (\<lambda>n. (nid n, n)) ns)"
proof (induction ns arbitrary: m)
  case (Cons n ns)
  then have "nid n \<notin> set (js_keys m)" by auto
  then have "\<not> js_has m (nid n)" "js_set (nid n) n m = m @ [(nid n, n)]"
    using js_get_None_iff [of m "nid n"] js_set_absent [of "nid n" m n] by simp_all
  with Cons show ?case by simp
qed simp

text \<open>Updates of distinct existing nodes replace them in place.\<close>

definition patched :: "node_update list \<Rightarrow> js_string \<times> fields \<Rightarrow> js_string \<times> fields" where
  "patched us = (\<lambda>(k, n). (k, case find (\<lambda>d. updId d = k) us of
     Some d \<Rightarrow> patchNode n (updSet d) (updClear d) | None \<Rightarrow> n))"

definition update_ok :: "node_update \<Rightarrow> bool" where
  "update_ok d \<longleftrightarrow> (updSet d \<noteq> [] \<or> updClear d \<noteq> []) \<and> distinct (updClear d) \<and> set (js_keys (updSet d)) \<subseteq> set NODE_PATCH_FIELDS \<and>
     set (js_keys (updSet d)) \<inter> set (updClear d) = {} \<and> set (updClear d) \<subseteq> set NODE_PATCH_FIELDS - set REQUIRED_NODE_FIELDS"

lemma js_set_present:
  "wf_map m \<Longrightarrow> k \<in> set (js_keys m) \<Longrightarrow> js_set k v m = map (\<lambda>(k', w). (k', if k' = k then v else w)) m"
proof (induction m)
  case (Cons e m)
  show ?case
  proof (cases "fst e = k")
    case True
    with Cons.prems have "k \<notin> fst ` set m" by simp
    then have "\<forall>x \<in> set m. fst x \<noteq> k" by (metis imageI)
    then have "map (\<lambda>(k', w). (k', if k' = k then v else w)) m = m" by (intro map_idI) auto
    with True show ?thesis by (cases e) simp
  qed (use Cons in \<open>auto split: prod.split\<close>)
qed simp

lemma update_json_attrs:
  "nid (object_of (updateJson d)) = updId d"
  "objectOr (attr (object_of (updateJson d)) ''set'') = Some (updSet d)"
  "arrayOr (attr (object_of (updateJson d)) ''clear'') = Some (map JString (updClear d))"
  "set (js_keys (object_of (updateJson d))) \<subseteq> {u ''id'', u ''set'', u ''clear''}"
  by (auto simp: object_of_def updateJson_def nid_def attr_def objectOr_def arrayOr_def names_json_def)

lemma checkPatch_ok: "update_ok d \<Longrightarrow> checkPatch (updSet d) (updClear d) = None"
  by (fastforce simp: update_ok_def checkPatch_def duplicate_def SEMANTIC_NODE_KEYS_split)

lemma string_names: "list_ex (\<lambda>f. string_of f = None) (map JString c) = False" "map (the \<circ> string_of) (map JString c) = c"
  by (induction c) (simp_all add: string_of_def)

lemma updateNode_ok:
  assumes "update_ok d" "wf_map m" "updId d \<in> set (js_keys m)"
  shows "updateNode (object_of (updateJson d)) m = Inr (map (patched [d]) m)"
proof -
  obtain p where p: "js_get m (updId d) = Some p" using assms(3) js_get_None_iff [of m "updId d"] by auto
  have "updateNode (object_of (updateJson d)) m = Inr (js_set (updId d) (patchNode p (updSet d) (updClear d)) m)"
    using p assms(1) update_json_attrs [of d] checkPatch_ok [OF assms(1)]
    unfolding updateNode_def update_json_attrs(1-3)
    by (auto simp: update_ok_def string_names simp del: map_map)
  also have "js_set (updId d) (patchNode p (updSet d) (updClear d)) m = map (patched [d]) m"
  proof -
    have "w = p" if "(updId d, w) \<in> set m" for w using that p assms(2) by simp
    then show ?thesis unfolding js_set_present [OF assms(2,3)] by (auto simp: patched_def intro!: map_cong)
  qed
  finally show ?thesis .
qed

lemma patched_keys [simp]: "js_keys (map (patched us) m) = js_keys m"
  by (auto simp: patched_def split_def)

lemma updateNodes_ok:
  assumes "\<forall>d \<in> set us. update_ok d" "distinct (map updId us)" "wf_map m" "updId ` set us \<subseteq> set (js_keys m)"
  shows "updateNodes (map (\<lambda>d. object_of (updateJson d)) us) m = Inr (map (patched us) m)"
  using assms
proof (induction us arbitrary: m)
  case Nil
  have "map (patched []) m = m" by (intro map_idI) (auto simp: patched_def)
  then show ?case by simp
next
  case (Cons d us)
  have "updateNode (object_of (updateJson d)) m = Inr (map (patched [d]) m)" using Cons.prems by (intro updateNode_ok) auto
  moreover have "updateNodes (map (\<lambda>d. object_of (updateJson d)) us) (map (patched [d]) m) = Inr (map (patched us) (map (patched [d]) m))"
    using Cons.prems by (intro Cons.IH) (auto simp del: map_map)
  moreover have "map (patched us) (map (patched [d]) m) = map (patched (d # us)) m"
  proof -
    have "updId d \<notin> updId ` set us" using Cons.prems(2) by simp
    then have "find (\<lambda>e. updId e = updId d) us = None" unfolding find_None_iff by (metis imageI)
    then have "patched us (patched [d] e) = patched (d # us) e" for e
      by (cases e) (auto simp: patched_def find.simps split: option.split)
    then show ?thesis by simp
  qed
  ultimately show ?case by (simp del: map_map)
qed

section \<open>The delta object\<close>

lemma attr_append: "attr (xs @ ys) k = (case attr xs k of Some v \<Rightarrow> Some v | None \<Rightarrow> attr ys k)"
  by (simp add: attr_def map_add_def split: option.split)

lemma delta_attrs:
  fixes d :: sdelta
  defines "fs \<equiv> object_of (deltaJson d)"
  shows "attr fs ''v'' = Some (JNumber 3)" "attr fs ''sessionId'' = Some (JString (dSession d))"
    "attr fs ''revision'' = Some (JNumber (of_int (dRevision d)))" "attr fs ''baseRevision'' = Some (JNumber (of_int (dBase d)))"
    "arrayOr (attr fs ''addNodes'') = Some (map JObject (dAdd d))"
    "arrayOr (attr fs ''updateNodes'') = Some (map updateJson (dUpdate d))"
    "arrayOr (attr fs ''removeNodeIds'') = Some (map JString (dRemove d))"
    "objectOr (attr fs ''snapshot'') =
       Some (dSnapSet d @ (if dSnapClear d = [] then [] else [(u ''clear'', names_json (dSnapClear d))]))"
    "set (js_keys fs) \<subseteq> set allowedTop"
  unfolding fs_def
  by (auto simp: object_of_def deltaJson_def Let_def attr_def arrayOr_def objectOr_def names_json_def allowedTop_def)

lemma checkHeader_ok:
  assumes "committed_ok p" "committed_ok q" "diffSemanticSnapshots p q = Some d"
  shows "checkHeader p (object_of (deltaJson d)) = Inr ()"
proof -
  have d: "dSession d = cSession p" "dBase d = cRevision p" "dRevision d = cRevision q" "cRevision p < cRevision q"
    using assms(3) by (auto simp: diffSemanticSnapshots_def Let_def split: if_splits)
  have "positiveRevision (Some (JNumber (of_int r)))" if "0 < r" "r \<le> MAX_SAFE_INTEGER" for r
    using that by (simp add: positiveRevision_def del: isSafeInteger.simps)
  with assms(1,2) have "positiveRevision (Some (JNumber (of_int (cRevision p))))" "positiveRevision (Some (JNumber (of_int (cRevision q))))"
    by (simp_all add: committed_ok_def)
  then show ?thesis
    using delta_attrs(9) [of d] d by (auto simp: checkHeader_def delta_attrs(1-4) revision_of_def)
qed

text \<open>The operations of a difference concern different nodes.\<close>

lemma diff_parts:
  assumes p: "committed_ok p" and q: "committed_ok q" and d: "diffSemanticSnapshots p q = Some d"
  shows "dAdd d = filter (\<lambda>n. nid n \<notin> nid ` set (cNodes p)) (cNodes q)"
    and "dRemove d = map nid (filter (\<lambda>n. nid n \<notin> nid ` set (cNodes q)) (cNodes p))"
    and "dUpdate d = List.map_filter (diffNode (nodeIndex (cNodes p))) (cNodes q)"
    and "dSnapSet d = changedSet SNAPSHOT_FIELDS (cTop p) (cTop q)" and "dSnapClear d = changedClear SNAPSHOT_FIELDS (cTop p) (cTop q)"
    and "dRevision d = cRevision q" and "dSession d = cSession p"
proof -
  have "distinct (map nid (cNodes p))" "distinct (map nid (cNodes q))" using p q by (simp_all add: committed_ok_def)
  then show "dAdd d = filter (\<lambda>n. nid n \<notin> nid ` set (cNodes p)) (cNodes q)"
    "dRemove d = map nid (filter (\<lambda>n. nid n \<notin> nid ` set (cNodes q)) (cNodes p))"
    "dUpdate d = List.map_filter (diffNode (nodeIndex (cNodes p))) (cNodes q)"
    "dSnapSet d = changedSet SNAPSHOT_FIELDS (cTop p) (cTop q)" "dSnapClear d = changedClear SNAPSHOT_FIELDS (cTop p) (cTop q)"
    "dRevision d = cRevision q" "dSession d = cSession p"
    using d by (auto simp: diffSemanticSnapshots_def Let_def nodeIndex_None split: if_splits)
qed

lemma map_filter_ids:
  "(\<And>n d. n \<in> set ns \<Longrightarrow> f n = Some d \<Longrightarrow> updId d = nid n) \<Longrightarrow>
     map updId (List.map_filter f ns) = map nid (filter (\<lambda>n. f n \<noteq> None) ns)"
  by (induction ns) (auto simp: List.map_filter_simps split: option.splits)

lemma diffNode_id: "diffNode m n = Some d \<Longrightarrow> updId d = nid n"
  by (auto simp: diffNode_def Let_def split: option.splits if_splits)

lemma index_p:
  assumes "committed_ok p"
  shows "js_get (nodeIndex (cNodes p)) i = Some n \<longleftrightarrow> n \<in> set (cNodes p) \<and> nid n = i"
proof -
  have "distinct (map nid (cNodes p))" using assms by (simp add: committed_ok_def)
  then show ?thesis by (auto simp: nodeIndex_eq js_get_Some_iff o_def)
qed

lemma diffNode_ok:
  assumes p: "committed_ok p" and n: "node_ok n" and d: "diffNode (nodeIndex (cNodes p)) n = Some d"
  shows "update_ok d" and "\<exists>old \<in> set (cNodes p). nid old = nid n \<and> updSet d = changedSet NODE_PATCH_FIELDS old n \<and>
    updClear d = changedClear NODE_PATCH_FIELDS old n"
proof -
  obtain old where old: "old \<in> set (cNodes p)" "nid old = nid n" "updSet d = changedSet NODE_PATCH_FIELDS old n"
    "updClear d = changedClear NODE_PATCH_FIELDS old n" "updSet d \<noteq> [] \<or> updClear d \<noteq> []"
    using d index_p [OF p] by (auto simp: diffNode_def Let_def split: option.splits if_splits)
  then show "\<exists>old \<in> set (cNodes p). nid old = nid n \<and> updSet d = changedSet NODE_PATCH_FIELDS old n \<and>
    updClear d = changedClear NODE_PATCH_FIELDS old n" by blast
  have req: "js_get n f \<noteq> None" if "f \<in> set REQUIRED_NODE_FIELDS" for f
    using n that js_get_None_iff [of n f] by (auto simp: node_ok_def)
  have "distinct (updClear d)" using old(4) node_keys_distinct(2) by (simp add: changedClear_def)
  moreover have "set (js_keys (updSet d)) \<subseteq> set NODE_PATCH_FIELDS" "set (js_keys (updSet d)) \<inter> set (updClear d) = {}"
    unfolding old(3,4) changedSet_keys by (auto simp: changedClear_set)
  moreover have "set (updClear d) \<subseteq> set NODE_PATCH_FIELDS - set REQUIRED_NODE_FIELDS"
    unfolding old(4) using req by (fastforce simp: changedClear_set)
  ultimately show "update_ok d" using old(5) by (simp add: update_ok_def)
qed

section \<open>Staging a difference\<close>

lemma node_id_text: "node_ok n \<Longrightarrow> id_text (id_of (JObject n)) = Some (nid n)"
  by (simp add: node_ok_def id_text_def id_of_def)

lemma remove_id_text: "s \<noteq> [] \<Longrightarrow> id_text (Some (JString s)) = Some s"
  by (simp add: id_text_def)

lemma update_id_text: "updId d \<noteq> [] \<Longrightarrow> id_text (id_of (updateJson d)) = Some (updId d)"
  by (simp add: id_text_def id_of_def updateJson_def attr_def)

text \<open>What the operations of a difference are about.\<close>

lemma diff_ids:
  assumes p: "committed_ok p" and q: "committed_ok q" and d: "diffSemanticSnapshots p q = Some d"
  shows "\<forall>n \<in> set (dAdd d). node_ok n" "distinct (map nid (dAdd d))" "nid ` set (dAdd d) = nid ` set (cNodes q) - nid ` set (cNodes p)"
    and "\<forall>e \<in> set (dUpdate d). update_ok e \<and> updId e \<noteq> []" "distinct (map updId (dUpdate d))"
      "updId ` set (dUpdate d) \<subseteq> nid ` set (cNodes p) \<inter> nid ` set (cNodes q)"
    and "distinct (dRemove d)" "set (dRemove d) = nid ` set (cNodes p) - nid ` set (cNodes q)" "[] \<notin> set (dRemove d)"
proof -
  note parts = diff_parts [OF assms]
  have nodes: "\<forall>n \<in> set (cNodes p). node_ok n" "\<forall>n \<in> set (cNodes q). node_ok n" "distinct (map nid (cNodes p))" "distinct (map nid (cNodes q))"
    using p q by (simp_all add: committed_ok_def)
  show "\<forall>n \<in> set (dAdd d). node_ok n" "distinct (map nid (dAdd d))" "nid ` set (dAdd d) = nid ` set (cNodes q) - nid ` set (cNodes p)"
    using nodes unfolding parts(1) by (auto simp: distinct_map_filter)
  show "distinct (dRemove d)" "set (dRemove d) = nid ` set (cNodes p) - nid ` set (cNodes q)"
    using nodes unfolding parts(2) by (auto simp: distinct_map_filter)
  then show "[] \<notin> set (dRemove d)" using nodes(1) by (auto simp: node_ok_def)
  have ids: "map updId (dUpdate d) = map nid (filter (\<lambda>n. diffNode (nodeIndex (cNodes p)) n \<noteq> None) (cNodes q))"
    unfolding parts(3) by (rule map_filter_ids) (rule diffNode_id)
  then show "distinct (map updId (dUpdate d))" using nodes(4) by (simp add: distinct_map_filter)
  have mem: "\<exists>n \<in> set (cNodes q). diffNode (nodeIndex (cNodes p)) n = Some e" if "e \<in> set (dUpdate d)" for e
    using that unfolding parts(3) by (auto simp: List.map_filter_def)
  show "\<forall>e \<in> set (dUpdate d). update_ok e \<and> updId e \<noteq> []"
    using mem nodes(2) diffNode_ok(1) [OF p] diffNode_id by (metis node_ok_def)
  show "updId ` set (dUpdate d) \<subseteq> nid ` set (cNodes p) \<inter> nid ` set (cNodes q)"
  proof
    fix i assume "i \<in> updId ` set (dUpdate d)"
    then obtain e n where e: "e \<in> set (dUpdate d)" "i = updId e" "n \<in> set (cNodes q)" "diffNode (nodeIndex (cNodes p)) n = Some e"
      using mem by blast
    with diffNode_ok(2) [OF p _ e(4)] nodes(2) diffNode_id [OF e(4)] show "i \<in> nid ` set (cNodes p) \<inter> nid ` set (cNodes q)"
      by (metis IntI image_eqI)
  qed
qed

definition staged_map :: "committed \<Rightarrow> sdelta \<Rightarrow> staging" where
  "staged_map p d = map (patched (dUpdate d))
     (filter (\<lambda>(k, _). k \<notin> set (dRemove d)) (nodeIndex (cNodes p)) @ map (\<lambda>n. (nid n, n)) (dAdd d))"

lemma keys_filter: "js_keys (filter (\<lambda>(k, _). P k) m) = filter P (js_keys m)"
  by (induction m) auto

lemma map_object_of: "map object_of (map JObject ns) = ns"
  by (induction ns) (simp_all add: object_of_def)

lemma stageNodes_ok:
  assumes p: "committed_ok p" and q: "committed_ok q" and d: "diffSemanticSnapshots p q = Some d"
    and count: "length (dAdd d) + length (dUpdate d) + length (dRemove d) \<le> maxNodes l"
  shows "\<exists>changed. stageNodes p (object_of (deltaJson d)) l = Inr (staged_map p d, changed) \<and>
    set changed = nid ` set (dAdd d) \<union> updId ` set (dUpdate d) \<union> set (dRemove d)"
proof -
  let ?is = "map nid (dAdd d) @ map updId (dUpdate d) @ dRemove d"
  note ids = diff_ids [OF p q d]
  have dp: "distinct (map nid (cNodes p))" using p by (simp add: committed_ok_def)
  have texts: "map id_text (map id_of (map JObject (dAdd d)) @ map id_of (map updateJson (dUpdate d)) @ map Some (map JString (dRemove d))) =
      map Some ?is"
    using ids(1,4,9) by (auto simp: node_id_text update_id_text intro!: remove_id_text)
  have dist: "distinct ?is" using ids(2,3,5-8) by auto
  let ?m = "nodeIndex (cNodes p)" and ?kept = "filter (\<lambda>(k, _). k \<notin> set (dRemove d)) (nodeIndex (cNodes p))"
  have keys: "js_keys ?m = map nid (cNodes p)" using dp by (simp add: nodeIndex_eq)
  have kept: "set (js_keys ?kept) = nid ` set (cNodes p) \<inter> nid ` set (cNodes q)" "wf_map ?kept"
    unfolding keys_filter keys using dp ids(8) by auto
  have rem: "removeNodes (dRemove d) ?m = Inr ?kept" using ids(7,8) keys by (intro removeNodes_ok) auto
  have ins: "insertNodes (dAdd d) ?kept = Inr (?kept @ map (\<lambda>n. (nid n, n)) (dAdd d))"
    using kept ids(2,3) by (intro insertNodes_ok) auto
  have upd: "updateNodes (map (\<lambda>e. object_of (updateJson e)) (dUpdate d)) (?kept @ map (\<lambda>n. (nid n, n)) (dAdd d)) = Inr (staged_map p d)"
    unfolding staged_map_def
  proof (rule updateNodes_ok)
    show "wf_map (?kept @ map (\<lambda>n. (nid n, n)) (dAdd d))" using kept ids(2,3) by (auto simp: o_def)
    show "updId ` set (dUpdate d) \<subseteq> set (js_keys (?kept @ map (\<lambda>n. (nid n, n)) (dAdd d)))" using ids(6) kept(1) by auto
  qed (use ids in auto)
  have "stageNodes p (object_of (deltaJson d)) l = Inr (staged_map p d, dRemove d @ map nid (dAdd d) @ map updId (dUpdate d))"
  proof -
    have count': "\<not> length (map JObject (dAdd d)) + length (map updateJson (dUpdate d)) + length (map JString (dRemove d)) > maxNodes l"
      using count by simp
    have none: "None \<notin> set (map Some ?is)" and dup: "\<not> duplicate (map Some ?is)" and the: "map the (map Some ?is) = ?is"
      using dist by (auto simp: duplicate_def distinct_map inj_on_def simp del: map_append set_append distinct_append)
    have split: "drop (length (map JObject (dAdd d)) + length (map updateJson (dUpdate d))) ?is = dRemove d"
      "take (length (map JObject (dAdd d)) + length (map updateJson (dUpdate d))) ?is = map nid (dAdd d) @ map updId (dUpdate d)"
      by simp_all
    show ?thesis
      unfolding stageNodes_def delta_attrs(5-7) prod.case option.case Let_def texts
      unfolding if_not_P [OF count'] if_not_P [OF none] if_not_P [OF dup] the split map_object_of
      by (simp add: rem ins upd o_def)
  qed
  then show ?thesis by (intro exI conjI, assumption) auto
qed

text \<open>The staged nodes are the nodes of the second snapshot.\<close>

lemma staged_keys:
  assumes "committed_ok p" "committed_ok q" "diffSemanticSnapshots p q = Some d"
  shows "js_keys (staged_map p d) = filter (\<lambda>i. i \<in> nid ` set (cNodes q)) (map nid (cNodes p)) @
    filter (\<lambda>i. i \<notin> nid ` set (cNodes p)) (map nid (cNodes q))"
proof -
  have dp: "distinct (map nid (cNodes p))" using assms(1) by (simp add: committed_ok_def)
  have keys: "js_keys (nodeIndex (cNodes p)) = map nid (cNodes p)" using dp by (simp add: nodeIndex_eq)
  have "filter (\<lambda>i. i \<notin> set (dRemove d)) (map nid (cNodes p)) = filter (\<lambda>i. i \<in> nid ` set (cNodes q)) (map nid (cNodes p))"
    using diff_ids(8) [OF assms] by (intro filter_cong) auto
  moreover have "map nid (dAdd d) = filter (\<lambda>i. i \<notin> nid ` set (cNodes p)) (map nid (cNodes q))"
    unfolding diff_parts(1) [OF assms] by (simp add: filter_map o_def)
  ultimately show ?thesis
    unfolding staged_map_def patched_keys map_append keys_filter keys by (simp add: o_def)
qed

lemma patch_nothing: "patchNode n [] [] = n"
  by (simp add: patchNode_def)

lemma find_update:
  assumes p: "committed_ok p" and q: "committed_ok q" and d: "diffSemanticSnapshots p q = Some d"
    and n: "n \<in> set (cNodes q)" and old: "old \<in> set (cNodes p)" "nid old = nid n"
  shows "(case find (\<lambda>e. updId e = nid n) (dUpdate d) of Some e \<Rightarrow> patchNode old (updSet e) (updClear e) | None \<Rightarrow> old) =
    patchNode old (changedSet NODE_PATCH_FIELDS old n) (changedClear NODE_PATCH_FIELDS old n)"
proof -
  have get: "js_get (nodeIndex (cNodes p)) (nid n) = Some old" using index_p [OF p] old by auto
  have upd: "dUpdate d = List.map_filter (diffNode (nodeIndex (cNodes p))) (cNodes q)" using diff_parts(3) [OF p q d] .
  have mem: "e \<in> set (dUpdate d) \<and> updId e = nid n \<longleftrightarrow> diffNode (nodeIndex (cNodes p)) n = Some e" for e
  proof
    assume e: "e \<in> set (dUpdate d) \<and> updId e = nid n"
    then obtain m where m: "m \<in> set (cNodes q)" "diffNode (nodeIndex (cNodes p)) m = Some e"
      unfolding upd by (auto simp: List.map_filter_def)
    with diffNode_id [OF m(2)] e n q have "m = n" by (metis committed_ok_def distinct_map inj_onD)
    with m show "diffNode (nodeIndex (cNodes p)) n = Some e" by simp
  next
    assume "diffNode (nodeIndex (cNodes p)) n = Some e"
    with n diffNode_id [OF this] show "e \<in> set (dUpdate d) \<and> updId e = nid n"
      unfolding upd by (force simp: List.map_filter_def)
  qed
  show ?thesis
  proof (cases "find (\<lambda>e. updId e = nid n) (dUpdate d)")
    case None
    then have "diffNode (nodeIndex (cNodes p)) n = None" using mem by (fastforce simp: find_None_iff)
    then have "changedSet NODE_PATCH_FIELDS old n = []" "changedClear NODE_PATCH_FIELDS old n = []"
      using get by (auto simp: diffNode_def Let_def split: if_splits)
    with None show ?thesis by (simp add: patch_nothing)
  next
    case (Some e)
    then have "e \<in> set (dUpdate d) \<and> updId e = nid n" by (auto simp: find_Some_iff)
    then have "diffNode (nodeIndex (cNodes p)) n = Some e" using mem by blast
    then have "updSet e = changedSet NODE_PATCH_FIELDS old n" "updClear e = changedClear NODE_PATCH_FIELDS old n"
      using get by (auto simp: diffNode_def Let_def split: if_splits)
    with Some show ?thesis by simp
  qed
qed

lemma staged_nodes:
  assumes p: "committed_ok p" and q: "committed_ok q" and d: "diffSemanticSnapshots p q = Some d"
    and e: "(k, n') \<in> set (staged_map p d)"
  shows "\<exists>n \<in> set (cNodes q). nid n = k \<and> (\<forall>f. same_value (js_get n' f) (js_get n f))"
proof -
  note ids = diff_ids [OF p q d]
  have dp: "distinct (map nid (cNodes p))" using p by (simp add: committed_ok_def)
  obtain old where old: "(k, old) \<in> set (filter (\<lambda>(k, _). k \<notin> set (dRemove d)) (nodeIndex (cNodes p)) @ map (\<lambda>n. (nid n, n)) (dAdd d))"
    "n' = (case find (\<lambda>e. updId e = k) (dUpdate d) of Some e \<Rightarrow> patchNode old (updSet e) (updClear e) | None \<Rightarrow> old)"
    using e by (auto simp: staged_map_def patched_def)
  show ?thesis
  proof (cases "k \<in> nid ` set (cNodes p)")
    case True
    then have "(k, old) \<notin> set (map (\<lambda>n. (nid n, n)) (dAdd d))" using ids(3) by auto
    then have o: "old \<in> set (cNodes p)" "nid old = k" "k \<notin> set (dRemove d)" using old(1) dp by (auto simp: nodeIndex_eq)
    then obtain n where n: "n \<in> set (cNodes q)" "nid n = k" using ids(8) by auto
    have "node_ok old" "node_ok n" using o n p q by (auto simp: committed_ok_def)
    with o n patched_node [of old n] find_update [OF p q d n(1) o(1)] old(2) show ?thesis by metis
  next
    case False
    then have "(k, old) \<in> set (map (\<lambda>n. (nid n, n)) (dAdd d))" using old(1) dp by (auto simp: nodeIndex_eq)
    then have o: "old \<in> set (cNodes q)" "nid old = k" using diff_parts(1) [OF p q d] by auto
    have "k \<notin> updId ` set (dUpdate d)" using ids(6) False by auto
    then have "find (\<lambda>e. updId e = k) (dUpdate d) = None" by (auto simp: find_None_iff)
    with old(2) o show ?thesis by (auto simp: same_value_def)
  qed
qed

text \<open>The fields of the snapshot.\<close>

lemma snapshot_names:
  "u ''clear'' \<notin> set SNAPSHOT_FIELDS" "u ''nodes'' \<notin> set SNAPSHOT_FIELDS" "u ''revision'' \<notin> set SNAPSHOT_FIELDS"
  "u ''v'' \<notin> set SNAPSHOT_FIELDS" "u ''sessionId'' \<notin> set SNAPSHOT_FIELDS" "set SNAPSHOT_CLEAR_FIELDS \<subseteq> set SNAPSHOT_FIELDS"
  "set allowedSnapshot = insert (u ''clear'') (set SNAPSHOT_FIELDS)"
  by (auto simp: SNAPSHOT_FIELDS_def SNAPSHOT_CLEAR_FIELDS_def allowedSnapshot_def)

lemma js_has_iff: "js_has m k \<longleftrightarrow> js_get m k \<noteq> None"
  by simp

lemma stageTop_ok:
  assumes p: "committed_ok p" and q: "committed_ok q" and d: "diffSemanticSnapshots p q = Some d"
  shows "\<exists>next. stageTop p (object_of (deltaJson d)) m = Inr next \<and> attr next ''v'' = Some (JNumber 3) \<and>
    attr next ''sessionId'' = Some (JString (cSession q)) \<and> attr next ''revision'' = Some (JNumber (of_int (cRevision q))) \<and>
    attr next ''nodes'' = Some (JArray (map JObject (js_values m))) \<and>
    (\<forall>f \<in> set SNAPSHOT_FIELDS. same_value (js_get next f) (js_get (cTop q) f))"
proof -
  let ?s = "changedSet SNAPSHOT_FIELDS (cTop p) (cTop q)" and ?c = "changedClear SNAPSHOT_FIELDS (cTop p) (cTop q)"
  let ?upd = "?s @ (if ?c = [] then [] else [(u ''clear'', names_json ?c)])"
  let ?next = "fold js_delete ?c (js_delete (u ''clear'') (js_set (u ''nodes'') (JArray (map JObject (js_values m)))
    (js_set (u ''revision'') (JNumber (of_int (cRevision q))) (js_set (u ''v'') (JNumber 3)
    (fold (\<lambda>(k, v). js_set k v) ?upd ((u ''sessionId'', JString (cSession p)) # cTop p))))))"
  note parts = diff_parts [OF p q d]
  have session: "cSession q = cSession p"
    using d by (auto simp: diffSemanticSnapshots_def split: if_splits)
  have keys: "set (js_keys ?s) \<subseteq> set SNAPSHOT_FIELDS" "distinct (js_keys ?s)"
    unfolding changedSet_keys using node_keys_distinct(3) by auto
  have get: "js_get ?s f = (if f \<in> set SNAPSHOT_FIELDS \<and> \<not> optEqual (js_get (cTop p) f) (js_get (cTop q) f) then js_get (cTop q) f else None)" for f
    by (rule changedSet_get [OF node_keys_distinct(3)])
  have clear_sub: "set ?c \<subseteq> set SNAPSHOT_CLEAR_FIELDS"
  proof
    fix f assume "f \<in> set ?c"
    then have "f \<in> set SNAPSHOT_FIELDS" "f \<notin> set (js_keys (cTop q))" by (auto simp: changedClear_set js_get_None_iff)
    with q show "f \<in> set SNAPSHOT_CLEAR_FIELDS" unfolding committed_ok_def by blast
  qed
  have wf: "wf_map ?upd" using keys snapshot_names(1) by auto
  have upd_get: "js_get ?upd f = (if f = u ''clear'' \<and> ?c \<noteq> [] then Some (names_json ?c) else js_get ?s f)" for f
    using get [of "u ''clear''"] snapshot_names(1) by (auto simp: map_add_def split: option.split)
  have clear: "arrayOr (attr ?upd ''clear'') = Some (map JString ?c)"
    unfolding attr_def upd_get get using snapshot_names(1) by (auto simp: arrayOr_def names_json_def)
  have allowed: "\<not> (\<exists>k \<in> set (js_keys ?upd). k \<notin> set allowedSnapshot)" using keys(1) snapshot_names(7) by auto
  have unset: "\<not> list_ex (\<lambda>f. f \<notin> set SNAPSHOT_CLEAR_FIELDS \<or> js_has ?upd f) ?c"
    using clear_sub snapshot_names(1,6) unfolding list_ex_iff js_has_iff upd_get get by (auto simp: changedClear_set)
  have nodup: "\<not> duplicate ?c" using node_keys_distinct(3) by (simp add: duplicate_def changedClear_def)
  have next_eq: "stageTop p (object_of (deltaJson d)) m = Inr ?next"
    unfolding stageTop_def delta_attrs(8) parts(4,5) option.case if_not_P [OF allowed] clear string_names Let_def
      if_not_P [OF nodup] if_not_P [OF unset] delta_attrs(3) parts(6)
    by (simp add: revision_of_def)
  have out: "f \<notin> set ?c" if "f \<notin> set SNAPSHOT_FIELDS" for f using that clear_sub snapshot_names(6) by blast
  have fields: "same_value (js_get ?next f) (js_get (cTop q) f)" if f: "f \<in> set SNAPSHOT_FIELDS" for f
  proof -
    have "f \<noteq> u ''clear''" "f \<noteq> u ''nodes''" "f \<noteq> u ''revision''" "f \<noteq> u ''v''" "f \<noteq> u ''sessionId''"
      using f snapshot_names by blast+
    then have "js_get ?next f = (if f \<in> set ?c then None else case js_get ?s f of Some v \<Rightarrow> Some v | None \<Rightarrow> js_get (cTop p) f)"
      unfolding fold_js_delete_get js_get_delete js_get_set fold_js_set_get [OF wf] upd_get by (simp split: option.split)
    then show ?thesis using f unfolding get by (auto simp: changedClear_set same_value_def split: option.splits)
  qed
  have "attr ?next ''v'' = Some (JNumber 3)" "attr ?next ''sessionId'' = Some (JString (cSession q))"
    "attr ?next ''revision'' = Some (JNumber (of_int (cRevision q)))" "attr ?next ''nodes'' = Some (JArray (map JObject (js_values m)))"
    unfolding attr_def fold_js_delete_get js_get_delete js_get_set fold_js_set_get [OF wf] upd_get get
    using out snapshot_names session by simp_all
  with next_eq fields show ?thesis by blast
qed

section \<open>Reconstruction\<close>

definition node_named :: "fields list \<Rightarrow> js_string \<Rightarrow> fields" where
  "node_named ns i = (case find (\<lambda>n. nid n = i) ns of Some n \<Rightarrow> n | None \<Rightarrow> [])"

lemma node_named:
  assumes "i \<in> nid ` set ns"
  shows "node_named ns i \<in> set ns" and "nid (node_named ns i) = i"
proof -
  obtain n where "find (\<lambda>n. nid n = i) ns = Some n" using assms by (cases "find (\<lambda>n. nid n = i) ns") (auto simp: find_None_iff)
  moreover from this have "n \<in> set ns" "nid n = i" by (auto simp: find_Some_iff)
  ultimately show "node_named ns i \<in> set ns" "nid (node_named ns i) = i" by (simp_all add: node_named_def)
qed

lemma node_named_unique: "distinct (map nid ns) \<Longrightarrow> n \<in> set ns \<Longrightarrow> node_named ns (nid n) = n"
  using node_named [of "nid n" ns] by (metis distinct_map imageI inj_onD)

text \<open>Listing nodes by a rearrangement of their distinct ids rearranges the nodes.\<close>

lemma named_permutation:
  assumes ids: "distinct (map nid ns)" and "distinct is" "set is = nid ` set ns"
  shows "mset (map (node_named ns) is) = mset ns" and "map nid (map (node_named ns) is) = is"
proof -
  show names: "map nid (map (node_named ns) is) = is" unfolding map_map using assms(3) node_named(2) [of _ ns] by (intro map_idI) simp
  have "distinct (map (node_named ns) is)" using assms(2) names by (metis distinct_map)
  moreover have "set (map (node_named ns) is) = set ns"
    using assms(3) ids by (auto simp: node_named image_image node_named_unique)
  moreover have "distinct ns" using ids by (simp add: distinct_map)
  ultimately show "mset (map (node_named ns) is) = mset ns" by (metis set_eq_iff_mset_eq_distinct)
qed

lemma staged_matches:
  assumes p: "committed_ok p" and q: "committed_ok q" and d: "diffSemanticSnapshots p q = Some d"
  shows "\<exists>ms. mset ms = mset (cNodes q) \<and> map nid ms = filter (\<lambda>i. i \<in> nid ` set (cNodes q)) (map nid (cNodes p)) @
      filter (\<lambda>i. i \<notin> nid ` set (cNodes p)) (map nid (cNodes q)) \<and>
    list_all2 (\<lambda>n' n. \<forall>f. same_value (js_get n' f) (js_get n f)) (js_values (staged_map p d)) ms"
proof -
  let ?is = "js_keys (staged_map p d)"
  let ?ms = "map (node_named (cNodes q)) ?is"
  have dist: "distinct (map nid (cNodes q))" "distinct (map nid (cNodes p))" using p q by (simp_all add: committed_ok_def)
  have keys: "distinct ?is" "set ?is = nid ` set (cNodes q)"
    unfolding staged_keys [OF assms] using dist by auto
  have "\<forall>f. same_value (js_get (snd e) f) (js_get (node_named (cNodes q) (fst e)) f)" if "e \<in> set (staged_map p d)" for e
    using staged_nodes [OF assms, of "fst e" "snd e"] that node_named_unique [OF dist(1)] by (metis prod.collapse)
  then have "list_all2 (\<lambda>n' n. \<forall>f. same_value (js_get n' f) (js_get n f)) (js_values (staged_map p d)) ?ms"
    by (simp add: list_all2_map1 list_all2_map2 list_all2_same)
  with named_permutation [OF dist(1) keys] staged_keys [OF assms] show ?thesis by (intro exI [of _ ?ms] conjI) simp_all
qed

text \<open>C9: Applying the difference of two committed snapshots of a session to the first one is accepted by every check before the
  snapshot validation, and reconstructs the second: its revision, its fields, and its nodes, each with the fields of the second
  snapshot up to \<open>valueEqual\<close>. The nodes that both have stay in the order of the first snapshot, the new nodes follow.\<close>

theorem diff_apply_roundtrip:
  assumes "committed_ok p" and "committed_ok q" and "diffSemanticSnapshots p q = Some d"
    and "length (dAdd d) + length (dUpdate d) + length (dRemove d) \<le> maxNodes l"
  shows "\<exists>next changed ns ms. stageDelta p (object_of (deltaJson d)) l = Inr (next, changed) \<and>
    attr next ''v'' = Some (JNumber 3) \<and> attr next ''sessionId'' = Some (JString (cSession q)) \<and>
    attr next ''revision'' = Some (JNumber (of_int (cRevision q))) \<and>
    (\<forall>f \<in> set SNAPSHOT_FIELDS. same_value (js_get next f) (js_get (cTop q) f)) \<and>
    attr next ''nodes'' = Some (JArray (map JObject ns)) \<and> mset ms = mset (cNodes q) \<and>
    list_all2 (\<lambda>n' n. \<forall>f. same_value (js_get n' f) (js_get n f)) ns ms \<and>
    map nid ms = filter (\<lambda>i. i \<in> nid ` set (cNodes q)) (map nid (cNodes p)) @
      filter (\<lambda>i. i \<notin> nid ` set (cNodes p)) (map nid (cNodes q)) \<and>
    set changed = nid ` set (dAdd d) \<union> updId ` set (dUpdate d) \<union> set (dRemove d)"
proof -
  obtain changed where nodes: "stageNodes p (object_of (deltaJson d)) l = Inr (staged_map p d, changed)"
    "set changed = nid ` set (dAdd d) \<union> updId ` set (dUpdate d) \<union> set (dRemove d)"
    using stageNodes_ok [OF assms] by blast
  obtain "next" where top: "stageTop p (object_of (deltaJson d)) (staged_map p d) = Inr next" "attr next ''v'' = Some (JNumber 3)"
    "attr next ''sessionId'' = Some (JString (cSession q))" "attr next ''revision'' = Some (JNumber (of_int (cRevision q)))"
    "attr next ''nodes'' = Some (JArray (map JObject (js_values (staged_map p d))))"
    "\<forall>f \<in> set SNAPSHOT_FIELDS. same_value (js_get next f) (js_get (cTop q) f)"
    using stageTop_ok [OF assms(1-3)] by blast
  have "stageDelta p (object_of (deltaJson d)) l = Inr (next, changed)"
    by (simp add: stageDelta_def checkHeader_ok [OF assms(1-3)] nodes(1) top(1))
  moreover obtain ms where "mset ms = mset (cNodes q)" "map nid ms = filter (\<lambda>i. i \<in> nid ` set (cNodes q)) (map nid (cNodes p)) @
      filter (\<lambda>i. i \<notin> nid ` set (cNodes p)) (map nid (cNodes q))"
    "list_all2 (\<lambda>n' n. \<forall>f. same_value (js_get n' f) (js_get n f)) (js_values (staged_map p d)) ms"
    using staged_matches [OF assms(1-3)] by blast
  ultimately show ?thesis using nodes(2) top(2-)
    by (intro exI [of _ "next"] exI [of _ changed] exI [of _ "js_values (staged_map p d)"] exI [of _ ms] conjI) assumption+
qed

definition demo_node :: "string \<Rightarrow> string \<Rightarrow> fields" where
  "demo_node i label = [(u ''id'', JString (u i)), (u ''role'', JString (u ''button'')), (u ''name'', JString (u label)),
     (u ''geometry'', JNull)]"

definition demo_committed :: "int \<Rightarrow> fields list \<Rightarrow> committed" where
  "demo_committed r ns = \<lparr>cSession = u ''s'', cRevision = r,
     cTop = [(u ''columns'', JNumber 80), (u ''rows'', JNumber 24), (u ''rootIds'', JArray []), (u ''coordinateSpace'', JNull),
       (u ''hitGrid'', JNull)], cNodes = ns\<rparr>"

lemma u_empty [simp]: "u i = [] \<longleftrightarrow> i = []"
  by (simp add: u_def)

lemma demo_node_ok: "i \<noteq> [] \<Longrightarrow> node_ok (demo_node i label)" "nid (demo_node i label) = u i"
  by (auto simp: node_ok_def demo_node_def nid_def attr_def SEMANTIC_NODE_KEYS_def REQUIRED_NODE_FIELDS_def)

lemma demo_committed_ok:
  "\<forall>n \<in> set ns. node_ok n \<Longrightarrow> distinct (map nid ns) \<Longrightarrow> 0 < r \<Longrightarrow> r \<le> MAX_SAFE_INTEGER \<Longrightarrow> committed_ok (demo_committed r ns)"
  by (auto simp: committed_ok_def demo_committed_def SNAPSHOT_FIELDS_def SNAPSHOT_CLEAR_FIELDS_def)

definition demo_before :: committed where
  "demo_before = demo_committed 1 [demo_node ''a'' ''open'', demo_node ''b'' ''old'']"

definition demo_after :: committed where
  "demo_after = demo_committed 2 [demo_node ''c'' ''new'', demo_node ''a'' ''shut'']"

lemma demo_snapshots_ok: "committed_ok demo_before" "committed_ok demo_after"
  unfolding demo_before_def demo_after_def by (rule demo_committed_ok; simp add: demo_node_ok MAX_SAFE_INTEGER_def)+

lemma diff_size:
  "diffSemanticSnapshots p q = Some d \<Longrightarrow>
     length (dAdd d) + length (dUpdate d) + length (dRemove d) \<le> 2 * length (cNodes q) + length (cNodes p)"
  by (auto simp: diffSemanticSnapshots_def Let_def List.map_filter_def mult_2 intro!: add_mono length_filter_le split: if_splits)

theorem diff_apply_roundtrip_witness:
  "\<exists>d next changed ms. diffSemanticSnapshots demo_before demo_after = Some d \<and>
     stageDelta demo_before (object_of (deltaJson d)) DEFAULT_LIMITS = Inr (next, changed) \<and>
     attr next ''revision'' = Some (JNumber 2) \<and> mset ms = mset (cNodes demo_after) \<and> map nid ms = [u ''a'', u ''c'']"
proof -
  obtain d where d: "diffSemanticSnapshots demo_before demo_after = Some d"
    by (simp add: diffSemanticSnapshots_def demo_before_def demo_after_def demo_committed_def Let_def)
  have "length (dAdd d) + length (dUpdate d) + length (dRemove d) \<le> maxNodes DEFAULT_LIMITS"
    using diff_size [OF d] by (simp add: demo_before_def demo_after_def demo_committed_def DEFAULT_LIMITS_def)
  from diff_apply_roundtrip [OF demo_snapshots_ok d this]
  obtain "next" changed ms where "stageDelta demo_before (object_of (deltaJson d)) DEFAULT_LIMITS = Inr (next, changed)"
    "attr next ''revision'' = Some (JNumber (of_int (cRevision demo_after)))" "mset ms = mset (cNodes demo_after)"
    "map nid ms = filter (\<lambda>i. i \<in> nid ` set (cNodes demo_after)) (map nid (cNodes demo_before)) @
      filter (\<lambda>i. i \<notin> nid ` set (cNodes demo_before)) (map nid (cNodes demo_after))"
    by blast
  moreover have "cRevision demo_after = 2" "map nid (cNodes demo_before) = [u ''a'', u ''b'']" "map nid (cNodes demo_after) = [u ''c'', u ''a'']"
    "nid ` set (cNodes demo_before) = {u ''a'', u ''b''}" "nid ` set (cNodes demo_after) = {u ''c'', u ''a''}"
    by (simp_all add: demo_before_def demo_after_def demo_committed_def demo_node_ok)
  ultimately show ?thesis using d by (intro exI [of _ d] exI [of _ "next"] exI [of _ changed] exI [of _ ms]) simp
qed

text \<open>The order of the nodes is not part of a difference: when the second snapshot only exchanges two nodes, the difference has
  no node operation at all, and applying it leaves the nodes in the order of the first snapshot.\<close>

theorem reorder_lost:
  "\<exists>d next changed. diffSemanticSnapshots (demo_committed 1 [demo_node ''a'' ''x'', demo_node ''b'' ''y''])
       (demo_committed 2 [demo_node ''b'' ''y'', demo_node ''a'' ''x'']) = Some d \<and>
     dAdd d = [] \<and> dUpdate d = [] \<and> dRemove d = [] \<and>
     stageDelta (demo_committed 1 [demo_node ''a'' ''x'', demo_node ''b'' ''y'']) (object_of (deltaJson d)) DEFAULT_LIMITS =
       Inr (next, changed) \<and>
     attr next ''nodes'' = Some (JArray (map JObject [demo_node ''a'' ''x'', demo_node ''b'' ''y'']))"
proof -
  let ?a = "demo_node ''a'' ''x''" and ?b = "demo_node ''b'' ''y''"
  let ?p = "demo_committed 1 [?a, ?b]" and ?q = "demo_committed 2 [?b, ?a]"
  have ok: "committed_ok ?p" "committed_ok ?q"
    by (rule demo_committed_ok; simp add: demo_node_ok MAX_SAFE_INTEGER_def)+
  have same: "changedSet names (demo_node i x) (demo_node i x) = []" "changedClear names (demo_node i x) (demo_node i x) = []" for names i x
    by (rule unchanged; simp add: demo_node_def)+
  obtain d where d: "diffSemanticSnapshots ?p ?q = Some d"
    by (simp add: diffSemanticSnapshots_def demo_committed_def Let_def)
  have index: "js_get (nodeIndex [?a, ?b]) (u ''a'') = Some ?a" "js_get (nodeIndex [?a, ?b]) (u ''b'') = Some ?b"
    by (simp_all add: nodeIndex_def demo_node_ok)
  have ops: "dAdd d = []" "dUpdate d = []" "dRemove d = []"
    using diff_parts(1-3) [OF ok d] by (simp_all add: demo_committed_def demo_node_ok List.map_filter_simps diffNode_def index same)
  then have "staged_map ?p d = [(u ''a'', ?a), (u ''b'', ?b)]"
    by (simp add: staged_map_def patched_def demo_committed_def nodeIndex_def demo_node_ok)
  moreover obtain changed where "stageNodes ?p (object_of (deltaJson d)) DEFAULT_LIMITS = Inr (staged_map ?p d, changed)"
    using stageNodes_ok [OF ok d, of DEFAULT_LIMITS] ops by auto
  moreover obtain "next" where "stageTop ?p (object_of (deltaJson d)) (staged_map ?p d) = Inr next"
    "attr next ''nodes'' = Some (JArray (map JObject (js_values (staged_map ?p d))))"
    using stageTop_ok [OF ok d] by blast
  ultimately have "stageDelta ?p (object_of (deltaJson d)) DEFAULT_LIMITS = Inr (next, changed)"
    "attr next ''nodes'' = Some (JArray (map JObject [?a, ?b]))"
    by (simp_all add: stageDelta_def checkHeader_ok [OF ok d])
  with d ops show ?thesis by blast
qed

section \<open>Untrusted deltas\<close>

lemma deny_False: "deny c = Inl (e, r) \<Longrightarrow> \<not> r \<and> e \<noteq> BaseRevision"
  by auto

lemma removeNodes_refusal: "removeNodes is m = Inl (e, r) \<Longrightarrow> \<not> r \<and> e \<noteq> BaseRevision"
  by (induction "is" arbitrary: m) (auto split: if_splits)

lemma insertNodes_refusal: "insertNodes ns m = Inl (e, r) \<Longrightarrow> \<not> r \<and> e \<noteq> BaseRevision"
  by (induction ns arbitrary: m) (auto split: if_splits)

lemma updateNode_refusal: "updateNode d m = Inl (e, r) \<Longrightarrow> \<not> r \<and> e \<noteq> BaseRevision"
  by (auto simp: updateNode_def Let_def split: option.splits if_splits)

lemma updateNodes_refusal: "updateNodes ds m = Inl (e, r) \<Longrightarrow> \<not> r \<and> e \<noteq> BaseRevision"
proof (induction ds arbitrary: m)
  case (Cons d ds)
  then show ?case by (cases "updateNode d m") (use updateNode_refusal [of d m e r] in auto)
qed simp

lemma stageNodes_refusal: "stageNodes c d l = Inl (e, r) \<Longrightarrow> \<not> r \<and> e \<noteq> BaseRevision"
  unfolding stageNodes_def Let_def
  by (auto simp: res_bind_Inl_iff res_map_Inl_iff dest: removeNodes_refusal insertNodes_refusal updateNodes_refusal
    split: option.splits if_splits)

lemma stageTop_refusal: "stageTop c d m = Inl (e, r) \<Longrightarrow> \<not> r \<and> e \<noteq> BaseRevision"
  by (auto simp: stageTop_def Let_def split: option.splits if_splits)

lemma checkHeader_refusal:
  "checkHeader c d = Inl (e, r) \<Longrightarrow> (r \<longleftrightarrow> e = BaseRevision) \<and>
     (r \<longrightarrow> attr d ''sessionId'' = Some (JString (cSession c)) \<and> revision_of (attr d ''baseRevision'') \<noteq> cRevision c)"
  by (auto simp: checkHeader_def split: if_splits)

lemma checkHeader_Inr:
  "checkHeader c d = Inr () \<longleftrightarrow> set (js_keys d) \<subseteq> set allowedTop \<and> attr d ''v'' = Some (JNumber 3) \<and>
     attr d ''sessionId'' = Some (JString (cSession c)) \<and> positiveRevision (attr d ''revision'') \<and>
     positiveRevision (attr d ''baseRevision'') \<and> revision_of (attr d ''baseRevision'') = cRevision c \<and>
     cRevision c < revision_of (attr d ''revision'')"
  by (auto simp: checkHeader_def)

lemma fold_js_set_other: "k \<notin> set (js_keys s) \<Longrightarrow> js_get (fold (\<lambda>(k, v). js_set k v) s m) k = js_get m k"
  by (induction s arbitrary: m) (auto simp: js_get_set)

lemma stageTop_header:
  assumes "stageTop c d m = Inr next"
  shows "attr next ''revision'' = Some (JNumber (of_int (revision_of (attr d ''revision''))))"
    and "attr next ''sessionId'' = Some (JString (cSession c))" and "attr next ''nodes'' = Some (JArray (map JObject (js_values m)))"
proof -
  obtain upd where upd: "objectOr (attr d ''snapshot'') = Some upd"
    using assms by (cases "objectOr (attr d ''snapshot'')") (simp_all add: stageTop_def)
  obtain clear where clear: "arrayOr (attr upd ''clear'') = Some clear" and
    keys: "\<not> (\<exists>k \<in> set (js_keys upd). k \<notin> set allowedSnapshot)"
    using assms by (cases "arrayOr (attr upd ''clear'')") (simp_all add: stageTop_def upd split: if_splits)
  define cl where "cl = map (the \<circ> string_of) clear"
  have texts: "\<not> list_ex (\<lambda>f. string_of f = None) clear" and dup: "\<not> duplicate cl" and
    names: "\<not> list_ex (\<lambda>f. f \<notin> set SNAPSHOT_CLEAR_FIELDS \<or> js_has upd f) cl"
    using assms unfolding stageTop_def upd option.case if_not_P [OF keys] clear cl_def Let_def by (metis sum.distinct(1))+
  have next_eq: "next = fold js_delete cl (js_delete (u ''clear'')
                     (js_set (u ''nodes'') (JArray (map JObject (js_values m)))
                     (js_set (u ''revision'') (JNumber (of_int (revision_of (attr d ''revision''))))
                     (js_set (u ''v'') (JNumber 3)
                     (fold (\<lambda>(k, v). js_set k v) upd
                       ((u ''sessionId'', JString (cSession c)) # cTop c))))))"
    using assms unfolding stageTop_def upd option.case if_not_P [OF keys] clear Let_def if_not_P [OF texts] cl_def [symmetric]
      if_not_P [OF dup] if_not_P [OF names] sum.inject by (rule sym)
  have "u ''sessionId'' \<notin> set allowedSnapshot" by (simp add: allowedSnapshot_def SNAPSHOT_FIELDS_def)
  then have "u ''sessionId'' \<notin> set (js_keys upd)" using keys by blast
  moreover have "u ''revision'' \<notin> set cl" "u ''sessionId'' \<notin> set cl" "u ''nodes'' \<notin> set cl"
    using names unfolding list_ex_iff SNAPSHOT_CLEAR_FIELDS_def by auto
  ultimately show "attr next ''revision'' = Some (JNumber (of_int (revision_of (attr d ''revision''))))"
    "attr next ''sessionId'' = Some (JString (cSession c))" "attr next ''nodes'' = Some (JArray (map JObject (js_values m)))"
    unfolding next_eq attr_def fold_js_delete_get js_get_delete js_get_set by (simp_all add: fold_js_set_other)
qed

lemma validateStaged_Inr:
  assumes "validateStaged env l (next, changed) = Inr a"
  shows "validateSnapshot (project env (JObject next)) (\<lambda>v. Some (jsonBytes env v)) (schema env) l None = Inr (aSnapshot a)"
    and "changedNodeIds a = changed" and "map fst (changedNodes a) = changed"
  using assms unfolding validateStaged_def
  by (cases "validateSnapshot (project env (JObject next)) (\<lambda>v. Some (jsonBytes env v)) (schema env) l None"; auto simp: Let_def o_def)+

lemma validateStaged_refusal: "validateStaged env l s = Inl (e, r) \<Longrightarrow> \<not> r \<and> e \<noteq> BaseRevision"
  unfolding validateStaged_def
  by (cases s; cases "validateSnapshot (project env (JObject (fst s))) (\<lambda>v. Some (jsonBytes env v)) (schema env) l None";
    auto simp: Let_def)

text \<open>C10: A delta that is accepted carries the session of the committed snapshot, names its revision as the base and has a greater
  revision; the snapshot that results is staged with that session, that revision and the staged nodes, and passes the same
  validation as a full snapshot. The changed ids are those of the operations, one per changed node of the result.\<close>

theorem delta_accepted:
  assumes "applySemanticDelta env c value l w = Inr a"
  shows "\<exists>d next m. project env value = Inr (JObject d) \<and>
    (case w of Some b \<Rightarrow> b | None \<Rightarrow> jsonBytes env (JObject d)) \<le> maxSnapshotBytes l \<and>
    attr d ''sessionId'' = Some (JString (cSession c)) \<and> revision_of (attr d ''baseRevision'') = cRevision c \<and>
    cRevision c < revision_of (attr d ''revision'') \<and>
    stageNodes c d l = Inr (m, changedNodeIds a) \<and> attr next ''nodes'' = Some (JArray (map JObject (js_values m))) \<and>
    attr next ''sessionId'' = Some (JString (cSession c)) \<and>
    attr next ''revision'' = Some (JNumber (of_int (revision_of (attr d ''revision'')))) \<and>
    validateSnapshot (project env (JObject next)) (\<lambda>v. Some (jsonBytes env v)) (schema env) l None = Inr (aSnapshot a) \<and>
    map fst (changedNodes a) = changedNodeIds a"
proof -
  obtain d where d: "project env value = Inr (JObject d)"
    "\<not> (case w of Some b \<Rightarrow> b | None \<Rightarrow> jsonBytes env (JObject d)) > maxSnapshotBytes l"
    using assms unfolding applySemanticDelta_def by (auto split: sum.splits json.splits if_splits)
  then have "res_bind (stageDelta c d l) (validateStaged env l) = Inr a"
    using assms by (simp add: applySemanticDelta_def)
  then obtain "next" changed where staged: "stageDelta c d l = Inr (next, changed)" "validateStaged env l (next, changed) = Inr a"
    by (auto simp: res_bind_Inr_iff)
  note ok = validateStaged_Inr [OF staged(2)]
  obtain m where "checkHeader c d = Inr ()" "stageNodes c d l = Inr (m, changed)" "stageTop c d m = Inr next"
    using staged(1) by (auto simp: stageDelta_def res_simps)
  with stageTop_header [OF this(3)] d ok show ?thesis by (auto simp: checkHeader_Inr)
qed

text \<open>An environment for examples: values are plain already, every text has one byte, and the schema reads one tree.\<close>

definition demo_env :: delta_env where
  "demo_env = \<lparr>project = Inr, jsonBytes = (\<lambda>_. 1), schema = (\<lambda>_. Inr demo_tree)\<rparr>"

definition demo_delta :: "rat \<Rightarrow> json" where
  "demo_delta base = JObject [(u ''v'', JNumber 3), (u ''sessionId'', JString (u ''s'')), (u ''revision'', JNumber 4),
     (u ''baseRevision'', JNumber base), (u ''removeNodeIds'', JArray [JString (u ''b'')])]"

lemma demo_header:
  "checkHeader demo_before (object_of (demo_delta 1)) = Inr ()"
  "checkHeader demo_before (object_of (demo_delta 2)) = Inl (BaseRevision, True)"
  by (auto simp: checkHeader_def object_of_def demo_delta_def allowedTop_def attr_def positiveRevision_def revision_of_def
    MAX_SAFE_INTEGER_def demo_before_def demo_committed_def)

lemma demo_applied: "\<exists>a. applySemanticDelta demo_env demo_before (demo_delta 1) DEFAULT_LIMITS None = Inr a \<and> changedNodeIds a = [u ''b'']"
proof -
  have "stageNodes demo_before (object_of (demo_delta 1)) DEFAULT_LIMITS = Inr ([(u ''a'', demo_node ''a'' ''open'')], [u ''b''])"
    by (simp add: stageNodes_def object_of_def demo_delta_def attr_def arrayOr_def DEFAULT_LIMITS_def id_text_def duplicate_def
      demo_before_def demo_committed_def nodeIndex_def demo_node_ok)
  moreover obtain "next" where "stageTop demo_before (object_of (demo_delta 1)) [(u ''a'', demo_node ''a'' ''open'')] = Inr next"
    by (simp add: stageTop_def object_of_def demo_delta_def attr_def objectOr_def arrayOr_def duplicate_def)
  ultimately have "stageDelta demo_before (object_of (demo_delta 1)) DEFAULT_LIMITS = Inr (next, [u ''b''])"
    by (simp add: stageDelta_def demo_header)
  then show ?thesis
    by (simp add: applySemanticDelta_def demo_env_def demo_delta_def object_of_def validateStaged_def validateSnapshot_def demo_tree_ok Let_def)
      (simp add: DEFAULT_LIMITS_def)
qed

theorem delta_accepted_witness:
  "\<exists>a d next. applySemanticDelta demo_env demo_before (demo_delta 1) DEFAULT_LIMITS None = Inr a \<and> demo_delta 1 = JObject d \<and>
     cRevision demo_before < revision_of (attr d ''revision'') \<and>
     validateSnapshot (Inr (JObject next)) (\<lambda>v. Some 1) (schema demo_env) DEFAULT_LIMITS None = Inr (aSnapshot a) \<and>
     map fst (changedNodes a) = [u ''b'']"
proof -
  obtain a where a: "applySemanticDelta demo_env demo_before (demo_delta 1) DEFAULT_LIMITS None = Inr a" "changedNodeIds a = [u ''b'']"
    using demo_applied by blast
  have env: "project demo_env = Inr" "jsonBytes demo_env = (\<lambda>_. 1)" by (simp_all add: demo_env_def)
  from delta_accepted [OF a(1)] a show ?thesis unfolding env by auto
qed

definition projected :: "delta_env \<Rightarrow> json \<Rightarrow> json" where
  "projected env value = (case project env value of Inl _ \<Rightarrow> JNull | Inr v \<Rightarrow> v)"

text \<open>A refused delta asks for a resynchronisation exactly when the reason is its base revision; then it belongs to the committed
  session and names another revision than the committed one.\<close>

theorem resync_only_on_base:
  assumes "applySemanticDelta env c value l w = Inl (e, resync)"
  shows "(resync \<longleftrightarrow> e = BaseRevision) \<and>
    (resync \<longrightarrow> (\<exists>d. project env value = Inr (JObject d) \<and> attr d ''sessionId'' = Some (JString (cSession c)) \<and>
       revision_of (attr d ''baseRevision'') \<noteq> cRevision c))"
proof (cases "stageDelta c (object_of (projected env value)) l = Inl (e, resync) \<and> project env value = Inr (JObject (object_of (projected env value)))")
  case True
  then have "checkHeader c (object_of (projected env value)) = Inl (e, resync) \<or> \<not> resync \<and> e \<noteq> BaseRevision"
    by (auto simp: stageDelta_def res_simps dest: stageNodes_refusal stageTop_refusal)
  with True checkHeader_refusal show ?thesis by blast
next
  case False
  have "\<not> resync \<and> e \<noteq> BaseRevision"
    using assms False unfolding applySemanticDelta_def
    by (auto simp: res_simps projected_def object_of_def dest: validateStaged_refusal split: sum.splits json.splits if_splits)
  then show ?thesis by simp
qed

theorem resync_only_on_base_witness:
  "applySemanticDelta demo_env demo_before (demo_delta 2) DEFAULT_LIMITS None = Inl (BaseRevision, True) \<and>
   (\<exists>d. demo_delta 2 = JObject d \<and> revision_of (attr d ''baseRevision'') \<noteq> cRevision demo_before)"
proof -
  have "stageDelta demo_before (object_of (demo_delta 2)) DEFAULT_LIMITS = Inl (BaseRevision, True)"
    by (simp add: stageDelta_def demo_header)
  then have r: "applySemanticDelta demo_env demo_before (demo_delta 2) DEFAULT_LIMITS None = Inl (BaseRevision, True)"
    by (simp add: applySemanticDelta_def demo_env_def demo_delta_def object_of_def DEFAULT_LIMITS_def)
  have "project demo_env = Inr" by (simp add: demo_env_def)
  with resync_only_on_base [OF r] r show ?thesis by auto
qed

end
