(* ===== verification/JsText.thy ===== *)
theory JsText
  imports Text Objects
begin

text \<open>
  The functions on ECMAScript strings that the driver uses: white space, \<open>trim\<close>, \<open>split\<close> on runs of separators,
  \<open>includes\<close>, \<open>indexOf\<close>, code points, digit strings and the lookup of a property of an object literal, which also finds what
  the literal inherits from \<open>Object.prototype\<close>. Case mapping follows the Unicode tables of the runtime and is a parameter, the
  record \<open>casing\<close>.
\<close>

definition space_unit :: "code_unit \<Rightarrow> bool" where
  "space_unit c \<longleftrightarrow> (9 \<le> c \<and> c \<le> 13) \<or> (0x2000 \<le> c \<and> c \<le> 0x200A) \<or>
     c \<in> {32, 0xA0, 0x1680, 0x2028, 0x2029, 0x202F, 0x205F, 0x3000, 0xFEFF}"

definition trim :: "js_string \<Rightarrow> js_string" where
  "trim s = dropWhile space_unit (rev (dropWhile space_unit (rev s)))"

text \<open>\<open>s.split(/p+/u).filter(part => part.length > 0)\<close>\<close>

function words_by :: "(code_unit \<Rightarrow> bool) \<Rightarrow> js_string \<Rightarrow> js_string list" where
  "words_by p s =
     (case dropWhile p s of
        [] \<Rightarrow> []
      | c # t \<Rightarrow> takeWhile (\<lambda>x. \<not> p x) (c # t) # words_by p (dropWhile (\<lambda>x. \<not> p x) (c # t)))"
  by pat_completeness auto
termination
proof (relation "measure (\<lambda>(p, s). length s)")
  fix p s c t assume d: "dropWhile p s = c # t"
  then have "\<not> p c" by (metis hd_dropWhile list.distinct(1) list.sel(1))
  then have "length (dropWhile (\<lambda>x. \<not> p x) (c # t)) \<le> length t" by (simp add: length_dropWhile_le)
  moreover have "length (c # t) \<le> length s" using length_dropWhile_le [of p s] d by simp
  ultimately show "((p, dropWhile (\<lambda>x. \<not> p x) (c # t)), p, s) \<in> measure (\<lambda>(p, s). length s)" by simp
qed simp

declare words_by.simps [simp del]

primrec js_includes :: "js_string \<Rightarrow> js_string \<Rightarrow> bool" where
  "js_includes [] needle \<longleftrightarrow> needle = []"
| "js_includes (c # s) needle \<longleftrightarrow> startsWith (c # s) needle \<or> js_includes s needle"

text \<open>The first occurrence of a non-empty needle at or after an index.\<close>

function indexOf_from :: "js_string \<Rightarrow> js_string \<Rightarrow> nat \<Rightarrow> nat option" where
  "indexOf_from s needle i =
     (if length s < i + length needle then None
      else if startsWith (drop i s) needle then Some i
      else indexOf_from s needle (Suc i))"
  by pat_completeness auto
termination by (relation "measure (\<lambda>(s, needle, i). Suc (length s) - i)") auto

declare indexOf_from.simps [simp del]

text \<open>The occurrences of a needle that a loop over \<open>indexOf\<close> finds, each search starting at the end of the last one.\<close>

lemma indexOf_from_Some: "indexOf_from s n i = Some k \<Longrightarrow> i \<le> k \<and> k + length n \<le> length s \<and> take (length n) (drop k s) = n"
proof (induction s n i rule: indexOf_from.induct)
  case (1 s n i)
  show ?case
  proof (cases "length s < i + length n \<or> startsWith (drop i s) n")
    case True
    with 1(2) show ?thesis by (subst (asm) indexOf_from.simps) (auto simp: startsWith_def split: if_splits)
  next
    case False
    then have "indexOf_from s n i = indexOf_from s n (Suc i)" by (subst indexOf_from.simps) simp
    with 1 False show ?thesis by auto
  qed
qed

function literalLoop :: "js_string \<Rightarrow> js_string \<Rightarrow> nat \<Rightarrow> (nat \<times> nat) list" where
  "literalLoop haystack needle i =
     (if needle = [] then []
      else case indexOf_from haystack needle i of
             None \<Rightarrow> []
           | Some k \<Rightarrow> (k, k + length needle) # literalLoop haystack needle (k + length needle))"
  by pat_completeness auto
termination
proof (relation "measure (\<lambda>(h, n, i). Suc (length h) - i)")
  fix h n :: js_string and i k assume "n \<noteq> []" "indexOf_from h n i = Some k"
  with indexOf_from_Some [OF this(2)] have "0 < length n" "i \<le> k" "k + length n \<le> length h" by simp_all
  then have "Suc (length h) - (k + length n) < Suc (length h) - i" by linarith
  then show "((h, n, k + length n), h, n, i) \<in> measure (\<lambda>(h, n, i). Suc (length h) - i)" by simp
qed simp

declare literalLoop.simps [simp del]

text \<open>\<open>[...s]\<close>: the code points of a string; an unpaired surrogate stands for itself.\<close>

fun code_points :: "js_string \<Rightarrow> nat list" where
  "code_points [] = []"
| "code_points [c] = [unat c]"
| "code_points (c # d # s) =
     (if high_surrogate c \<and> low_surrogate d
      then (0x10000 + (unat c - 0xD800) * 1024 + (unat d - 0xDC00)) # code_points s
      else unat c # code_points (d # s))"

text \<open>The characters that \<open>for (const character of text)\<close> visits.\<close>

fun characters :: "js_string \<Rightarrow> js_string list" where
  "characters [] = []"
| "characters [c] = [[c]]"
| "characters (c # d # s) =
     (if high_surrogate c \<and> low_surrogate d then [c, d] # characters s else [c] # characters (d # s))"

definition digit_unit :: "code_unit \<Rightarrow> bool" where
  "digit_unit c \<longleftrightarrow> 48 \<le> c \<and> c \<le> 57"

definition letter_unit :: "code_unit \<Rightarrow> bool" where
  "letter_unit c \<longleftrightarrow> (65 \<le> c \<and> c \<le> 90) \<or> (97 \<le> c \<and> c \<le> 122)"

primrec join_with :: "js_string \<Rightarrow> js_string list \<Rightarrow> js_string" where
  "join_with sep [] = []"
| "join_with sep (x # xs) = (if xs = [] then x else x @ sep @ join_with sep xs)"

definition hexDigit :: "code_unit \<Rightarrow> nat option" where
  "hexDigit c =
     (if digit_unit c then Some (unat c - 48)
      else if 97 \<le> c \<and> c \<le> 102 then Some (unat c - 87)
      else if 65 \<le> c \<and> c \<le> 70 then Some (unat c - 55)
      else None)"

text \<open>\<open>LITERAL[key]\<close> for an object literal: an own property, or one of \<open>Object.prototype\<close>. Only the inherited names without a capital
  letter are listed, because every lookup of the sources is by a name in lower case; the second component is the text that the
  inherited value has in a template or as a property name.\<close>

definition INHERITED :: "(js_string, js_string) js_map" where
  "INHERITED = [(u ''constructor'', u ''function Object() { [native code] }''), (u ''__proto__'', u ''[object Object]'')]"

record casing =
  toLowerCase :: "js_string \<Rightarrow> js_string"
  toUpperCase :: "js_string \<Rightarrow> js_string"

text \<open>The case mapping of ASCII, at which theorems about all case mappings are evaluated.\<close>

definition demo_casing :: casing where
  "demo_casing = \<lparr>toLowerCase = map (\<lambda>c. if 65 \<le> c \<and> c \<le> 90 then c + 32 else c),
     toUpperCase = map (\<lambda>c. if 97 \<le> c \<and> c \<le> 122 then c - 32 else c)\<rparr>"

section \<open>Lemmas\<close>

lemma unat_unit_lt: "unat (c :: code_unit) < 65536"
  using unsigned_less [of c, where 'a = nat] by simp

lemma unat_unit_inj: "unat (c :: code_unit) = unat d \<longleftrightarrow> c = d"
  by (simp add: word_eq_iff_unsigned [where ?'a = nat])

lemma space_range: "space_unit c \<Longrightarrow> unat c \<le> 32 \<or> 160 \<le> unat c"
  unfolding space_unit_def word_le_nat_alt by (elim disjE insertE) simp_all

lemma nat_name_digits: "list_all digit_unit (nat_name n)"
proof (induction n rule: nat_name.induct)
  case (1 n)
  have digit: "digit_unit (word_of_nat (48 + d))" if "d < 10" for d
    using that unfolding digit_unit_def word_le_nat_alt by (simp add: unat_of_nat del: of_nat_add)
  show ?case
  proof (cases "n < 10")
    case True
    then show ?thesis using digit by (subst nat_name.simps) (simp del: of_nat_add)
  next
    case False
    with 1 have "list_all digit_unit (nat_name (n div 10))" by simp
    moreover have "nat_name n = nat_name (n div 10) @ [word_of_nat (48 + n mod 10)]"
      using False by (subst nat_name.simps) simp
    ultimately show ?thesis using digit [of "n mod 10"] by (simp del: of_nat_add)
  qed
qed

lemma takeWhile_units:
  "list_all p ds \<Longrightarrow> \<not> p c \<Longrightarrow> takeWhile p (ds @ c # xs) = ds \<and> dropWhile p (ds @ c # xs) = c # xs"
  by (induction ds) auto

lemma takeWhile_all: "list_all p ds \<Longrightarrow> takeWhile p ds = ds \<and> dropWhile p ds = []"
  by (induction ds) auto

lemma ascii_units:
  "\<not> digit_unit (u [c] ! 0) \<longleftrightarrow> \<not> is_digit c"
  unfolding digit_unit_def is_digit_def word_le_nat_alt u_def
  using nat_of_char_less_256 [of c] by (simp add: unat_of_nat del: nat_of_char_less_256)

section \<open>Ranges in order\<close>

text \<open>Ranges that are not empty, follow each other from an index on and end within the text.\<close>

fun ranges_from :: "nat \<Rightarrow> nat \<Rightarrow> (nat \<times> nat) list \<Rightarrow> bool" where
  "ranges_from i n [] \<longleftrightarrow> True"
| "ranges_from i n ((s, e) # rs) \<longleftrightarrow> i \<le> s \<and> s < e \<and> e \<le> n \<and> ranges_from e n rs"

lemma ranges_from_mono: "ranges_from i n rs \<Longrightarrow> j \<le> i \<Longrightarrow> ranges_from j n rs"
  by (cases rs) auto

lemma ranges_from_bounds: "ranges_from i n rs \<Longrightarrow> (s, e) \<in> set rs \<Longrightarrow> i \<le> s \<and> s < e \<and> e \<le> n"
  by (induction i n rs rule: ranges_from.induct) fastforce+

lemma ranges_from_sorted: "ranges_from i n rs \<Longrightarrow> sorted_wrt (\<lambda>a b. snd a \<le> fst b) rs"
proof (induction i n rs rule: ranges_from.induct)
  case (2 i n s e rs)
  then show ?case using ranges_from_bounds [of e n rs] by auto
qed simp

lemma literalLoop_ranges: "ranges_from i (length h) (literalLoop h needle i)"
proof (induction h needle i rule: literalLoop.induct)
  case (1 h needle i)
  show ?case
  proof (cases "needle = [] \<or> indexOf_from h needle i = None")
    case True
    then show ?thesis by (subst literalLoop.simps) auto
  next
    case False
    then obtain k where k: "indexOf_from h needle i = Some k" and "needle \<noteq> []" by auto
    then have "literalLoop h needle i = (k, k + length needle) # literalLoop h needle (k + length needle)"
      by (subst literalLoop.simps) simp
    with 1 k \<open>needle \<noteq> []\<close> indexOf_from_Some [OF k] show ?thesis by simp
  qed
qed

lemma literalLoop_needle: "(s, e) \<in> set (literalLoop h needle i) \<Longrightarrow> e = s + length needle \<and> take (length needle) (drop s h) = needle"
proof (induction h needle i rule: literalLoop.induct)
  case (1 h needle i)
  show ?case
  proof (cases "needle = [] \<or> indexOf_from h needle i = None")
    case True
    then have "literalLoop h needle i = []" by (subst literalLoop.simps) auto
    with 1(2) show ?thesis by simp
  next
    case False
    then obtain k where k: "indexOf_from h needle i = Some k" and "needle \<noteq> []" by auto
    then have "literalLoop h needle i = (k, k + length needle) # literalLoop h needle (k + length needle)"
      by (subst literalLoop.simps) simp
    with 1 k \<open>needle \<noteq> []\<close> indexOf_from_Some [OF k] show ?thesis by auto
  qed
qed

lemma indexOf_from_None: "indexOf_from s n i = None \<Longrightarrow> i \<le> k \<Longrightarrow> k + length n \<le> length s \<Longrightarrow> take (length n) (drop k s) \<noteq> n"
proof (induction s n i rule: indexOf_from.induct)
  case (1 s n i)
  then have i: "i + length n \<le> length s" by simp
  with 1(2) have no: "\<not> startsWith (drop i s) n" "indexOf_from s n (Suc i) = None"
    by (subst (asm) indexOf_from.simps, auto split: if_splits)+
  show ?case
  proof (cases "k = i")
    case True
    with no(1) show ?thesis by (simp add: startsWith_def)
  next
    case False
    with 1 i no show ?thesis by simp
  qed
qed

lemma indexOf_from_first:
  "indexOf_from s n i = Some j \<Longrightarrow> i \<le> k \<Longrightarrow> k < j \<Longrightarrow> k + length n \<le> length s \<Longrightarrow> take (length n) (drop k s) \<noteq> n"
proof (induction s n i rule: indexOf_from.induct)
  case (1 s n i)
  show ?case
  proof (cases "startsWith (drop i s) n \<or> length s < i + length n")
    case True
    then have "indexOf_from s n i = None \<or> indexOf_from s n i = Some i" by (subst (1 2) indexOf_from.simps) auto
    with 1(2,3,4) show ?thesis by auto
  next
    case False
    then have "indexOf_from s n (Suc i) = Some j" using 1(2) by (subst (asm) indexOf_from.simps) simp
    with 1 False show ?thesis by (cases "k = i") (auto simp: startsWith_def)
  qed
qed

end
