(* ===== verification/Selectors.thy ===== *)
theory Selectors
  imports JsText Snapshot
begin

text \<open>
  Locator queries and the selector language (\<open>src/packages/driver/src/selectors.ts\<close>).

  \<^item> A \<open>text_matcher\<close> with a regular expression holds what the expression does: its test on a string, and its search for a match
    from an index on.
  \<^item> \<open>parseRef\<close> reads the digit strings of a reference exactly, which is what \<open>Number\<close> does up to \<open>MAX_SAFE_INTEGER\<close>; the numbers of
    the references that the driver makes are safe integers, and the theorem on them assumes it.
  \<^item> \<open>parseSelector\<close> splits a selector into compounds and a compound into tokens. The source collects the matches of a pattern and
    compares their concatenation with the compound; the two differ if and only if some character was skipped, where
    \<open>compoundTokens\<close> fails.

  The theorems: references round trip, except for ids with an \<open>@\<close> or white space; a selector parses to what it is the printed
  form of; a pseudo-class that \<open>Object.prototype\<close> happens to define is accepted.
\<close>

section \<open>Queries\<close>

datatype text_matcher =
    Exact js_string
  | Substring js_string
  | Regex (regexTest: "js_string \<Rightarrow> bool") (regexExec: "js_string \<Rightarrow> nat \<Rightarrow> (nat \<times> nat) option")

record semantic_step =
  stepRole :: "js_string option"
  stepTestId :: "js_string option"
  stepClasses :: "js_string list"
  stepName :: "text_matcher option"
  stepText :: "text_matcher option"
  stepLabel :: "text_matcher option"
  stepFrameworkType :: "text_matcher option"
  stepState :: "(js_string, json option) js_map"

definition emptyStep :: semantic_step where
  "emptyStep = \<lparr>stepRole = None, stepTestId = None, stepClasses = [], stepName = None, stepText = None, stepLabel = None,
     stepFrameworkType = None, stepState = []\<rparr>"

datatype parsed_ref = NodeRef js_string nat | RectRef rect nat

section \<open>References\<close>

definition readNumber :: "js_string \<Rightarrow> (nat \<times> js_string) option" where
  "readNumber s =
     (let ds = takeWhile digit_unit s in if ds = [] then None else Some (name_value ds, dropWhile digit_unit s))"

definition readText :: "string \<Rightarrow> js_string \<Rightarrow> js_string option" where
  "readText t s = (if startsWith s (u t) then Some (drop (length t) s) else None)"

text \<open>A number and the separator after it.\<close>

definition readField :: "string \<Rightarrow> js_string \<Rightarrow> (nat \<times> js_string) option" where
  "readField sep s = Option.bind (readNumber s) (\<lambda>(n, r). map_option (Pair n) (readText sep r))"

definition parseGridRef :: "js_string \<Rightarrow> parsed_ref option" where
  "parseGridRef s =
     Option.bind (readText ''screen:'' s) (\<lambda>s. Option.bind (readField '','' s) (\<lambda>(r, s).
     Option.bind (readField '','' s) (\<lambda>(c, s). Option.bind (readField '','' s) (\<lambda>(w, s).
     Option.bind (readField ''@'' s) (\<lambda>(h, s). Option.bind (readNumber s) (\<lambda>(v, s).
       if s = [] then Some (RectRef \<lparr>row = int r, column = int c, width = int w, height = int h\<rparr> v) else None))))))"

definition id_unit :: "code_unit \<Rightarrow> bool" where
  "id_unit c \<longleftrightarrow> [c] \<noteq> u ''@'' \<and> \<not> space_unit c"

definition parseNodeRef :: "js_string \<Rightarrow> parsed_ref option" where
  "parseNodeRef s =
     Option.bind (readText ''semantic:'' s) (\<lambda>s.
       let i = takeWhile id_unit s
       in if i = [] then None
          else Option.bind (readText ''@'' (dropWhile id_unit s)) (\<lambda>s. Option.bind (readNumber s) (\<lambda>(v, s).
            if s = [] then Some (NodeRef i v) else None)))"

definition parseRef :: "js_string \<Rightarrow> parsed_ref option" where
  "parseRef s = (case parseGridRef s of Some r \<Rightarrow> Some r | None \<Rightarrow> parseNodeRef s)"

definition semanticNodeId :: "js_string \<Rightarrow> js_string option" where
  "semanticNodeId s = (case parseRef s of Some (NodeRef i _) \<Rightarrow> Some i | _ \<Rightarrow> None)"

text \<open>The reference of a target, as \<open>refQuery\<close> and the locators spell it.\<close>

primrec refText :: "parsed_ref \<Rightarrow> js_string" where
  "refText (NodeRef i v) = u ''semantic:'' @ i @ u ''@'' @ nat_name v"
| "refText (RectRef r v) = u ''screen:'' @ nat_name (nat (row r)) @ u '','' @ nat_name (nat (column r)) @ u '','' @
     nat_name (nat (width r)) @ u '','' @ nat_name (nat (height r)) @ u ''@'' @ nat_name v"

section \<open>Text\<close>

definition textMatcher :: "js_string \<Rightarrow> bool \<Rightarrow> text_matcher" where
  "textMatcher value exact = (if exact then Exact value else Substring value)"

definition matchesText :: "casing \<Rightarrow> js_string option \<Rightarrow> text_matcher \<Rightarrow> bool" where
  "matchesText cs value m =
     (case value of
        None \<Rightarrow> False
      | Some v \<Rightarrow>
          (case m of
             Exact t \<Rightarrow> trim v = trim t
           | Substring t \<Rightarrow> js_includes (toLowerCase cs (trim v)) (toLowerCase cs (trim t))
           | Regex test _ \<Rightarrow> test v))"

section \<open>Selectors\<close>

definition ROLES :: "js_string list" where
  "ROLES = map u [''application'', ''region'', ''dialog'', ''alert'', ''status'', ''list'', ''listitem'', ''menu'', ''menuitem'',
     ''button'', ''checkbox'', ''radio'', ''tab'', ''textbox'', ''heading'', ''text'', ''progressbar'', ''separator'', ''scrollbar'',
     ''table'', ''row'', ''cell'', ''generic'']"

definition PSEUDO_STATES :: "(js_string, js_string) js_map" where
  "PSEUDO_STATES = map (\<lambda>s. (u s, u s)) [''focused'', ''disabled'', ''selected'', ''checked'', ''expanded'', ''modal'', ''busy'',
     ''hidden'', ''readonly'']"

definition pseudoState :: "js_string \<Rightarrow> js_string option" where
  "pseudoState k = (case js_get PSEUDO_STATES k of Some f \<Rightarrow> Some f | None \<Rightarrow> js_get INHERITED k)"

definition role_unit :: "code_unit \<Rightarrow> bool" where
  "role_unit c \<longleftrightarrow> letter_unit c \<or> digit_unit c \<or> [c] = u ''-''"

definition body_unit :: "code_unit \<Rightarrow> bool" where
  "body_unit c \<longleftrightarrow> role_unit c \<or> [c] = u ''_''"

definition sigil :: "code_unit \<Rightarrow> bool" where
  "sigil c \<longleftrightarrow> [c] = u ''#'' \<or> [c] = u ''.'' \<or> [c] = u '':''"

text \<open>The tokens with a sigil, and before them at most one role.\<close>

function sigilTokens :: "js_string \<Rightarrow> js_string list option" where
  "sigilTokens [] = Some []"
| "sigilTokens (c # s) =
     (if sigil c \<and> takeWhile body_unit s \<noteq> []
      then map_option ((#) (c # takeWhile body_unit s)) (sigilTokens (dropWhile body_unit s))
      else None)"
  by pat_completeness auto
termination
  by (relation "measure length") (auto simp: le_imp_less_Suc length_dropWhile_le)

definition compoundTokens :: "js_string \<Rightarrow> js_string list option" where
  "compoundTokens s =
     (case s of
        [] \<Rightarrow> Some []
      | c # t \<Rightarrow>
          if letter_unit c
          then map_option ((#) (c # takeWhile role_unit t)) (sigilTokens (dropWhile role_unit t))
          else sigilTokens s)"

text \<open>One iteration of the loop over the tokens. \<open>None\<close>: a syntax error was thrown.\<close>

definition addToken :: "casing \<Rightarrow> js_string \<Rightarrow> semantic_step \<Rightarrow> semantic_step option" where
  "addToken cs token step =
     (let h = take 1 token; body = drop 1 token
      in if h = u ''#'' then (if stepTestId step \<noteq> None then None else Some (step\<lparr>stepTestId := Some body\<rparr>))
         else if h = u ''.'' then Some (step\<lparr>stepClasses := stepClasses step @ [body]\<rparr>)
         else if h = u '':''
              then (case pseudoState (toLowerCase cs body) of
                      None \<Rightarrow> None
                    | Some f \<Rightarrow> Some (step\<lparr>stepState := js_set f (Some (JBool True)) (stepState step)\<rparr>))
         else if stepRole step \<noteq> None then None
         else if token \<notin> set ROLES then None
         else Some (step\<lparr>stepRole := Some token\<rparr>))"

primrec addTokens :: "casing \<Rightarrow> js_string list \<Rightarrow> semantic_step \<Rightarrow> semantic_step option" where
  "addTokens cs [] step = Some step"
| "addTokens cs (t # ts) step = Option.bind (addToken cs t step) (addTokens cs ts)"

definition parseCompound :: "casing \<Rightarrow> js_string \<Rightarrow> semantic_step option" where
  "parseCompound cs compound = Option.bind (compoundTokens compound) (\<lambda>ts. addTokens cs ts emptyStep)"

primrec parseCompounds :: "casing \<Rightarrow> js_string list \<Rightarrow> semantic_step list option" where
  "parseCompounds cs [] = Some []"
| "parseCompounds cs (p # ps) =
     Option.bind (parseCompound cs p) (\<lambda>s. map_option ((#) s) (parseCompounds cs ps))"

definition parseSelector :: "casing \<Rightarrow> js_string \<Rightarrow> semantic_step list option" where
  "parseSelector cs selector =
     (let parts = words_by space_unit (trim selector) in if parts = [] then None else parseCompounds cs parts)"

section \<open>The queries of the locator methods\<close>

definition roleQuery ::
  "js_string \<Rightarrow> text_matcher option \<Rightarrow> (js_string, json option) js_map \<Rightarrow> text_matcher option \<Rightarrow> semantic_step list" where
  "roleQuery r name state framework =
     [emptyStep\<lparr>stepRole := Some r, stepName := name, stepFrameworkType := framework, stepState := state\<rparr>]"

definition testIdQuery :: "js_string \<Rightarrow> semantic_step list" where
  "testIdQuery i = [emptyStep\<lparr>stepTestId := Some i\<rparr>]"

definition labelQuery :: "text_matcher \<Rightarrow> semantic_step list" where
  "labelQuery m = [emptyStep\<lparr>stepLabel := Some m\<rparr>]"

definition textQuery :: "text_matcher \<Rightarrow> semantic_step list" where
  "textQuery m = [emptyStep\<lparr>stepText := Some m\<rparr>]"

section \<open>References round trip\<close>

lemma length_u [simp]: "length (u t) = length t"
  by (simp add: u_def)

lemma readText_append [simp]: "readText t (u t @ s) = Some s"
  by (simp add: readText_def)

lemma readNumber_name:
  "\<not> digit_unit c \<Longrightarrow> readNumber (nat_name n @ c # s) = Some (n, c # s)" "readNumber (nat_name n) = Some (n, [])"
proof -
  show "\<not> digit_unit c \<Longrightarrow> readNumber (nat_name n @ c # s) = Some (n, c # s)"
    using takeWhile_units [OF nat_name_digits, of c n s] by (simp add: readNumber_def name_value_nat_name)
  have "takeWhile digit_unit (nat_name n) = nat_name n" "dropWhile digit_unit (nat_name n) = []"
    using takeWhile_all [OF nat_name_digits, of n] by blast+
  then show "readNumber (nat_name n) = Some (n, [])"
    by (simp add: readNumber_def name_value_nat_name del: takeWhile_eq_all_conv dropWhile_eq_Nil_conv)
qed

lemma separators: "u '','' = [44]" "u ''@'' = [64]" "\<not> digit_unit 44" "\<not> digit_unit 64"
  by (simp_all add: u_def digit_unit_def)

lemma readField_name:
  "readField '','' (nat_name n @ u '','' @ s) = Some (n, s)" "readField ''@'' (nat_name n @ u ''@'' @ s) = Some (n, s)"
  using readText_append [of "'',''" s] readText_append [of "''@''" s]
  by (simp_all add: readField_def separators readNumber_name)

lemma other_prefix: "readText ''screen:'' (u ''semantic:'' @ s) = None"
  by (simp add: readText_def startsWith_def u_def)

definition ref_ok :: "parsed_ref \<Rightarrow> bool" where
  "ref_ok r = (case r of
     NodeRef i v \<Rightarrow> i \<noteq> [] \<and> list_all id_unit i \<and> int v \<le> MAX_SAFE_INTEGER
   | RectRef b v \<Rightarrow> list_all (\<lambda>n. 0 \<le> n \<and> n \<le> MAX_SAFE_INTEGER) [row b, column b, width b, height b, int v])"

text \<open>A reference reads back as what it was printed from: a rectangle of the screen, or a node whose id has no \<open>@\<close> and no
  white space; all numbers are safe integers.\<close>

theorem ref_roundtrip:
  assumes "ref_ok r"
  shows "parseRef (refText r) = Some r"
proof (cases r)
  case (NodeRef i v)
  have "\<not> id_unit 64" by (simp add: id_unit_def u_def)
  then have "takeWhile id_unit (i @ u ''@'' @ nat_name v) = i" "dropWhile id_unit (i @ u ''@'' @ nat_name v) = u ''@'' @ nat_name v"
    using assms NodeRef takeWhile_units [of id_unit i 64 "nat_name v"] by (simp_all add: separators ref_ok_def)
  then have "parseNodeRef (refText r) = Some r"
    using assms NodeRef by (simp add: parseNodeRef_def Let_def readNumber_name ref_ok_def)
  moreover have "parseGridRef (refText r) = None" using NodeRef by (simp add: parseGridRef_def other_prefix)
  ultimately show ?thesis by (simp add: parseRef_def)
next
  case (RectRef b v)
  have "parseGridRef (refText r) = Some r"
    using assms RectRef by (simp add: parseGridRef_def readField_name readNumber_name ref_ok_def)
  then show ?thesis by (simp add: parseRef_def)
qed

theorem ref_roundtrip_witness:
  "parseRef (refText (NodeRef (u ''menu/1'') 7)) = Some (NodeRef (u ''menu/1'') 7)"
  by (rule ref_roundtrip) (simp add: ref_ok_def id_unit_def space_unit_def u_def MAX_SAFE_INTEGER_def)

text \<open>The reference of a node whose id contains an \<open>@\<close> does not read back at all, although the validation of snapshots accepts
  such an id.\<close>

theorem ref_at_sign_lost: "parseRef (refText (NodeRef (u ''a@b'') 1)) = None"
  by (simp add: parseRef_def parseGridRef_def parseNodeRef_def other_prefix Let_def id_unit_def space_unit_def readNumber_def
    digit_unit_def readText_def startsWith_def u_def)

section \<open>Selectors round trip\<close>

text \<open>The printed form of a step that a selector can express.\<close>

definition stepText_of :: "semantic_step \<Rightarrow> js_string" where
  "stepText_of s = (case stepRole s of None \<Rightarrow> [] | Some r \<Rightarrow> r) @ (case stepTestId s of None \<Rightarrow> [] | Some i \<Rightarrow> u ''#'' @ i) @
     concat (map (\<lambda>c. u ''.'' @ c) (stepClasses s)) @ concat (map (\<lambda>(k, _). u '':'' @ k) (stepState s))"

definition word_ok :: "js_string \<Rightarrow> bool" where
  "word_ok w \<longleftrightarrow> w \<noteq> [] \<and> list_all body_unit w"

definition step_ok :: "semantic_step \<Rightarrow> bool" where
  "step_ok s \<longleftrightarrow> s = emptyStep\<lparr>stepRole := stepRole s, stepTestId := stepTestId s, stepClasses := stepClasses s, stepState := stepState s\<rparr> \<and>
     (\<forall>r. stepRole s = Some r \<longrightarrow> r \<in> set ROLES) \<and> (\<forall>i. stepTestId s = Some i \<longrightarrow> word_ok i) \<and> list_all word_ok (stepClasses s) \<and>
     distinct (js_keys (stepState s)) \<and> (\<forall>(k, v) \<in> set (stepState s). js_get PSEUDO_STATES k = Some k \<and> v = Some (JBool True))"

lemma sigil_units: "sigil 35" "sigil 46" "sigil 58" "u ''#'' = [35]" "u ''.'' = [46]" "u '':'' = [58]"
  "\<not> body_unit 35" "\<not> body_unit 46" "\<not> body_unit 58" "\<not> role_unit 35" "\<not> role_unit 46" "\<not> role_unit 58"
  "\<not> letter_unit 35" "\<not> letter_unit 46" "\<not> letter_unit 58"
  by (simp_all add: sigil_def body_unit_def role_unit_def letter_unit_def digit_unit_def u_def)

definition token_ok :: "js_string \<Rightarrow> bool" where
  "token_ok t \<longleftrightarrow> (\<exists>c w. t = c # w \<and> c \<in> {35, 46, 58} \<and> word_ok w)"

lemma sigilTokens_concat: "list_all token_ok ts \<Longrightarrow> sigilTokens (concat ts) = Some ts"
proof (induction ts)
  case (Cons t ts)
  obtain c w where t: "t = c # w" "c \<in> {35, 46, 58}" "word_ok w" using Cons.prems by (auto simp: token_ok_def)
  have "takeWhile body_unit (w @ concat ts) = w \<and> dropWhile body_unit (w @ concat ts) = concat ts"
  proof (cases ts)
    case Nil
    then show ?thesis using t(3) takeWhile_all [of body_unit w] by (simp add: word_ok_def)
  next
    case (Cons t' ts')
    with Cons.prems obtain c' w' where "t' = c' # w'" "\<not> body_unit c'" by (auto simp: token_ok_def sigil_units)
    then show ?thesis using t(3) Cons takeWhile_units [of body_unit w c' "w' @ concat ts'"] by (simp add: word_ok_def)
  qed
  with Cons t show ?case by (auto simp: sigil_units word_ok_def)
qed simp

lemma ROLES_ok: "r \<in> set ROLES \<Longrightarrow> \<exists>c t. r = c # t \<and> letter_unit c \<and> list_all role_unit t"
  by (auto simp: ROLES_def u_def letter_unit_def role_unit_def digit_unit_def)

lemma compoundTokens_concat:
  assumes "list_all token_ok ts"
  shows "compoundTokens (concat ts) = Some ts" and "r \<in> set ROLES \<Longrightarrow> compoundTokens (r @ concat ts) = Some (r # ts)"
proof -
  note tokens = sigilTokens_concat [OF assms]
  show "compoundTokens (concat ts) = Some ts"
  proof (cases ts)
    case (Cons t ts')
    with assms obtain c w where "t = c # w" "\<not> letter_unit c" by (auto simp: token_ok_def sigil_units)
    with Cons tokens show ?thesis by (simp add: compoundTokens_def)
  qed (simp add: compoundTokens_def)
  assume "r \<in> set ROLES"
  then obtain c t where r: "r = c # t" "letter_unit c" "list_all role_unit t" using ROLES_ok by blast
  have "takeWhile role_unit (t @ concat ts) = t \<and> dropWhile role_unit (t @ concat ts) = concat ts"
  proof (cases ts)
    case Nil
    then show ?thesis using r(3) takeWhile_all [of role_unit t] by simp
  next
    case (Cons t' ts')
    with assms obtain c' w' where "t' = c' # w'" "\<not> role_unit c'" by (auto simp: token_ok_def sigil_units)
    then show ?thesis using r(3) Cons takeWhile_units [of role_unit t c' "w' @ concat ts'"] by simp
  qed
  with r tokens show "compoundTokens (r @ concat ts) = Some (r # ts)" by (simp add: compoundTokens_def)
qed

lemma PSEUDO_word: "js_get PSEUDO_STATES k = Some k \<Longrightarrow> word_ok k"
  by (auto simp: PSEUDO_STATES_def word_ok_def u_def body_unit_def role_unit_def letter_unit_def digit_unit_def split: if_splits)

lemma addToken_class: "word_ok c \<Longrightarrow> addToken cs (u ''.'' @ c) step = Some (step\<lparr>stepClasses := stepClasses step @ [c]\<rparr>)"
  by (simp add: addToken_def u_def)

lemma addToken_id: "stepTestId step = None \<Longrightarrow> addToken cs (u ''#'' @ i) step = Some (step\<lparr>stepTestId := Some i\<rparr>)"
  by (simp add: addToken_def u_def)

lemma addToken_state:
  "toLowerCase cs k = k \<Longrightarrow> js_get PSEUDO_STATES k = Some k \<Longrightarrow>
     addToken cs (u '':'' @ k) step = Some (step\<lparr>stepState := js_set k (Some (JBool True)) (stepState step)\<rparr>)"
  by (simp add: addToken_def pseudoState_def u_def)

lemma addToken_role: "r \<in> set ROLES \<Longrightarrow> stepRole step = None \<Longrightarrow> addToken cs r step = Some (step\<lparr>stepRole := Some r\<rparr>)"
proof -
  assume r: "r \<in> set ROLES" "stepRole step = None"
  then obtain c t where c: "r = c # t" "letter_unit c" using ROLES_ok by blast
  then have "c \<noteq> 35" "c \<noteq> 46" "c \<noteq> 58" using sigil_units(13-15) by metis+
  with r c show ?thesis by (simp add: addToken_def Let_def sigil_units(4-6))
qed

lemma addTokens_append: "addTokens cs (xs @ ys) step = Option.bind (addTokens cs xs step) (addTokens cs ys)"
proof (induction xs arbitrary: step)
  case (Cons x xs)
  then show ?case by (cases "addToken cs x step") simp_all
qed simp

lemma addTokens_classes:
  "list_all word_ok xs \<Longrightarrow> addTokens cs (map (\<lambda>c. u ''.'' @ c) xs) step = Some (step\<lparr>stepClasses := stepClasses step @ xs\<rparr>)"
  by (induction xs arbitrary: step) (simp_all add: addToken_class)

lemma addTokens_states:
  assumes "\<forall>(k, v) \<in> set st. js_get PSEUDO_STATES k = Some k \<and> v = Some (JBool True) \<and> toLowerCase cs k = k"
    and "distinct (js_keys (stepState step) @ js_keys st)"
  shows "addTokens cs (map (\<lambda>(k, _). u '':'' @ k) st) step = Some (step\<lparr>stepState := stepState step @ st\<rparr>)"
  using assms
proof (induction st arbitrary: step)
  case (Cons e st)
  obtain k where e: "e = (k, Some (JBool True))" "js_get PSEUDO_STATES k = Some k" "toLowerCase cs k = k" using Cons.prems(1) by auto
  have "js_set k (Some (JBool True)) (stepState step) = stepState step @ [e]" using Cons.prems(2) e by (auto intro: js_set_absent)
  moreover have "addTokens cs (map (\<lambda>(k, _). u '':'' @ k) st) (step\<lparr>stepState := stepState step @ [e]\<rparr>) =
      Some (step\<lparr>stepState := stepState step @ [e]\<rparr>\<lparr>stepState := stepState (step\<lparr>stepState := stepState step @ [e]\<rparr>) @ st\<rparr>)"
    using Cons.prems e by (intro Cons.IH) auto
  ultimately show ?case using addToken_state [OF e(3,2)] e(1) by simp
qed simp

definition lowers_pseudo :: "casing \<Rightarrow> bool" where
  "lowers_pseudo cs \<longleftrightarrow> (\<forall>k. js_get PSEUDO_STATES k = Some k \<longrightarrow> toLowerCase cs k = k)"

lemma parse_step:
  assumes "step_ok s" "lowers_pseudo cs"
  shows "parseCompound cs (stepText_of s) = Some s"
proof -
  define ids where "ids = (case stepTestId s of None \<Rightarrow> [] | Some i \<Rightarrow> [u ''#'' @ i])"
  define ts where "ts = ids @ map (\<lambda>c. u ''.'' @ c) (stepClasses s) @ map (\<lambda>(k, _). u '':'' @ k) (stepState s)"
  define base where "base = emptyStep\<lparr>stepRole := stepRole s\<rparr>"
  have states: "\<forall>(k, v) \<in> set (stepState s). js_get PSEUDO_STATES k = Some k \<and> v = Some (JBool True) \<and> toLowerCase cs k = k"
    using assms by (auto simp: step_ok_def lowers_pseudo_def)
  have "list_all token_ok (map (\<lambda>(k, _). u '':'' @ k) (stepState s))"
    using states PSEUDO_word by (fastforce simp: list_all_iff token_ok_def sigil_units)
  then have ok: "list_all token_ok ts"
    using assms(1) by (auto simp: ts_def ids_def step_ok_def token_ok_def sigil_units list_all_iff split: option.splits)
  have "addTokens cs ids base = Some (base\<lparr>stepTestId := stepTestId s\<rparr>)"
    by (auto simp: ids_def base_def emptyStep_def addToken_id split: option.split)
  then have add: "addTokens cs ts base = Some s"
    using assms(1) states addTokens_classes [of "stepClasses s" cs "base\<lparr>stepTestId := stepTestId s\<rparr>"]
      addTokens_states [of "stepState s" cs "base\<lparr>stepTestId := stepTestId s, stepClasses := stepClasses s\<rparr>"]
    by (auto simp: ts_def addTokens_append base_def emptyStep_def step_ok_def)
  have printed: "stepText_of s = (case stepRole s of None \<Rightarrow> [] | Some r \<Rightarrow> r) @ concat ts"
    by (simp add: stepText_of_def ts_def ids_def split: option.split)
  show ?thesis
  proof (cases "stepRole s")
    case None
    with add printed compoundTokens_concat(1) [OF ok] show ?thesis by (simp add: parseCompound_def base_def emptyStep_def)
  next
    case (Some r)
    then have r: "r \<in> set ROLES" using assms(1) by (simp add: step_ok_def)
    have "addToken cs r emptyStep = Some base" using Some addToken_role [OF r] by (simp add: base_def emptyStep_def)
    with Some add printed compoundTokens_concat(2) [OF ok r] show ?thesis by (simp add: parseCompound_def)
  qed
qed

text \<open>Compounds joined by spaces.\<close>

primrec joinSpace :: "js_string list \<Rightarrow> js_string" where
  "joinSpace [] = []"
| "joinSpace (w # ws) = (if ws = [] then w else w @ u '' '' @ joinSpace ws)"

definition plain_word :: "js_string \<Rightarrow> bool" where
  "plain_word w \<longleftrightarrow> w \<noteq> [] \<and> list_all (\<lambda>c. \<not> space_unit c) w"

lemma space_32: "space_unit 32" "u '' '' = [32]"
  by (simp_all add: space_unit_def u_def)

lemma plain_head: "plain_word w \<Longrightarrow> dropWhile space_unit (w @ s) = w @ s"
  by (cases w) (auto simp: plain_word_def)

lemma words_by_join: "list_all plain_word ws \<Longrightarrow> words_by space_unit (joinSpace ws) = ws"
proof (induction ws)
  case Nil
  then show ?case by (subst words_by.simps) simp
next
  case (Cons w ws)
  obtain c t where w: "w = c # t" using Cons.prems by (cases w) (auto simp: plain_word_def)
  have plain: "list_all (\<lambda>c. \<not> space_unit c) w" "plain_word w" using Cons.prems by (simp_all add: plain_word_def)
  show ?case
  proof (cases ws)
    case Nil
    have "dropWhile space_unit w = c # t" using plain_head [OF plain(2), of "[]"] w by simp
    moreover have "takeWhile (\<lambda>c. \<not> space_unit c) w = w" "dropWhile (\<lambda>c. \<not> space_unit c) w = []"
      using takeWhile_all [OF plain(1)] by blast+
    moreover have "words_by space_unit [] = []" by (subst words_by.simps) simp
    ultimately show ?thesis using Nil w by (subst words_by.simps) simp
  next
    case (Cons w' ws')
    let ?s = "w @ 32 # joinSpace ws"
    have "words_by space_unit (32 # joinSpace ws) = words_by space_unit (joinSpace ws)"
      by (subst (1 2) words_by.simps) (simp add: space_32)
    with Cons.IH Cons.prems have rest: "words_by space_unit (32 # joinSpace ws) = ws" by simp
    have "dropWhile space_unit ?s = c # (t @ 32 # joinSpace ws)" using plain_head [OF plain(2), of "32 # joinSpace ws"] w by simp
    moreover have "takeWhile (\<lambda>c. \<not> space_unit c) ?s = w" "dropWhile (\<lambda>c. \<not> space_unit c) ?s = 32 # joinSpace ws"
      using takeWhile_units [OF plain(1), of 32 "joinSpace ws"] space_32(1) by simp_all
    ultimately have "words_by space_unit ?s = w # ws" using rest w by (subst words_by.simps) simp
    then show ?thesis using Cons by (simp add: space_32)
  qed
qed

lemma joinSpace_ends:
  "list_all plain_word ws \<Longrightarrow> ws \<noteq> [] \<Longrightarrow> (\<exists>s. joinSpace ws = hd ws @ s) \<and> (\<exists>s. joinSpace ws = s @ last ws)"
proof (induction ws)
  case (Cons w ws)
  then show ?case by (cases "ws = []") (auto, metis append.assoc)
qed simp

lemma trim_join: "list_all plain_word ws \<Longrightarrow> trim (joinSpace ws) = joinSpace ws"
proof (cases "ws = []")
  case False
  assume ws: "list_all plain_word ws"
  then obtain a b where ab: "joinSpace ws = hd ws @ a" "joinSpace ws = b @ last ws" using joinSpace_ends False by blast
  have "plain_word (hd ws)" "plain_word (rev (last ws))" using ws False by (auto simp: list_all_iff plain_word_def)
  then have "dropWhile space_unit (joinSpace ws) = joinSpace ws" "dropWhile space_unit (rev (joinSpace ws)) = rev (joinSpace ws)"
    using plain_head ab by (metis, metis rev_append)
  then show ?thesis by (simp add: trim_def)
qed (simp add: trim_def)

lemma unit_not_space: "body_unit c \<Longrightarrow> \<not> space_unit c" "c \<in> {35, 46, 58} \<Longrightarrow> \<not> space_unit c"
proof -
  show "c \<in> {35, 46, 58} \<Longrightarrow> \<not> space_unit c" by (auto simp: space_unit_def)
  assume "body_unit c"
  then have "unat c \<le> 122" "unat c \<ge> 45" by (auto simp: body_unit_def role_unit_def letter_unit_def digit_unit_def u_def word_le_nat_alt)
  then show "\<not> space_unit c" by (auto simp: space_unit_def word_le_nat_alt)
qed

lemma stepText_plain:
  assumes "step_ok s" "s \<noteq> emptyStep"
  shows "plain_word (stepText_of s)"
proof -
  have word: "\<forall>c \<in> set w. \<not> space_unit c" if "word_ok w" for w using that unit_not_space(1) by (auto simp: word_ok_def list_all_iff)
  have role: "r \<noteq> [] \<and> (\<forall>c \<in> set r. \<not> space_unit c)" if r: "r \<in> set ROLES" for r
  proof -
    obtain c t where "r = c # t" "letter_unit c" "list_all role_unit t" using ROLES_ok [OF r] by blast
    then have "r \<noteq> []" "\<forall>x \<in> set r. body_unit x" by (auto simp: body_unit_def role_unit_def list_all_iff)
    then show ?thesis using unit_not_space(1) by blast
  qed
  have states: "\<forall>(k, v) \<in> set (stepState s). word_ok k" using assms(1) PSEUDO_word by (auto simp: step_ok_def)
  have parts: "\<forall>r. stepRole s = Some r \<longrightarrow> r \<in> set ROLES" "\<forall>i. stepTestId s = Some i \<longrightarrow> word_ok i" "\<forall>c \<in> set (stepClasses s). word_ok c"
    using assms(1) unfolding step_ok_def list_all_iff by blast+
  have plain: "\<forall>c \<in> set (x # w). \<not> space_unit c" if "word_ok w" "x \<in> {35, 46, 58}" for w x
    using word [OF that(1)] unit_not_space(2) [OF that(2)] by simp
  have "\<forall>c \<in> set (case stepRole s of None \<Rightarrow> [] | Some r \<Rightarrow> r). \<not> space_unit c"
    using parts(1) role by (cases "stepRole s") auto
  moreover have "\<forall>c \<in> set (case stepTestId s of None \<Rightarrow> [] | Some i \<Rightarrow> u ''#'' @ i). \<not> space_unit c"
    using parts(2) plain [of _ 35] by (cases "stepTestId s") (auto simp: sigil_units)
  moreover have "\<forall>c \<in> set (concat (map (\<lambda>c. u ''.'' @ c) (stepClasses s))). \<not> space_unit c"
  proof -
    have "\<forall>c \<in> set (u ''.'' @ w). \<not> space_unit c" if "w \<in> set (stepClasses s)" for w
      using that parts(3) plain [of w 46] by (simp add: sigil_units)
    then show ?thesis unfolding set_concat set_map by blast
  qed
  moreover have "\<forall>c \<in> set (concat (map (\<lambda>(k, _). u '':'' @ k) (stepState s))). \<not> space_unit c"
  proof -
    have "\<forall>c \<in> set (u '':'' @ fst e). \<not> space_unit c" if "e \<in> set (stepState s)" for e
      using that states plain [of "fst e" 58] by (auto simp: sigil_units)
    then show ?thesis unfolding set_concat set_map split_def by blast
  qed
  ultimately have "\<forall>c \<in> set (stepText_of s). \<not> space_unit c" unfolding stepText_of_def set_append by blast
  moreover have "stepText_of s \<noteq> []"
  proof
    assume "stepText_of s = []"
    then have "stepRole s = None" "stepTestId s = None" "stepClasses s = []" "stepState s = []"
      using parts(1) role
      by (auto simp: stepText_of_def sigil_units neq_Nil_conv split: option.splits) (cases "stepState s"; auto)
    moreover have "s = emptyStep\<lparr>stepRole := stepRole s, stepTestId := stepTestId s, stepClasses := stepClasses s, stepState := stepState s\<rparr>"
      using assms(1) unfolding step_ok_def by blast
    ultimately have "s = emptyStep\<lparr>stepRole := None, stepTestId := None, stepClasses := [], stepState := []\<rparr>" by metis
    also have "\<dots> = emptyStep" by (simp add: emptyStep_def)
    finally show False using assms(2) by contradiction
  qed
  ultimately show ?thesis by (simp add: plain_word_def list_all_iff)
qed

lemma parseCompounds_texts:
  "list_all step_ok steps \<Longrightarrow> lowers_pseudo cs \<Longrightarrow> parseCompounds cs (map stepText_of steps) = Some steps"
  by (induction steps) (simp_all add: parse_step)

text \<open>C26: The selector that is printed from a chain of steps with roles, test ids, classes and pseudo-classes parses to exactly that
  chain. \<open>lowers_pseudo\<close>: the runtime's lower case leaves the nine names of pseudo-classes alone.\<close>

theorem selector_roundtrip:
  assumes "lowers_pseudo cs" and "steps \<noteq> []" and "\<forall>s \<in> set steps. step_ok s \<and> s \<noteq> emptyStep"
  shows "parseSelector cs (joinSpace (map stepText_of steps)) = Some steps"
proof -
  have "list_all plain_word (map stepText_of steps)" using assms(3) stepText_plain by (auto simp: list_all_iff)
  then have "words_by space_unit (trim (joinSpace (map stepText_of steps))) = map stepText_of steps"
    by (simp add: trim_join words_by_join)
  then show ?thesis
    using assms parseCompounds_texts [of steps cs] by (simp add: parseSelector_def list_all_iff)
qed

lemma demo_casing_lowers: "lowers_pseudo demo_casing"
  by (auto simp: lowers_pseudo_def PSEUDO_STATES_def demo_casing_def u_def split: if_splits)

theorem selector_roundtrip_witness:
  "parseSelector demo_casing (joinSpace (map stepText_of
     [emptyStep\<lparr>stepRole := Some (u ''dialog'')\<rparr>,
      emptyStep\<lparr>stepTestId := Some (u ''ok''), stepState := [(u ''focused'', Some (JBool True))]\<rparr>])) =
   Some [emptyStep\<lparr>stepRole := Some (u ''dialog'')\<rparr>,
      emptyStep\<lparr>stepTestId := Some (u ''ok''), stepState := [(u ''focused'', Some (JBool True))]\<rparr>]"
  by (rule selector_roundtrip [OF demo_casing_lowers])
    (auto simp: step_ok_def emptyStep_def ROLES_def PSEUDO_STATES_def word_ok_def u_def body_unit_def role_unit_def letter_unit_def
      digit_unit_def)

lemma constructor_tokens: "compoundTokens (u ''button:constructor'') = Some [u ''button'', u '':constructor'']"
proof -
  have "word_ok (u ''constructor'')" by (simp add: word_ok_def u_def body_unit_def role_unit_def letter_unit_def)
  then have "list_all token_ok [u '':constructor'']" by (auto simp: token_ok_def u_def)
  from compoundTokens_concat(2) [OF this, of "u ''button''"] show ?thesis by (simp add: ROLES_def u_def)
qed

lemma constructor_step:
  "addTokens demo_casing [u ''button'', u '':constructor''] emptyStep =
     Some (emptyStep\<lparr>stepRole := Some (u ''button''), stepState := [(u ''function Object() { [native code] }'', Some (JBool True))]\<rparr>)"
proof -
  have "addToken demo_casing (u ''button'') emptyStep = Some (emptyStep\<lparr>stepRole := Some (u ''button'')\<rparr>)"
    by (rule addToken_role) (simp_all add: ROLES_def emptyStep_def)
  moreover have "toLowerCase demo_casing (u ''constructor'') = u ''constructor''" by (simp add: demo_casing_def u_def)
  moreover have "take 1 (u '':constructor'') = u '':''" "drop 1 (u '':constructor'') = u ''constructor''" by (simp_all add: u_def)
  ultimately show ?thesis
    by (simp add: addToken_def Let_def pseudoState_def PSEUDO_STATES_def INHERITED_def emptyStep_def)
qed

text \<open>The pseudo-class \<open>:constructor\<close>, which is not in the language, is not a syntax error: the lookup of the pseudo-class finds the
  constructor that every object inherits, and the parsed step requires a state of that name, which no node has.\<close>

theorem pseudo_class_inherited:
  "parseSelector demo_casing (u ''button:constructor'') =
     Some [emptyStep\<lparr>stepRole := Some (u ''button''), stepState := [(u ''function Object() { [native code] }'', Some (JBool True))]\<rparr>] \<and>
   js_get PSEUDO_STATES (u ''constructor'') = None"
proof -
  have "list_all plain_word [u ''button:constructor'']" by (simp add: plain_word_def space_unit_def u_def)
  from words_by_join [OF this] trim_join [OF this]
  have "words_by space_unit (trim (u ''button:constructor'')) = [u ''button:constructor'']" by simp
  then show ?thesis
    by (simp add: parseSelector_def parseCompound_def constructor_tokens constructor_step PSEUDO_STATES_def
      del: addTokens.simps)
qed

end
