(* ===== verification/Matching.thy ===== *)
theory Matching
  imports Selectors "HOL-Library.Sublist"
begin

text \<open>
  The locator engine on semantic trees (\<open>src/packages/driver/src/matching.ts\<close>, the first half).

  \<^item> \<open>semantic_index\<close> is the class \<open>SemanticIndex\<close>: the nodes of the committed snapshot, the map from ids to nodes, the three maps
    from a role, test id or name to a set of ids (a set is the list of its elements in the order of insertion), and the
    position of each node.
  \<^item> \<open>index_update\<close> applies the changes of one delta; \<open>createIndex\<close> builds the index of a whole snapshot.
  \<^item> \<open>ancestors\<close> follows parents and stops at a repetition; it terminates because the ids it has not seen become fewer.
\<close>

section \<open>The index\<close>

record semantic_index =
  idxNodes :: "semantic_node list"
  byId :: "(node_id, semantic_node) js_map"
  byRole :: "(js_string, node_id list) js_map"
  byTestId :: "(js_string, node_id list) js_map"
  byExactName :: "(js_string, node_id list) js_map"
  nodeOrdinal :: "(node_id, nat) js_map"

definition set_add :: "'a \<Rightarrow> 'a list \<Rightarrow> 'a list" where
  "set_add x xs = (if x \<in> set xs then xs else xs @ [x])"

definition addIndex :: "js_string \<Rightarrow> node_id \<Rightarrow> (js_string, node_id list) js_map \<Rightarrow> (js_string, node_id list) js_map" where
  "addIndex key i index = js_set key (set_add i (items (js_get index key))) index"

definition removeIndex :: "js_string \<Rightarrow> node_id \<Rightarrow> (js_string, node_id list) js_map \<Rightarrow> (js_string, node_id list) js_map" where
  "removeIndex key i index =
     (case js_get index key of
        None \<Rightarrow> index
      | Some ids \<Rightarrow> if removeAll i ids = [] then js_delete key index else js_set key (removeAll i ids) index)"

definition addNode :: "semantic_node \<Rightarrow> semantic_index \<Rightarrow> semantic_index" where
  "addNode n s = s\<lparr>byId := js_set (nodeId n) n (byId s), byRole := addIndex (role n) (nodeId n) (byRole s),
     byExactName := addIndex (nodeName n) (nodeId n) (byExactName s),
     byTestId := (case testId n of None \<Rightarrow> byTestId s | Some t \<Rightarrow> addIndex t (nodeId n) (byTestId s))\<rparr>"

definition removeNode :: "semantic_node \<Rightarrow> semantic_index \<Rightarrow> semantic_index" where
  "removeNode n s = s\<lparr>byId := js_delete (nodeId n) (byId s), byRole := removeIndex (role n) (nodeId n) (byRole s),
     byExactName := removeIndex (nodeName n) (nodeId n) (byExactName s),
     byTestId := (case testId n of None \<Rightarrow> byTestId s | Some t \<Rightarrow> removeIndex t (nodeId n) (byTestId s))\<rparr>"

text \<open>\<open>for (const [ordinal, node] of nodes.entries()) ordinals.set(node.id, ordinal)\<close>\<close>

definition setOrdinals :: "semantic_node list \<Rightarrow> (node_id, nat) js_map \<Rightarrow> (node_id, nat) js_map" where
  "setOrdinals ns m = fold (\<lambda>(k, n). js_set (nodeId n) k) (enumerate 0 ns) m"

definition emptyIndex :: "semantic_node list \<Rightarrow> semantic_index" where
  "emptyIndex ns = \<lparr>idxNodes = ns, byId = [], byRole = [], byTestId = [], byExactName = [], nodeOrdinal = []\<rparr>"

definition createIndex :: "semantic_node list \<Rightarrow> semantic_index" where
  "createIndex ns = (fold addNode ns (emptyIndex ns))\<lparr>nodeOrdinal := setOrdinals ns []\<rparr>"

text \<open>One entry of the changed nodes: whether the order changes, and the index.\<close>

definition applyChange :: "node_id \<times> semantic_node option \<Rightarrow> bool \<times> semantic_index \<Rightarrow> bool \<times> semantic_index" where
  "applyChange = (\<lambda>(i, next) (orderChanged, s).
     let previous = js_get (byId s) i;
         s1 = (case previous of None \<Rightarrow> s | Some p \<Rightarrow> removeNode p s);
         s2 = (case next of None \<Rightarrow> s1 | Some n \<Rightarrow> addNode n s1)
     in (orderChanged \<or> (previous = None) \<noteq> (next = None), s2))"

definition index_update :: "semantic_node list \<Rightarrow> (node_id \<times> semantic_node option) list \<Rightarrow> semantic_index \<Rightarrow> semantic_index" where
  "index_update ns changes s =
     (case fold applyChange changes (False, s) of
        (orderChanged, s1) \<Rightarrow>
          (let s2 = s1\<lparr>idxNodes := ns\<rparr>
           in if orderChanged then s2\<lparr>nodeOrdinal := setOrdinals ns []\<rparr> else s2))"

section \<open>Queries on the index\<close>

definition index_sets :: "semantic_index \<Rightarrow> semantic_step \<Rightarrow> node_id list list" where
  "index_sets s step =
     (case stepRole step of None \<Rightarrow> [] | Some r \<Rightarrow> [items (js_get (byRole s) r)]) @
     (case stepTestId step of None \<Rightarrow> [] | Some t \<Rightarrow> [items (js_get (byTestId s) t)]) @
     (case stepName step of Some (Exact t) \<Rightarrow> [items (js_get (byExactName s) t)] | _ \<Rightarrow> [])"

definition candidates :: "semantic_index \<Rightarrow> semantic_step \<Rightarrow> semantic_node list" where
  "candidates s step =
     (case sort_key length (index_sets s step) of
        [] \<Rightarrow> idxNodes s
      | ids # others \<Rightarrow>
          sort_key (\<lambda>n. case js_get (nodeOrdinal s) (nodeId n) of None \<Rightarrow> 0 | Some k \<Rightarrow> k)
            (List.map_filter (js_get (byId s)) (filter (\<lambda>i. list_all (\<lambda>is. i \<in> set is) others) ids)))"

text \<open>The ids that \<open>ancestors\<close> may still meet.\<close>

lemma ancestors_terminates:
  assumes "js_get m p = Some parent" "nodeId parent \<notin> set seen"
  shows "card (nodeId ` set (js_values m) - set (nodeId parent # seen)) < card (nodeId ` set (js_values m) - set seen)"
proof (rule psubset_card_mono)
  have "parent \<in> set (js_values m)" using map_of_SomeD [OF assms(1)] by force
  then show "nodeId ` set (js_values m) - set (nodeId parent # seen) \<subset> nodeId ` set (js_values m) - set seen"
    using assms(2) by auto
qed simp

function ancestorsFrom :: "(node_id, semantic_node) js_map \<Rightarrow> node_id list \<Rightarrow> semantic_node \<Rightarrow> semantic_node list" where
  "ancestorsFrom m seen current =
     (case parentId current of
        None \<Rightarrow> []
      | Some p \<Rightarrow>
          (case js_get m p of
             None \<Rightarrow> []
           | Some parent \<Rightarrow>
               if nodeId parent \<in> set seen then [] else parent # ancestorsFrom m (nodeId parent # seen) parent))"
  by pat_completeness auto
termination
proof (relation "measure (\<lambda>(m, seen, _). card (nodeId ` set (js_values m) - set seen))")
  fix m seen current p parent
  assume "js_get m p = Some parent" "nodeId parent \<notin> set seen"
  from ancestors_terminates [OF this]
  show "((m, nodeId parent # seen, parent), m, seen, current) \<in> measure (\<lambda>(m, seen, _). card (nodeId ` set (js_values m) - set seen))"
    by simp
qed simp

declare ancestorsFrom.simps [simp del]

definition ancestors :: "semantic_index \<Rightarrow> semantic_node \<Rightarrow> semantic_node list" where
  "ancestors s n = ancestorsFrom (byId s) [nodeId n] n"

definition isDescendantOf :: "semantic_index \<Rightarrow> semantic_node \<Rightarrow> node_id \<Rightarrow> bool" where
  "isDescendantOf s n i = list_ex (\<lambda>a. nodeId a = i) (ancestors s n)"

definition nodeLabel :: "semantic_index \<Rightarrow> semantic_node \<Rightarrow> js_string" where
  "nodeLabel s n =
     (if labelledBy n = None \<or> labelledBy n = Some [] then nodeName n
      else let parts = filter (\<lambda>t. t \<noteq> []) (List.map_filter (\<lambda>i. map_option nodeName (js_get (byId s) i)) (items (labelledBy n)))
      in if parts = [] then nodeName n else join_with (u '' '') parts)"

section \<open>Steps and chains\<close>

definition stateMatches :: "semantic_node \<Rightarrow> (js_string, json option) js_map \<Rightarrow> bool" where
  "stateMatches n expected =
     list_all (\<lambda>(k, want). case want of
         None \<Rightarrow> True
       | Some w \<Rightarrow> (case nodeState n of None \<Rightarrow> None | Some st \<Rightarrow> js_get st k) = Some w) expected"

definition classMatches :: "semantic_node \<Rightarrow> js_string \<Rightarrow> bool" where
  "classMatches n c \<longleftrightarrow>
     c \<in> set (words_by (\<lambda>x. space_unit x \<or> [x] = u ''.'') (case testId n of None \<Rightarrow> [] | Some t \<Rightarrow> t)) \<or>
     c \<in> set (words_by space_unit (nodeName n))"

text \<open>\<open>wanted !== undefined && !holds\<close>\<close>

definition unmet :: "'a option \<Rightarrow> ('a \<Rightarrow> bool) \<Rightarrow> bool" where
  "unmet wanted holds = (case wanted of None \<Rightarrow> False | Some w \<Rightarrow> \<not> holds w)"

definition stepMatches :: "casing \<Rightarrow> semantic_index \<Rightarrow> semantic_node \<Rightarrow> semantic_step \<Rightarrow> bool" where
  "stepMatches cs s n step =
     (if unmet (stepRole step) (\<lambda>r. role n = r) then False
      else if unmet (stepTestId step) (\<lambda>t. testId n = Some t) then False
      else if list_ex (\<lambda>c. \<not> classMatches n c) (stepClasses step) then False
      else if unmet (stepName step) (matchesText cs (Some (nodeName n))) then False
      else if unmet (stepLabel step) (matchesText cs (Some (nodeLabel s n))) then False
      else if unmet (stepFrameworkType step) (matchesText cs (frameworkType n)) then False
      else if unmet (stepText step) (\<lambda>m. matchesText cs (Some (nodeName n)) m \<or>
             matchesText cs (case nodeValue n of Some (ValueKnown v) \<Rightarrow> Some v | _ \<Rightarrow> None) m \<or>
             matchesText cs (Some (nodeLabel s n)) m) then False
      else stateMatches n (stepState step))"

text \<open>The loop over the ancestors; \<open>steps\<close> are the steps that are left, the innermost first.\<close>

fun ancestorsLoop :: "casing \<Rightarrow> semantic_index \<Rightarrow> semantic_node list \<Rightarrow> semantic_step list \<Rightarrow> bool" where
  "ancestorsLoop cs s [] steps = False"
| "ancestorsLoop cs s (a # chain) [] = False"
| "ancestorsLoop cs s (a # chain) (step # steps) =
     (if stepMatches cs s a step then (if steps = [] then True else ancestorsLoop cs s chain steps)
      else ancestorsLoop cs s chain (step # steps))"

definition ancestorsMatch :: "casing \<Rightarrow> semantic_index \<Rightarrow> semantic_node \<Rightarrow> semantic_step list \<Rightarrow> bool" where
  "ancestorsMatch cs s n steps = (if steps = [] then True else ancestorsLoop cs s (ancestors s n) (rev steps))"

definition matchSemantic :: "casing \<Rightarrow> semantic_index \<Rightarrow> semantic_step list \<Rightarrow> node_id option \<Rightarrow> semantic_node list" where
  "matchSemantic cs s steps scope =
     (if steps = [] then []
      else filter (\<lambda>n. (case scope of None \<Rightarrow> True | Some i \<Rightarrow> isDescendantOf s n i) \<and> stepMatches cs s n (last steps) \<and>
             ancestorsMatch cs s n (butlast steps)) (candidates s (last steps)))"

end
