(* ===== verification/Matching_Props.thy ===== *)
theory Matching_Props
  imports Matching Snapshot_Props
begin

text \<open>
  The index of the locator engine refines the list of the nodes: \<open>index_abs\<close> is its abstraction, the map from ids to nodes.
  Building it from scratch and updating it with the changes of a delta establish and keep \<open>index_ok\<close>; under it \<open>candidates\<close>
  filters the nodes in order, and \<open>matchSemantic\<close> is the declarative meaning of a descendant chain.
\<close>

section \<open>Keyed sets\<close>

definition ids_at :: "(js_string, node_id list) js_map \<Rightarrow> js_string \<Rightarrow> node_id list" where
  "ids_at m k = items (js_get m k)"

definition keyed :: "(semantic_node \<Rightarrow> js_string option) \<Rightarrow> (node_id \<Rightarrow> semantic_node option) \<Rightarrow> (js_string, node_id list) js_map \<Rightarrow> bool" where
  "keyed key D m \<longleftrightarrow> (\<forall>k. distinct (ids_at m k) \<and>
     (\<forall>i. i \<in> set (ids_at m k) \<longleftrightarrow> (\<exists>n. D i = Some n \<and> key n = Some k)))"

lemma addIndex_items: "ids_at (addIndex k i m) k' = (if k' = k then set_add i (ids_at m k) else ids_at m k')"
  by (simp add: ids_at_def addIndex_def js_get_set)

lemma removeIndex_items: "ids_at (removeIndex k i m) k' = (if k' = k then removeAll i (ids_at m k) else ids_at m k')"
  by (auto simp: ids_at_def removeIndex_def js_get_set js_get_delete split: option.split)

lemma keyed_add:
  assumes "keyed key D m" "D i = None"
  shows "key n = Some k \<Longrightarrow> keyed key (D(i \<mapsto> n)) (addIndex k i m)" and "key n = None \<Longrightarrow> keyed key (D(i \<mapsto> n)) m"
  using assms by (auto simp: keyed_def addIndex_items set_add_def)

lemma keyed_remove:
  assumes "keyed key D m" "D i = Some n"
  shows "key n = Some k \<Longrightarrow> keyed key (D(i := None)) (removeIndex k i m)" and "key n = None \<Longrightarrow> keyed key (D(i := None)) m"
  using assms by (auto simp: keyed_def removeIndex_items distinct_removeAll)

section \<open>The abstraction\<close>

definition index_abs :: "(node_id \<Rightarrow> semantic_node option) \<Rightarrow> semantic_index \<Rightarrow> bool" where
  "index_abs D s \<longleftrightarrow> (\<forall>i. js_get (byId s) i = D i) \<and> (\<forall>i n. D i = Some n \<longrightarrow> nodeId n = i) \<and>
     keyed (\<lambda>n. Some (role n)) D (byRole s) \<and> keyed (\<lambda>n. Some (nodeName n)) D (byExactName s) \<and> keyed testId D (byTestId s)"

lemma addNode_abs:
  assumes "index_abs D s" "D (nodeId n) = None"
  shows "index_abs (D(nodeId n \<mapsto> n)) (addNode n s)"
proof -
  have keys: "keyed (\<lambda>n. Some (role n)) D (byRole s)" "keyed (\<lambda>n. Some (nodeName n)) D (byExactName s)" "keyed testId D (byTestId s)"
    using assms(1) by (simp_all add: index_abs_def)
  have "keyed testId (D(nodeId n \<mapsto> n)) (byTestId (addNode n s))"
    using keyed_add [OF keys(3) assms(2), of n] by (simp add: addNode_def split: option.split)
  moreover have "keyed (\<lambda>n. Some (role n)) (D(nodeId n \<mapsto> n)) (byRole (addNode n s))"
    "keyed (\<lambda>n. Some (nodeName n)) (D(nodeId n \<mapsto> n)) (byExactName (addNode n s))"
    using keyed_add(1) [OF keys(1) assms(2)] keyed_add(1) [OF keys(2) assms(2)] by (simp_all add: addNode_def)
  moreover have "js_get (byId (addNode n s)) i = (D(nodeId n \<mapsto> n)) i" for i
    using assms(1) by (simp add: addNode_def js_get_set index_abs_def)
  ultimately show ?thesis using assms(1) unfolding index_abs_def by auto
qed

lemma removeNode_abs:
  assumes "index_abs D s" "D (nodeId n) = Some n"
  shows "index_abs (D(nodeId n := None)) (removeNode n s)"
proof -
  have keys: "keyed (\<lambda>n. Some (role n)) D (byRole s)" "keyed (\<lambda>n. Some (nodeName n)) D (byExactName s)" "keyed testId D (byTestId s)"
    using assms(1) by (simp_all add: index_abs_def)
  have "keyed testId (D(nodeId n := None)) (byTestId (removeNode n s))"
    using keyed_remove [OF keys(3) assms(2)] by (simp add: removeNode_def split: option.split)
  moreover have "keyed (\<lambda>n. Some (role n)) (D(nodeId n := None)) (byRole (removeNode n s))"
    "keyed (\<lambda>n. Some (nodeName n)) (D(nodeId n := None)) (byExactName (removeNode n s))"
    using keyed_remove(1) [OF keys(1) assms(2)] keyed_remove(1) [OF keys(2) assms(2)] by (simp_all add: removeNode_def)
  moreover have "js_get (byId (removeNode n s)) i = (D(nodeId n := None)) i" for i
    using assms(1) by (simp add: removeNode_def js_get_delete index_abs_def)
  ultimately show ?thesis using assms(1) unfolding index_abs_def by auto
qed

lemma index_frame [simp]:
  "index_abs D (s\<lparr>idxNodes := ns\<rparr>) = index_abs D s" "index_abs D (s\<lparr>nodeOrdinal := m\<rparr>) = index_abs D s"
  "idxNodes (addNode n s) = idxNodes s" "nodeOrdinal (addNode n s) = nodeOrdinal s"
  "idxNodes (removeNode n s) = idxNodes s" "nodeOrdinal (removeNode n s) = nodeOrdinal s"
  by (simp_all add: index_abs_def addNode_def removeNode_def)

lemma fold_addNode_abs:
  "index_abs D s \<Longrightarrow> distinct (map nodeId ns) \<Longrightarrow> \<forall>n \<in> set ns. D (nodeId n) = None \<Longrightarrow>
     index_abs (D ++ map_of (index_of ns)) (fold addNode ns s) \<and> idxNodes (fold addNode ns s) = idxNodes s"
proof (induction ns arbitrary: D s)
  case (Cons n ns)
  have "nodeId n \<notin> nodeId ` set ns" using Cons.prems(2) by simp
  then have fresh: "map_of (index_of ns) (nodeId n) = None" by (simp add: map_of_eq_None_iff image_image)
  have "index_abs ((D(nodeId n \<mapsto> n)) ++ map_of (index_of ns)) (fold addNode ns (addNode n s)) \<and>
      idxNodes (fold addNode ns (addNode n s)) = idxNodes (addNode n s)"
  proof (rule Cons.IH)
    show "index_abs (D(nodeId n \<mapsto> n)) (addNode n s)" using Cons.prems(1,3) by (intro addNode_abs) simp_all
    show "\<forall>m \<in> set ns. (D(nodeId n \<mapsto> n)) (nodeId m) = None"
      using Cons.prems(3) \<open>nodeId n \<notin> nodeId ` set ns\<close> by (metis fun_upd_apply imageI list.set_intros(2))
  qed (use Cons.prems(2) in simp)
  moreover have "(D(nodeId n \<mapsto> n)) ++ map_of (index_of ns) = D ++ map_of (index_of (n # ns))"
    using fresh by (auto simp: map_add_def fun_eq_iff split: option.split)
  ultimately show ?case by (simp only: fold_simps index_frame(3))
qed simp

lemma emptyIndex_abs: "index_abs Map.empty (emptyIndex ns)"
  by (simp add: index_abs_def emptyIndex_def keyed_def ids_at_def)

section \<open>Positions\<close>

definition ordinals_ok :: "semantic_node list \<Rightarrow> (node_id, nat) js_map \<Rightarrow> bool" where
  "ordinals_ok ns m \<longleftrightarrow> (\<forall>k < length ns. js_get m (nodeId (ns ! k)) = Some k)"

lemma setOrdinals_ok:
  assumes "distinct (map nodeId ns)"
  shows "ordinals_ok ns (setOrdinals ns m)"
  using assms
proof (induction ns rule: rev_induct)
  case (snoc n ns)
  have "setOrdinals (ns @ [n]) m = js_set (nodeId n) (length ns) (setOrdinals ns m)"
    by (simp add: setOrdinals_def enumerate_append_eq)
  moreover have "nodeId (ns ! k) \<noteq> nodeId n" if "k < length ns" for k
    using snoc.prems imageI [OF nth_mem [OF that], of nodeId] by auto
  ultimately show ?case using snoc by (auto simp: ordinals_ok_def nth_append js_get_set less_Suc_eq)
qed (simp add: ordinals_ok_def)

definition index_ok :: "semantic_node list \<Rightarrow> semantic_index \<Rightarrow> bool" where
  "index_ok ns s \<longleftrightarrow> distinct (map nodeId ns) \<and> idxNodes s = ns \<and> index_abs (map_of (index_of ns)) s \<and> ordinals_ok ns (nodeOrdinal s)"

lemma createIndex_ok: "distinct (map nodeId ns) \<Longrightarrow> index_ok ns (createIndex ns)"
  using fold_addNode_abs [OF emptyIndex_abs, of ns ns] setOrdinals_ok [of ns "[]"]
  by (simp add: index_ok_def createIndex_def emptyIndex_def)

section \<open>Updates\<close>

lemma applyChange_abs:
  assumes "index_abs D s" "\<And>n. nxt = Some n \<Longrightarrow> nodeId n = i"
  shows "index_abs (D(i := nxt)) (snd (applyChange (i, nxt) (b, s)))"
    and "fst (applyChange (i, nxt) (b, s)) \<longleftrightarrow> b \<or> (D i = None) \<noteq> (nxt = None)"
    and "nodeOrdinal (snd (applyChange (i, nxt) (b, s))) = nodeOrdinal s"
proof -
  have get: "js_get (byId s) i = D i" using assms(1) by (simp add: index_abs_def)
  then show "fst (applyChange (i, nxt) (b, s)) \<longleftrightarrow> b \<or> (D i = None) \<noteq> (nxt = None)"
    by (simp add: applyChange_def Let_def)
  show "nodeOrdinal (snd (applyChange (i, nxt) (b, s))) = nodeOrdinal s"
    by (simp add: applyChange_def Let_def split: option.split)
  define s1 where "s1 = (case D i of None \<Rightarrow> s | Some p \<Rightarrow> removeNode p s)"
  have "index_abs (D(i := None)) s1"
  proof (cases "D i")
    case None
    then have "D(i := None) = D" by auto
    with None assms(1) show ?thesis by (simp add: s1_def)
  next
    case (Some p)
    then have "nodeId p = i" using assms(1) by (simp add: index_abs_def)
    with Some assms(1) removeNode_abs [of D s p] show ?thesis by (simp add: s1_def)
  qed
  then have "index_abs (D(i := nxt)) (case nxt of None \<Rightarrow> s1 | Some n \<Rightarrow> addNode n s1)"
  proof (cases nxt)
    case (Some n)
    with assms(2) have i: "i = nodeId n" by simp
    then have "index_abs ((D(i := None))(nodeId n \<mapsto> n)) (addNode n s1)"
      using \<open>index_abs (D(i := None)) s1\<close> by (intro addNode_abs) simp_all
    with Some i show ?thesis by (simp only: option.case fun_upd_upd)
  qed simp
  then show "index_abs (D(i := nxt)) (snd (applyChange (i, nxt) (b, s)))"
    unfolding applyChange_def Let_def prod.case snd_conv get s1_def .
qed

definition after_changes :: "(node_id \<times> semantic_node option) list \<Rightarrow> (node_id \<Rightarrow> semantic_node option) \<Rightarrow> node_id \<Rightarrow> semantic_node option" where
  "after_changes ch D i = (case map_of ch i of None \<Rightarrow> D i | Some x \<Rightarrow> x)"

lemma fold_changes_abs:
  "index_abs D s \<Longrightarrow> distinct (map fst ch) \<Longrightarrow> \<forall>(i, x) \<in> set ch. \<forall>n. x = Some n \<longrightarrow> nodeId n = i \<Longrightarrow>
   index_abs (after_changes ch D) (snd (fold applyChange ch (b, s))) \<and>
   (fst (fold applyChange ch (b, s)) \<longleftrightarrow> b \<or> (\<exists>(i, x) \<in> set ch. (D i = None) \<noteq> (x = None))) \<and>
   nodeOrdinal (snd (fold applyChange ch (b, s))) = nodeOrdinal s"
proof (induction ch arbitrary: D s b)
  case Nil
  have "after_changes [] D = D" by (simp add: after_changes_def fun_eq_iff)
  with Nil show ?case by simp
next
  case (Cons e ch)
  obtain i x where e: "e = (i, x)" by (cases e)
  have id: "\<And>n. x = Some n \<Longrightarrow> nodeId n = i" using Cons.prems(3) e by auto
  define b' s' where "b' = fst (applyChange e (b, s))" and "s' = snd (applyChange e (b, s))"
  have step: "applyChange e (b, s) = (b', s')" by (simp add: b'_def s'_def)
  note one = applyChange_abs [where nxt = x and i = i and b = b, OF Cons.prems(1) id, folded e, unfolded step fst_conv snd_conv]
  have fresh: "i \<notin> fst ` set ch" using Cons.prems(2) e by simp
  then have none: "map_of ch i = None" by (simp add: map_of_eq_None_iff)
  have changes: "after_changes ch (D(i := x)) = after_changes (e # ch) D"
    unfolding after_changes_def fun_eq_iff e using none by (auto split: option.split)
  have rest: "distinct (map fst ch)" "\<forall>(i, x) \<in> set ch. \<forall>n. x = Some n \<longrightarrow> nodeId n = i" using Cons.prems(2,3) by simp_all
  have same: "((D(i := x)) j = None) = (D j = None)" if "(j, y) \<in> set ch" for j y
  proof -
    have "j \<in> fst ` set ch" using imageI [OF that, of fst] by simp
    with fresh have "j \<noteq> i" by metis
    then show ?thesis by simp
  qed
  have order: "(\<exists>(j, y) \<in> set ch. ((D(i := x)) j = None) \<noteq> (y = None)) \<longleftrightarrow> (\<exists>(j, y) \<in> set ch. (D j = None) \<noteq> (y = None))"
  proof (intro bex_cong refl)
    fix e' assume "e' \<in> set ch"
    then show "(case e' of (j, y) \<Rightarrow> ((D(i := x)) j = None) \<noteq> (y = None)) = (case e' of (j, y) \<Rightarrow> (D j = None) \<noteq> (y = None))"
      using same [of "fst e'" "snd e'"] by (simp add: split_def del: fun_upd_apply)
  qed
  show ?case
    using Cons.IH [OF one(1) rest, where b = b'] one(2,3) unfolding fold_simps step order changes by (simp add: e disj_assoc)
qed

text \<open>The changes of a delta, between two lists of nodes: they name each node that differs, and nodes keep their order unless one
  is added or removed.\<close>

definition changes_between :: "semantic_node list \<Rightarrow> (node_id \<times> semantic_node option) list \<Rightarrow> semantic_node list \<Rightarrow> bool" where
  "changes_between ns ch ns' \<longleftrightarrow> distinct (map nodeId ns') \<and> distinct (map fst ch) \<and>
     (\<forall>i. map_of (index_of ns') i = after_changes ch (map_of (index_of ns)) i) \<and>
     (nodeId ` set ns = nodeId ` set ns' \<longrightarrow> map nodeId ns = map nodeId ns')"

lemma update_ok:
  assumes "index_ok ns s" "changes_between ns ch ns'"
  shows "index_ok ns' (index_update ns' ch s)"
proof -
  let ?D = "map_of (index_of ns)" and ?D' = "map_of (index_of ns')"
  have D': "after_changes ch ?D = ?D'" using assms(2) by (auto simp: changes_between_def fun_eq_iff)
  have ids: "\<forall>(i, x) \<in> set ch. \<forall>n. x = Some n \<longrightarrow> nodeId n = i"
  proof (clarify)
    fix i n assume "(i, Some n) \<in> set ch"
    then have "map_of ch i = Some (Some n)" using assms(2) by (simp add: changes_between_def)
    then have "?D' i = Some n" unfolding D' [symmetric] by (simp add: after_changes_def)
    then show "nodeId n = i" using map_of_SomeD by fastforce
  qed
  define b s1 where "b = fst (fold applyChange ch (False, s))" and "s1 = snd (fold applyChange ch (False, s))"
  have run: "fold applyChange ch (False, s) = (b, s1)" by (simp add: b_def s1_def)
  have abs: "index_abs ?D' s1" and b: "b \<longleftrightarrow> (\<exists>(i, x) \<in> set ch. (?D i = None) \<noteq> (x = None))" and ord: "nodeOrdinal s1 = nodeOrdinal s"
    using fold_changes_abs [of ?D s ch False] assms ids run D' by (simp_all add: index_ok_def changes_between_def)
  have "ordinals_ok ns' (nodeOrdinal s)" if "\<not> b"
  proof -
    have "?D i = None \<longleftrightarrow> ?D' i = None" for i
    proof (cases "map_of ch i")
      case None
      then show ?thesis unfolding D' [symmetric] by (simp add: after_changes_def)
    next
      case (Some x)
      then have "(i, x) \<in> set ch" by (rule map_of_SomeD)
      with that b Some show ?thesis unfolding D' [symmetric] by (auto simp: after_changes_def)
    qed
    then have "nodeId ` set ns = nodeId ` set ns'" by (auto simp: map_of_eq_None_iff image_image set_eq_iff)
    with assms(2) have "map nodeId ns = map nodeId ns'" by (simp add: changes_between_def)
    then have "length ns = length ns'" "\<And>k. k < length ns \<Longrightarrow> nodeId (ns ! k) = nodeId (ns' ! k)"
      by (metis length_map, metis length_map nth_map)
    then show ?thesis using assms(1) by (simp add: index_ok_def ordinals_ok_def)
  qed
  then show ?thesis
    using abs ord setOrdinals_ok [of ns' "[]"] assms(2) by (simp add: index_update_def run index_ok_def changes_between_def Let_def)
qed

section \<open>Candidates\<close>

text \<open>What the index decides of a step; note that an exact name is compared without trimming.\<close>

definition indexed :: "semantic_step \<Rightarrow> semantic_node \<Rightarrow> bool" where
  "indexed step n \<longleftrightarrow> (\<forall>r. stepRole step = Some r \<longrightarrow> role n = r) \<and> (\<forall>t. stepTestId step = Some t \<longrightarrow> testId n = Some t) \<and>
     (\<forall>t. stepName step = Some (Exact t) \<longrightarrow> nodeName n = t)"

lemma sort_key_unique:
  assumes "distinct (map f xs)" "distinct (map f ys)" "set xs = set ys" "sorted (map f xs)" "sorted (map f ys)"
  shows "xs = (ys :: 'a list)"
proof -
  have "map f xs = map f ys" using assms by (intro sorted_distinct_set_unique) auto
  moreover have "inj_on f (set xs \<union> set ys)" using assms(1,3) by (simp add: distinct_map)
  ultimately show ?thesis by (rule map_inj_on)
qed

lemma index_sets_mem:
  assumes "index_abs D s"
  shows "(\<forall>is \<in> set (index_sets s step). distinct is)"
    and "(\<forall>is \<in> set (index_sets s step). i \<in> set is) \<and> index_sets s step \<noteq> [] \<longleftrightarrow>
      index_sets s step \<noteq> [] \<and> (\<exists>n. D i = Some n \<and> indexed step n)"
proof -
  have keys: "keyed (\<lambda>n. Some (role n)) D (byRole s)" "keyed (\<lambda>n. Some (nodeName n)) D (byExactName s)" "keyed testId D (byTestId s)"
    using assms by (simp_all add: index_abs_def)
  then have "distinct (ids_at (byRole s) k)" "distinct (ids_at (byExactName s) k)" "distinct (ids_at (byTestId s) k)" for k
    unfolding keyed_def by blast+
  then show "\<forall>is \<in> set (index_sets s step). distinct is"
    by (cases "stepRole step"; cases "stepTestId step"; cases "stepName step") (auto simp: index_sets_def ids_at_def [symmetric] split: text_matcher.splits)
  let ?rs = "case stepRole step of None \<Rightarrow> [] | Some r \<Rightarrow> [ids_at (byRole s) r]"
    and ?ts = "case stepTestId step of None \<Rightarrow> [] | Some t \<Rightarrow> [ids_at (byTestId s) t]"
    and ?ns = "case stepName step of Some (Exact t) \<Rightarrow> [ids_at (byExactName s) t] | _ \<Rightarrow> []"
  have each: "(\<forall>is \<in> set ?rs. i \<in> set is) \<longleftrightarrow> (\<forall>r. stepRole step = Some r \<longrightarrow> (\<exists>n. D i = Some n \<and> role n = r))"
    "(\<forall>is \<in> set ?ts. i \<in> set is) \<longleftrightarrow> (\<forall>t. stepTestId step = Some t \<longrightarrow> (\<exists>n. D i = Some n \<and> testId n = Some t))"
    "(\<forall>is \<in> set ?ns. i \<in> set is) \<longleftrightarrow> (\<forall>t. stepName step = Some (Exact t) \<longrightarrow> (\<exists>n. D i = Some n \<and> nodeName n = t))"
    "?rs = [] \<longleftrightarrow> stepRole step = None" "?ts = [] \<longleftrightarrow> stepTestId step = None" "?ns = [] \<longleftrightarrow> (\<forall>t. stepName step \<noteq> Some (Exact t))"
    using keys unfolding keyed_def by (auto split: option.split text_matcher.split) metis
  have "(\<forall>is \<in> set (index_sets s step). i \<in> set is) \<longleftrightarrow> (\<forall>is \<in> set ?rs. i \<in> set is) \<and> (\<forall>is \<in> set ?ts. i \<in> set is) \<and> (\<forall>is \<in> set ?ns. i \<in> set is)"
    "index_sets s step = [] \<longleftrightarrow> ?rs = [] \<and> ?ts = [] \<and> ?ns = []"
    unfolding index_sets_def ids_at_def [symmetric] set_append by (blast, simp)
  then show "(\<forall>is \<in> set (index_sets s step). i \<in> set is) \<and> index_sets s step \<noteq> [] \<longleftrightarrow>
      index_sets s step \<noteq> [] \<and> (\<exists>n. D i = Some n \<and> indexed step n)"
    unfolding each indexed_def by (cases "D i") auto
qed

lemma index_sets_Nil: "index_sets s step = [] \<Longrightarrow> indexed step n"
  by (auto simp: index_sets_def indexed_def split: option.splits text_matcher.splits)

lemma map_filter_get:
  assumes "\<And>i. i \<in> set is \<Longrightarrow> \<exists>n. g i = Some n \<and> nodeId n = i"
  shows "map nodeId (List.map_filter g is) = is"
  using assms by (induction "is") (fastforce simp: List.map_filter_simps split: option.split)+

lemma set_map_filter: "set (List.map_filter g is) = {n. \<exists>i \<in> set is. g i = Some n}"
  by (induction "is") (auto simp: List.map_filter_simps split: option.splits)

lemma map_filter_positions:
  "map f ns = [0..<length ns] \<Longrightarrow> map f (filter P ns) = filter (\<lambda>k. P (ns ! k)) [0..<length ns]"
proof (induction ns rule: rev_induct)
  case (snoc n ns)
  then have "map f ns = [0..<length ns]" "f n = length ns" by simp_all
  moreover have "filter (\<lambda>k. P ((ns @ [n]) ! k)) [0..<length ns] = filter (\<lambda>k. P (ns ! k)) [0..<length ns]"
    by (intro filter_cong) (auto simp: nth_append)
  ultimately show ?case using snoc.IH by simp
qed simp

lemma candidates_eq:
  assumes "index_ok ns s"
  shows "candidates s step = filter (indexed step) ns"
proof -
  let ?D = "map_of (index_of ns)" and ?ord = "\<lambda>n. case js_get (nodeOrdinal s) (nodeId n) of None \<Rightarrow> 0 | Some k \<Rightarrow> k"
  have ok: "distinct (map nodeId ns)" "idxNodes s = ns" "index_abs ?D s" "ordinals_ok ns (nodeOrdinal s)"
    using assms by (simp_all add: index_ok_def)
  have D: "?D i = Some n \<longleftrightarrow> n \<in> set ns \<and> nodeId n = i" for i n
  proof -
    have "wf_map (index_of ns)" using ok(1) by (simp add: o_def)
    then show ?thesis unfolding js_get_Some_iff [OF \<open>wf_map (index_of ns)\<close>] by auto
  qed
  have uniq: "n = n'" if "n \<in> set ns" "n' \<in> set ns" "nodeId n = nodeId n'" for n n'
    using D [of "nodeId n" n] D [of "nodeId n" n'] that by simp
  have get: "js_get (byId s) i = ?D i" for i using ok(3) unfolding index_abs_def by blast
  have ord: "map ?ord ns = [0..<length ns]" using ok(4) by (intro nth_equalityI) (simp_all add: ordinals_ok_def)
  show ?thesis
  proof (cases "sort_key length (index_sets s step)")
    case Nil
    then have "index_sets s step = []" by (metis length_0_conv length_sort)
    with Nil ok(2) index_sets_Nil [of s step] show ?thesis by (simp add: candidates_def)
  next
    case (Cons ids others)
    define R where "R = List.map_filter (js_get (byId s)) (filter (\<lambda>i. list_all (\<lambda>is. i \<in> set is) others) ids)"
    have sets: "set (index_sets s step) = set (ids # others)" using Cons by (metis set_sort)
    then have "index_sets s step \<noteq> []" by auto
    then have mem: "i \<in> set ids \<and> (\<forall>is \<in> set others. i \<in> set is) \<longleftrightarrow> (\<exists>n. ?D i = Some n \<and> indexed step n)" for i
      using index_sets_mem(2) [OF ok(3), of step i] unfolding sets by simp
    have dist: "distinct ids" using index_sets_mem(1) [OF ok(3), of step] sets by simp
    have found: "\<exists>n. js_get (byId s) i = Some n \<and> nodeId n = i" if "i \<in> set (filter (\<lambda>i. list_all (\<lambda>is. i \<in> set is) others) ids)" for i
      using that mem [of i] get D by (auto simp: list_all_iff)
    have "map nodeId R = filter (\<lambda>i. list_all (\<lambda>is. i \<in> set is) others) ids" unfolding R_def by (rule map_filter_get [OF found])
    then have R: "distinct (map nodeId R)" using dist by simp
    have "n \<in> set R \<longleftrightarrow> (\<exists>i. (i \<in> set ids \<and> (\<forall>is \<in> set others. i \<in> set is)) \<and> ?D i = Some n)" for n
      unfolding R_def set_map_filter get by (auto simp: list_all_iff)
    then have mems: "set R = set (filter (indexed step) ns)" unfolding mem using uniq by (auto simp: D)
    have inj: "inj_on ?ord (set ns)" using ord by (metis distinct_map distinct_upt)
    have "sort_key ?ord R = filter (indexed step) ns"
    proof (rule sort_key_unique [where f = ?ord])
      show "sorted (map ?ord (sort_key ?ord R))" by simp
      have "map ?ord (filter (indexed step) ns) = filter (\<lambda>k. indexed step (ns ! k)) [0..<length ns]"
        using ord by (intro map_filter_positions)
      then show "sorted (map ?ord (filter (indexed step) ns))" "distinct (map ?ord (filter (indexed step) ns))"
        by (simp_all add: sorted_wrt_filter)
      have "distinct R" "set R \<subseteq> set ns" using R mems by (auto simp: distinct_map)
      then show "distinct (map ?ord (sort_key ?ord R))" using inj by (simp add: distinct_map inj_on_subset)
    qed (simp add: mems)
    then show ?thesis by (simp add: candidates_def Cons R_def)
  qed
qed

section \<open>The meaning of a chain\<close>

text \<open>The nodes as an index with nothing but the lookup: the reference that the indexed engine is compared with.\<close>

definition plainIndex :: "semantic_node list \<Rightarrow> semantic_index" where
  "plainIndex ns = (emptyIndex ns)\<lparr>byId := index_of ns\<rparr>"

text \<open>Labels, ancestors and steps depend on the lookup only.\<close>

lemma ancestorsFrom_cong:
  "(\<And>i. js_get m i = js_get m' i) \<Longrightarrow> ancestorsFrom m seen n = ancestorsFrom m' seen n"
proof (induction m seen n rule: ancestorsFrom.induct)
  case (1 m seen current)
  show ?case
  proof (cases "parentId current")
    case None
    then show ?thesis by (simp add: ancestorsFrom.simps [of _ _ current])
  next
    case (Some p)
    show ?thesis
    proof (cases "js_get m p")
      case None
      with Some 1(2) [of p] show ?thesis by (simp add: ancestorsFrom.simps [of _ _ current])
    next
      case parent: (Some parent)
      show ?thesis
        unfolding ancestorsFrom.simps [of _ _ current] Some 1(2) [of p, symmetric] parent option.case
        using 1(1) [OF Some parent _ 1(2)] by simp
    qed
  qed
qed

lemma lookup_only:
  assumes "\<And>i. js_get (byId s) i = js_get (byId t) i"
  shows "nodeLabel s n = nodeLabel t n" and "ancestors s n = ancestors t n" and "stepMatches cs s n step = stepMatches cs t n step"
proof -
  show label: "nodeLabel s n = nodeLabel t n" for n using assms by (simp add: nodeLabel_def)
  then show "stepMatches cs s n step = stepMatches cs t n step" by (simp add: stepMatches_def)
  have "ancestorsFrom (byId s) seen n = ancestorsFrom (byId t) seen n" for seen n
    using assms by (rule ancestorsFrom_cong)
  then show "ancestors s n = ancestors t n" by (simp add: ancestors_def)
qed

lemma index_ok_lookup: "index_ok ns s \<Longrightarrow> js_get (byId s) i = js_get (byId (plainIndex ns)) i"
proof -
  assume "index_ok ns s"
  then have "\<forall>i. js_get (byId s) i = map_of (index_of ns) i" unfolding index_ok_def index_abs_def by blast
  moreover have "byId (plainIndex ns) = index_of ns" by (simp add: plainIndex_def)
  ultimately show "js_get (byId s) i = js_get (byId (plainIndex ns)) i" by metis
qed

text \<open>The greedy loop finds the steps among the ancestors whenever they occur there in order.\<close>

lemma ancestorsLoop_subseq:
  "steps \<noteq> [] \<Longrightarrow> ancestorsLoop cs s chain steps \<longleftrightarrow> (\<exists>as. subseq as chain \<and> list_all2 (stepMatches cs s) as steps)"
proof (induction cs s chain steps rule: ancestorsLoop.induct)
  case (1 cs s steps)
  then show ?case by (auto simp: list_all2_Cons2 neq_Nil_conv)
next
  case (3 cs s a chain step steps)
  show ?case
  proof (cases "stepMatches cs s a step")
    case True
    have "(\<exists>as. subseq as (a # chain) \<and> list_all2 (stepMatches cs s) as (step # steps)) \<longleftrightarrow>
        (\<exists>as. subseq as chain \<and> list_all2 (stepMatches cs s) as steps)" (is "?l \<longleftrightarrow> ?r")
    proof
      assume ?l
      then obtain b as where as: "subseq (b # as) (a # chain)" "list_all2 (stepMatches cs s) as steps" by (auto simp: list_all2_Cons2)
      then have "subseq as chain" by (metis subseq_Cons' subseq_Cons2_iff)
      with as show ?r by blast
    next
      assume ?r
      then obtain as where "subseq as chain" "list_all2 (stepMatches cs s) as steps" by blast
      with True have "subseq (a # as) (a # chain)" "list_all2 (stepMatches cs s) (a # as) (step # steps)" by simp_all
      then show ?l by blast
    qed
    with True 3 show ?thesis by (cases "steps = []") auto
  next
    case False
    have "subseq as (a # chain) \<longleftrightarrow> subseq as chain" if "list_all2 (stepMatches cs s) as (step # steps)" for as
      using that False by (auto simp: list_all2_Cons2 subseq_Cons2_iff split: if_splits)
    with False 3 show ?thesis by auto
  qed
qed simp

definition selects :: "casing \<Rightarrow> semantic_node list \<Rightarrow> semantic_step list \<Rightarrow> node_id option \<Rightarrow> semantic_node \<Rightarrow> bool" where
  "selects cs ns steps scope n \<longleftrightarrow> steps \<noteq> [] \<and>
     (\<forall>i. scope = Some i \<longrightarrow> i \<in> nodeId ` set (ancestors (plainIndex ns) n)) \<and>
     stepMatches cs (plainIndex ns) n (last steps) \<and>
     (\<exists>as. subseq as (ancestors (plainIndex ns) n) \<and> list_all2 (stepMatches cs (plainIndex ns)) as (rev (butlast steps)))"

lemma ancestorsMatch_subseq:
  "ancestorsMatch cs s n steps \<longleftrightarrow> (\<exists>as. subseq as (ancestors s n) \<and> list_all2 (stepMatches cs s) as (rev steps))"
  by (cases "steps = []") (simp_all add: ancestorsMatch_def ancestorsLoop_subseq)

lemma matchSemantic_eq:
  assumes "index_ok ns s"
  shows "matchSemantic cs s steps scope = filter (\<lambda>n. indexed (last steps) n \<and> selects cs ns steps scope n) ns"
proof -
  note same = lookup_only [of s "plainIndex ns", OF index_ok_lookup [OF assms]]
  have steps: "stepMatches cs s = stepMatches cs (plainIndex ns)" by (intro ext same(3))
  have "isDescendantOf s n i \<longleftrightarrow> i \<in> nodeId ` set (ancestors (plainIndex ns) n)" for n i
    by (auto simp: isDescendantOf_def same(2) list_ex_iff)
  then have body: "((case scope of None \<Rightarrow> True | Some i \<Rightarrow> isDescendantOf s n i) \<and> stepMatches cs s n (last steps) \<and>
      ancestorsMatch cs s n (butlast steps)) \<longleftrightarrow> selects cs ns steps scope n" if "steps \<noteq> []" for n
    using that unfolding ancestorsMatch_subseq selects_def same(2) steps by (simp split: option.split)
  show ?thesis
  proof (cases "steps = []")
    case True
    then show ?thesis by (simp add: matchSemantic_def selects_def)
  next
    case False
    then show ?thesis unfolding matchSemantic_def body [OF False] candidates_eq [OF assms] by (simp add: conj_commute)
  qed
qed

section \<open>Theorems\<close>



definition demo_nodes :: "semantic_node list" where
  "demo_nodes = [leaf_node ''b'' (Some ''a''), leaf_node ''a'' None]"

lemma demo_nodes_distinct: "distinct (map nodeId demo_nodes)"
  by (simp add: demo_nodes_def leaf_node_def)


text \<open>The indices that a session holds: built from a first snapshot, then updated with the changes to each following one.\<close>

inductive index_history :: "semantic_node list \<Rightarrow> semantic_index \<Rightarrow> bool" where
  created: "distinct (map nodeId ns) \<Longrightarrow> index_history ns (createIndex ns)"
| updated: "index_history ns s \<Longrightarrow> changes_between ns ch ns' \<Longrightarrow> index_history ns' (index_update ns' ch s)"

lemma index_history_ok: "index_history ns s \<Longrightarrow> index_ok ns s"
  by (induction rule: index_history.induct) (auto intro: createIndex_ok update_ok)

lemma history_answers:
  assumes "index_history ns s"
  shows "matchSemantic cs s steps scope = matchSemantic cs (createIndex ns) steps scope"
proof -
  have ok: "index_ok ns s" using assms by (rule index_history_ok)
  then have "index_ok ns (createIndex ns)" by (intro createIndex_ok) (simp add: index_ok_def)
  then show ?thesis using ok by (simp add: matchSemantic_eq)
qed

text \<open>C18: After any sequence of updates the index finds exactly what an index built afresh from the committed nodes finds, in the
  same order.\<close>

theorem index_incremental:
  assumes "index_history ns s"
  shows "matchSemantic cs s steps scope = matchSemantic cs (createIndex ns) steps scope"
  using assms by (rule history_answers)

theorem index_incremental_witness:
  "index_history [leaf_node ''a'' None] (index_update [leaf_node ''a'' None] [(u ''b'', None)] (createIndex demo_nodes)) \<and>
   matchSemantic demo_casing (index_update [leaf_node ''a'' None] [(u ''b'', None)] (createIndex demo_nodes)) [emptyStep] None =
   matchSemantic demo_casing (createIndex [leaf_node ''a'' None]) [emptyStep] None"
proof -
  have "changes_between demo_nodes [(u ''b'', None)] [leaf_node ''a'' None]"
    by (auto simp: changes_between_def demo_nodes_def leaf_node_def after_changes_def)
  then have history: "index_history [leaf_node ''a'' None] (index_update [leaf_node ''a'' None] [(u ''b'', None)] (createIndex demo_nodes))"
    by (rule index_history.updated [OF index_history.created [OF demo_nodes_distinct]])
  then show ?thesis using index_incremental [OF history, of demo_casing "[emptyStep]" None] by simp
qed


end
