(* ===== verification/Delta_Index.thy ===== *)
theory Delta_Index
  imports SemanticDelta_Props Matching_Props
begin

text \<open>
  The composition of two components: the protocol applies an untrusted delta to the committed snapshot (\<open>applySemanticDelta\<close>), and the
  driver updates its locator index with the changed nodes that the application reports (\<open>index_update\<close>).

  The staged nodes of an arbitrary accepted delta are described by \<open>staged_from\<close>; it follows that what the result reports as changed
  is all that changed, and that the nodes keep their order unless one is added or removed. That is the contract
  \<open>changes_between\<close> of the index.
\<close>

section \<open>What the operations do\<close>

lemma removeNodes_Inr:
  "removeNodes is m = Inr m' \<Longrightarrow> m' = fold js_delete is m \<and> set is \<subseteq> set (js_keys m)"
proof (induction "is" arbitrary: m)
  case (Cons i "is")
  then have has: "js_has m i" "removeNodes is (js_delete i m) = Inr m'" by (simp_all split: if_splits)
  from Cons.IH [OF has(2)] have "m' = fold js_delete is (js_delete i m)" "set is \<subseteq> set (js_keys (js_delete i m))" by simp_all
  moreover have "i \<in> set (js_keys m)" using has(1) js_get_None_iff [of m i] by auto
  ultimately show ?case by (auto simp: AList.delete_keys)
qed simp

lemma fold_js_delete_keys: "js_keys (fold js_delete is m) = filter (\<lambda>k. k \<notin> set is) (js_keys m)"
proof (induction "is" arbitrary: m)
  case (Cons i "is")
  then show ?case by (simp add: AList.delete_keys removeAll_filter_not_eq eq_commute)
qed simp

lemma fold_js_delete_subset: "set (fold js_delete is m) \<subseteq> set m"
proof (induction "is" arbitrary: m)
  case (Cons i "is")
  have "set (js_delete i m) \<subseteq> set m" by (auto simp: AList.delete_eq)
  with Cons [of "js_delete i m"] show ?case by auto
qed simp

lemma insertNodes_Inr:
  "insertNodes ns m = Inr m' \<Longrightarrow> m' = m @ map (\<lambda>n. (nid n, n)) ns \<and> set (js_keys m) \<inter> nid ` set ns = {}"
proof (induction ns arbitrary: m)
  case (Cons n ns)
  then have new: "nid n \<notin> set (js_keys m)" using js_get_None_iff [of m "nid n"] by (auto split: if_splits)
  then have set: "js_set (nid n) n m = m @ [(nid n, n)]" by (rule js_set_absent)
  with Cons.prems have "insertNodes ns (m @ [(nid n, n)]) = Inr m'" by (simp split: if_splits)
  from Cons.IH [OF this] new show ?case by auto
qed simp

text \<open>A staging map whose entries are filed under their own ids. An update may clear the id of a node; the schema refuses such a
  node afterwards.\<close>

definition filed :: "staging \<Rightarrow> bool" where
  "filed m \<longleftrightarrow> wf_map m \<and> (\<forall>(k, f) \<in> set m. attr f ''id'' = None \<or> nid f = k)"

lemma first_problem_member: "first_problem f xs = None \<Longrightarrow> x \<in> set xs \<Longrightarrow> f x = None"
  by (induction xs) (auto simp: orElse_def split: option.splits)

lemma patch_keeps_id:
  assumes "checkPatch s c = None"
  shows "attr (patchNode p s c) ''id'' = None \<or> attr (patchNode p s c) ''id'' = attr p ''id''"
proof -
  have "u ''id'' \<notin> set (js_keys s)"
  proof
    assume "u ''id'' \<in> set (js_keys s)"
    then obtain v where "(u ''id'', v) \<in> set s" by auto
    with assms show False by (auto simp: checkPatch_def orElse_def refuse_def dest!: first_problem_member split: option.splits if_splits)
  qed
  then show ?thesis by (simp add: attr_def patchNode_def fold_js_delete_get fold_js_set_other)
qed

lemma updateNode_Inr:
  assumes "updateNode d m = Inr m'" "filed m"
  shows "filed m'" "js_keys m' = js_keys m" "i \<noteq> nid d \<Longrightarrow> js_get m' i = js_get m i"
proof -
  obtain p where p: "js_get m (nid d) = Some p" using assms(1) by (cases "js_get m (nid d)") (simp_all add: updateNode_def)
  obtain s c where m': "checkPatch s c = None" "m' = js_set (nid d) (patchNode p s c) m"
    using assms(1) p by (auto simp: updateNode_def Let_def split: if_splits option.splits)
  have member: "(nid d, p) \<in> set m" "nid d \<in> set (js_keys m)" using map_of_SomeD [OF p] by (simp, force)
  then have "attr (patchNode p s c) ''id'' = None \<or> nid (patchNode p s c) = nid d"
    using patch_keeps_id [OF m'(1), of p] assms(2) by (auto simp: filed_def nid_def)
  moreover have wf: "wf_map m" using assms(2) by (simp add: filed_def)
  ultimately show "filed m'" using assms(2) unfolding m'(2) filed_def by (auto simp: set_js_set)
  show "js_keys m' = js_keys m" unfolding m'(2) js_set_present [OF wf member(2)] by (simp add: o_def split_def)
  show "js_get m' i = js_get m i" if "i \<noteq> nid d" using that by (simp add: m'(2) js_get_set)
qed

lemma updateNodes_Inr:
  "updateNodes ds m = Inr m' \<Longrightarrow> filed m \<Longrightarrow>
   filed m' \<and> js_keys m' = js_keys m \<and> (\<forall>i. i \<notin> nid ` set ds \<longrightarrow> js_get m' i = js_get m i)"
proof (induction ds arbitrary: m)
  case (Cons d ds)
  then obtain m1 where m1: "updateNode d m = Inr m1" "updateNodes ds m1 = Inr m'" by (auto simp: res_bind_Inr_iff)
  note one = updateNode_Inr [OF m1(1) Cons.prems(2)]
  from Cons.IH [OF m1(2) one(1)] one(2,3) show ?case by auto
qed simp

text \<open>The staged nodes: the ids of the base without the removed ones, then the added ones; nothing else changed its content.\<close>

lemma id_text_nid: "id_text (id_of j) = Some i \<Longrightarrow> nid (object_of j) = i"
  by (cases j) (auto simp: id_text_def id_of_def nid_def object_of_def split: option.splits json.splits if_splits)

lemma id_texts_nids: "None \<notin> set (map id_text (map id_of js)) \<Longrightarrow> map the (map id_text (map id_of js)) = map nid (map object_of js)"
proof -
  assume "None \<notin> set (map id_text (map id_of js))"
  then have "the (id_text (id_of j)) = nid (object_of j)" if "j \<in> set js" for j
  proof -
    from that have "id_text (id_of j) \<in> set (map id_text (map id_of js))" by simp
    with \<open>None \<notin> set (map id_text (map id_of js))\<close> obtain i where "id_text (id_of j) = Some i" by (metis option.exhaust)
    then show ?thesis using id_text_nid by simp
  qed
  then show "map the (map id_text (map id_of js)) = map nid (map object_of js)" by simp
qed

lemma stageNodes_Inr:
  assumes "stageNodes c d l = Inr (m, changed)" "distinct (map nid (cNodes c))"
  obtains removed added where
    "filed m" "distinct changed" "set removed \<union> set added \<subseteq> set changed" "set removed \<inter> set added = {}"
    "set removed \<subseteq> nid ` set (cNodes c)" "nid ` set (cNodes c) \<inter> set added \<subseteq> set removed"
    "js_keys m = filter (\<lambda>k. k \<notin> set removed) (map nid (cNodes c)) @ added"
    "\<And>i. i \<notin> set changed \<Longrightarrow> js_get m i = js_get (nodeIndex (cNodes c)) i"
proof -
  let ?base = "nodeIndex (cNodes c)"
  obtain add upd rem where ops: "arrayOr (attr d ''addNodes'') = Some add" "arrayOr (attr d ''updateNodes'') = Some upd"
    "arrayOr (attr d ''removeNodeIds'') = Some rem"
    using assms(1) by (auto simp: stageNodes_def split: option.splits)
  define ids where "ids = map id_text (map id_of add @ map id_of upd @ map Some rem)"
  define removed where "removed = drop (length add + length upd) (map the ids)"
  obtain m1 m2 where ids: "None \<notin> set ids" "distinct ids" and m1: "removeNodes removed ?base = Inr m1"
    and m2: "insertNodes (map object_of add) m1 = Inr m2" and m: "updateNodes (map object_of upd) m2 = Inr m"
    and changed: "changed = removed @ take (length add + length upd) (map the ids)"
    using assms(1) unfolding stageNodes_def ops option.case prod.case Let_def ids_def [symmetric] removed_def [symmetric]
    by (auto simp: res_simps duplicate_def split: if_splits)
  have "distinct (map the ids)" using ids by (auto simp: distinct_map inj_on_def) (metis option.collapse)
  then have dist: "distinct changed" unfolding changed removed_def by (metis append_take_drop_id distinct_append inf_commute)
  have front: "take (length add + length upd) (map the ids) = map nid (map object_of add) @ map nid (map object_of upd)"
    using ids(1) id_texts_nids [of add] id_texts_nids [of upd] by (simp add: ids_def)
  have base: "?base = map (\<lambda>n. (nid n, n)) (cNodes c)" using assms(2) by (rule nodeIndex_eq)
  then have keys: "js_keys ?base = map nid (cNodes c)" by (simp add: o_def)
  note r = removeNodes_Inr [OF m1] and i = insertNodes_Inr [OF m2]
  have k1: "js_keys m1 = filter (\<lambda>k. k \<notin> set removed) (map nid (cNodes c))" using r fold_js_delete_keys [of removed ?base] keys by simp
  define added where "added = map nid (map object_of add)"
  have k2: "js_keys m2 = js_keys m1 @ added" using i by (simp add: added_def o_def)
  have added: "distinct added" "set removed \<inter> set added = {}" "set added \<subseteq> set changed" "nid ` set (map object_of upd) \<subseteq> set changed"
    using dist by (auto simp: changed front added_def)
  have "set m1 \<subseteq> set ?base" using r fold_js_delete_subset [of removed ?base] by simp
  then have f1: "filed m1" using assms(2) by (auto simp: filed_def k1 base)
  have disjoint: "set (js_keys m1) \<inter> set added = {}" using i by (simp add: added_def image_image)
  have "wf_map m2" using f1 added(1) disjoint unfolding filed_def k2 by simp
  then have f2: "filed m2" using f1 i by (auto simp: filed_def)
  note up = updateNodes_Inr [OF m f2]
  have get: "js_get m i = js_get ?base i" if "i \<notin> set changed" for i
  proof -
    have out: "i \<notin> set removed" "i \<notin> set added" "i \<notin> nid ` set (map object_of upd)" using that added(3,4) by (auto simp: changed)
    then have "js_get m i = js_get m2 i" using up by blast
    also have "\<dots> = js_get m1 i"
    proof -
      have "map_of (map (\<lambda>n. (nid n, n)) (map object_of add)) i = None" using out(2) by (simp add: map_of_eq_None_iff added_def image_image)
      moreover have "m2 = m1 @ map (\<lambda>n. (nid n, n)) (map object_of add)" using i by blast
      ultimately show ?thesis by (simp add: map_add_def split: option.split)
    qed
    also have "\<dots> = js_get ?base i" using r out(1) by (simp add: fold_js_delete_get)
    finally show ?thesis .
  qed
  show ?thesis
  proof (rule that [of removed added])
    show "nid ` set (cNodes c) \<inter> set added \<subseteq> set removed" using disjoint by (auto simp: k1)
    show "js_keys m = filter (\<lambda>k. k \<notin> set removed) (map nid (cNodes c)) @ added" using up k1 k2 by simp
  qed (use up dist added r keys get in \<open>auto simp: changed\<close>)
qed

section \<open>The result and the index\<close>

lemma checkSnapshot_distinct: "checkSnapshot l snap = None \<Longrightarrow> distinct (map nodeId (treeNodes snap))"
proof -
  assume "checkSnapshot l snap = None"
  then obtain byId where "buildIndex (treeNodes snap) [] = Inr byId" by (auto simp: checkSnapshot_def split: if_splits sum.splits)
  from buildIndex_spec [OF this] show ?thesis by (auto simp: o_def)
qed

lemma validated_index:
  "distinct (map nodeId ns) \<Longrightarrow> fold (\<lambda>n. js_set (nodeId n) n) ns [] = index_of ns"
proof (induction ns rule: rev_induct)
  case (snoc n ns)
  then have "nodeId n \<notin> set (js_keys (index_of ns))" by auto
  from js_set_absent [OF this] snoc show ?case by simp
qed simp

text \<open>What the composition relies on of the code that is a parameter: the projection returns the plain value it is given, and the schema
  reads the list of nodes one by one, each with its id.\<close>

definition reads_nodes :: "delta_env \<Rightarrow> (fields \<Rightarrow> semantic_node) \<Rightarrow> bool" where
  "reads_nodes env read \<longleftrightarrow> (\<forall>n. nodeId (read n) = nid n) \<and> (\<forall>j j'. project env j = Inr j' \<longrightarrow> j' = j) \<and>
     (\<forall>fs ns snap. schema env (JObject fs) = Inr snap \<longrightarrow> attr fs ''nodes'' = Some (JArray (map JObject ns)) \<longrightarrow>
        treeNodes snap = map read ns \<and> (\<forall>n \<in> set ns. attr n ''id'' \<noteq> None))"

lemma applied_parts:
  assumes "applySemanticDelta env c value l w = Inr a" "reads_nodes env read"
  obtains d m where "stageNodes c d l = Inr (m, map fst (changedNodes a))" "treeNodes (aSnapshot a) = map read (js_values m)"
    "\<forall>f \<in> set (js_values m). attr f ''id'' \<noteq> None" "distinct (map nodeId (treeNodes (aSnapshot a)))"
    "changedNodes a = map (\<lambda>i. (i, map_of (index_of (treeNodes (aSnapshot a))) i)) (map fst (changedNodes a))"
proof -
  obtain d where "res_bind (stageDelta c d l) (validateStaged env l) = Inr a"
    using assms(1) unfolding applySemanticDelta_def by (auto split: sum.splits json.splits if_splits)
  then obtain "next" changed where staged: "stageDelta c d l = Inr (next, changed)" "validateStaged env l (next, changed) = Inr a"
    by (auto simp: res_bind_Inr_iff)
  obtain m where m: "stageNodes c d l = Inr (m, changed)" "stageTop c d m = Inr next"
    using staged(1) by (auto simp: stageDelta_def res_simps)
  note ok = validateStaged_Inr [OF staged(2)] and top = stageTop_header(3) [OF m(2)]
  have valid: "schema env (JObject next) = Inr (aSnapshot a)" "checkSnapshot l (aSnapshot a) = None"
    using ok(1) assms(2) unfolding validateSnapshot_def reads_nodes_def
    by (auto simp: res_bind_Inr_iff split: sum.splits if_splits option.splits)
  have nodes: "treeNodes (aSnapshot a) = map read (js_values m)" "\<forall>f \<in> set (js_values m). attr f ''id'' \<noteq> None"
    using valid(1) top assms(2) unfolding reads_nodes_def by blast+
  have dist: "distinct (map nodeId (treeNodes (aSnapshot a)))" using valid(2) by (rule checkSnapshot_distinct)
  have "fold (\<lambda>n. js_set (nodeId n) n) (treeNodes (aSnapshot a)) [] = index_of (treeNodes (aSnapshot a))"
    using dist by (rule validated_index)
  then have "\<lparr>aSnapshot = aSnapshot a, changedNodeIds = changed, changedNodes = map (\<lambda>i. (i, map_of (index_of (treeNodes (aSnapshot a))) i)) changed\<rparr> = a"
    using staged(2) unfolding validateStaged_def prod.case ok(1) sum.case Let_def sum.inject by (simp only:)
  from arg_cong [OF this, of changedNodes]
  have "changedNodes a = map (\<lambda>i. (i, map_of (index_of (treeNodes (aSnapshot a))) i)) changed" unfolding applied.select_convs by (rule sym)
  with that [OF m(1) [folded ok(3)] nodes dist] show ?thesis using ok(3) by metis
qed

lemma read_index:
  assumes "filed m" "\<forall>f \<in> set (js_values m). attr f ''id'' \<noteq> None" "\<And>n. nodeId (read n) = nid n"
  shows "map_of (index_of (map read (js_values m))) i = map_option read (js_get m i)" "map nodeId (map read (js_values m)) = js_keys m"
proof -
  have "nid (snd e) = fst e" if "e \<in> set m" for e
  proof -
    have "snd e \<in> set (js_values m)" using that by auto
    then have "attr (snd e) ''id'' \<noteq> None" using assms(2) by blast
    moreover have "attr (snd e) ''id'' = None \<or> nid (snd e) = fst e" using that assms(1) unfolding filed_def split_def by blast
    ultimately show ?thesis by auto
  qed
  then have entries: "index_of (map read (js_values m)) = map (\<lambda>(k, f). (k, read f)) m" "map nodeId (map read (js_values m)) = js_keys m"
    using assms(3) by (auto simp: o_def split_def)
  show "map nodeId (map read (js_values m)) = js_keys m" by (rule entries(2))
  show "map_of (index_of (map read (js_values m))) i = map_option read (js_get m i)" unfolding entries(1) by (simp add: map_of_map)
qed

lemma applied_changes:
  assumes "applySemanticDelta env c value l w = Inr a" "reads_nodes env read" "distinct (map nid (cNodes c))"
  shows "changes_between (map read (cNodes c)) (changedNodes a) (treeNodes (aSnapshot a))"
proof -
  obtain d m where m: "stageNodes c d l = Inr (m, map fst (changedNodes a))" and nodes: "treeNodes (aSnapshot a) = map read (js_values m)"
    "\<forall>f \<in> set (js_values m). attr f ''id'' \<noteq> None" and dist: "distinct (map nodeId (treeNodes (aSnapshot a)))"
    and changed: "changedNodes a = map (\<lambda>i. (i, map_of (index_of (treeNodes (aSnapshot a))) i)) (map fst (changedNodes a))"
    using assms(1,2) by (rule applied_parts)
  obtain removed added where st: "filed m" "distinct (map fst (changedNodes a))" "set removed \<inter> set added = {}"
    "set removed \<subseteq> nid ` set (cNodes c)" "nid ` set (cNodes c) \<inter> set added \<subseteq> set removed"
    "js_keys m = filter (\<lambda>k. k \<notin> set removed) (map nid (cNodes c)) @ added"
    "\<And>i. i \<notin> set (map fst (changedNodes a)) \<Longrightarrow> js_get m i = js_get (nodeIndex (cNodes c)) i"
    using stageNodes_Inr [OF m assms(3)] by metis
  have id: "\<And>n. nodeId (read n) = nid n" using assms(2) by (simp add: reads_nodes_def)
  note new = read_index [OF st(1) nodes(2) id, folded nodes(1)]
  have old: "map_of (index_of (map read (cNodes c))) i = map_option read (js_get (nodeIndex (cNodes c)) i)" for i
    unfolding nodeIndex_eq [OF assms(3)] using id map_of_map [of read "map (\<lambda>n. (nid n, n)) (cNodes c)"] by (simp add: o_def)
  have "map_of (index_of (treeNodes (aSnapshot a))) i = after_changes (changedNodes a) (map_of (index_of (map read (cNodes c)))) i" for i
  proof (cases "i \<in> set (map fst (changedNodes a))")
    case True
    then have "map_of (changedNodes a) i = Some (map_of (index_of (treeNodes (aSnapshot a))) i)"
      using map_of_map_restrict [of "\<lambda>i. map_of (index_of (treeNodes (aSnapshot a))) i" "map fst (changedNodes a)"]
      by (subst changed) simp
    then show ?thesis by (simp add: after_changes_def)
  next
    case False
    then have "map_of (changedNodes a) i = None" by (simp add: map_of_eq_None_iff)
    then show ?thesis using st(7) [OF False] unfolding after_changes_def new(1) old by simp
  qed
  moreover have "map nodeId (map read (cNodes c)) = map nodeId (treeNodes (aSnapshot a))"
    if "nodeId ` set (map read (cNodes c)) = nodeId ` set (treeNodes (aSnapshot a))"
  proof -
    have "nodeId ` set (treeNodes (aSnapshot a)) = set (js_keys m)" using arg_cong [OF new(2), of set] by simp
    with that have same: "nid ` set (cNodes c) = set (js_keys m)" by (simp add: image_image id)
    have none: "x \<notin> set removed" for x
    proof
      assume x: "x \<in> set removed"
      then have "x \<in> set (js_keys m)" using st(4) same by blast
      with x st(3) show False unfolding st(6) by auto
    qed
    have "set removed = {}" by (rule equals0I) (rule notE [OF none])
    moreover have absent: "x \<notin> set added" for x
    proof
      assume x: "x \<in> set added"
      then have "x \<in> set (js_keys m)" by (simp add: st(6))
      then have "x \<in> nid ` set (cNodes c)" by (simp only: same)
      with x st(5) none show False by blast
    qed
    have "set added = {}" by (rule equals0I) (rule notE [OF absent])
    ultimately show ?thesis using st(6) new(2) id by (simp add: o_def)
  qed
  ultimately show ?thesis unfolding changes_between_def using dist st(2) by blast
qed

text \<open>C11: The two components fit together. When the protocol accepts a delta and the driver updates its index of the committed nodes with
  the changed nodes that the result reports, the index answers every query as an index built afresh from the nodes of the
  accepted snapshot.\<close>

theorem delta_index_agrees:
  assumes "reads_nodes env read" "distinct (map nid (cNodes c))" "index_history (map read (cNodes c)) s"
    and "applySemanticDelta env c value l w = Inr a"
  shows "matchSemantic cs (index_update (treeNodes (aSnapshot a)) (changedNodes a) s) steps scope =
     matchSemantic cs (createIndex (treeNodes (aSnapshot a))) steps scope"
proof -
  have "changes_between (map read (cNodes c)) (changedNodes a) (treeNodes (aSnapshot a))"
    using assms(4,1,2) by (rule applied_changes)
  then have "index_history (treeNodes (aSnapshot a)) (index_update (treeNodes (aSnapshot a)) (changedNodes a) s)"
    by (rule index_history.updated [OF assms(3)])
  then show ?thesis by (rule history_answers)
qed

text \<open>A schema that reads a node with its id only.\<close>

definition demo_read :: "fields \<Rightarrow> semantic_node" where
  "demo_read n = (leaf_node ''node'' None)\<lparr>nodeId := nid n\<rparr>"

definition demo_schema :: "json \<Rightarrow> (validation_code, tree_snapshot) res" where
  "demo_schema j =
     (case attr (object_of j) ''nodes'' of
        Some (JArray xs) \<Rightarrow>
          if \<exists>x \<in> set xs. attr (object_of x) ''id'' = None then Inl VSchema
          else Inr (demo_tree\<lparr>treeNodes := map (demo_read \<circ> object_of) xs, rootIds := map (nid \<circ> object_of) xs\<rparr>)
      | _ \<Rightarrow> Inl VSchema)"

definition reading_env :: delta_env where
  "reading_env = \<lparr>project = Inr, jsonBytes = (\<lambda>_. 1), schema = demo_schema\<rparr>"

lemma reading_env_reads: "reads_nodes reading_env demo_read"
  by (auto simp: reads_nodes_def reading_env_def demo_schema_def demo_read_def object_of_def o_def split: option.splits json.splits if_splits)

lemma demo_applied_read: "\<exists>a. applySemanticDelta reading_env demo_before (demo_delta 1) DEFAULT_LIMITS None = Inr a"
proof -
  have m: "stageNodes demo_before (object_of (demo_delta 1)) DEFAULT_LIMITS = Inr ([(u ''a'', demo_node ''a'' ''open'')], [u ''b''])"
    by (simp add: stageNodes_def object_of_def demo_delta_def attr_def arrayOr_def DEFAULT_LIMITS_def id_text_def duplicate_def
      demo_before_def demo_committed_def nodeIndex_def demo_node_ok)
  obtain "next" where nxt: "stageTop demo_before (object_of (demo_delta 1)) [(u ''a'', demo_node ''a'' ''open'')] = Inr next"
    by (simp add: stageTop_def object_of_def demo_delta_def attr_def objectOr_def arrayOr_def duplicate_def)
  have staged: "stageDelta demo_before (object_of (demo_delta 1)) DEFAULT_LIMITS = Inr (next, [u ''b''])"
    by (simp add: stageDelta_def demo_header m nxt)
  have "attr next ''nodes'' = Some (JArray [JObject (demo_node ''a'' ''open'')])" using stageTop_header(3) [OF nxt] by simp
  moreover have "attr (demo_node ''a'' ''open'') ''id'' \<noteq> None" using demo_node_ok(1) [of "''a''" "''open''"] by (simp add: node_ok_def)
  ultimately have "demo_schema (JObject next) = Inr (demo_tree\<lparr>treeNodes := [demo_read (demo_node ''a'' ''open'')], rootIds := [u ''a'']\<rparr>)"
    by (simp add: demo_schema_def object_of_def demo_node_ok)
  moreover have "checkSnapshot DEFAULT_LIMITS (demo_tree\<lparr>treeNodes := [demo_read (demo_node ''a'' ''open'')], rootIds := [u ''a'']\<rparr>) = None"
    by (simp add: checkSnapshot_def demo_read_def demo_node_ok demo_tree_def leaf_node_def DEFAULT_LIMITS_def nodeProblem_def checkNodeShape_def
      relationProblem_def visibleProblem_def state_flag_def computeDepths_def chainUp.simps assignDepths_def orElse_def refuse_def)
  ultimately show ?thesis
    using staged by (simp add: applySemanticDelta_def reading_env_def demo_delta_def object_of_def validateStaged_def validateSnapshot_def Let_def)
      (simp add: DEFAULT_LIMITS_def)
qed

theorem delta_index_agrees_witness:
  "\<exists>a. applySemanticDelta reading_env demo_before (demo_delta 1) DEFAULT_LIMITS None = Inr a \<and>
     matchSemantic demo_casing (index_update (treeNodes (aSnapshot a)) (changedNodes a) (createIndex (map demo_read (cNodes demo_before))))
       [emptyStep] None = matchSemantic demo_casing (createIndex (treeNodes (aSnapshot a))) [emptyStep] None"
proof -
  obtain a where a: "applySemanticDelta reading_env demo_before (demo_delta 1) DEFAULT_LIMITS None = Inr a"
    using demo_applied_read by blast
  have dist: "distinct (map nid (cNodes demo_before))" using demo_snapshots_ok(1) by (simp add: committed_ok_def)
  have "distinct (map nodeId (map demo_read (cNodes demo_before)))" using dist by (simp add: demo_read_def o_def)
  then have "index_history (map demo_read (cNodes demo_before)) (createIndex (map demo_read (cNodes demo_before)))"
    by (rule index_history.created)
  from delta_index_agrees [OF reading_env_reads dist this a] a show ?thesis by blast
qed

end
