(* ===== verification/Grid_Props.thy ===== *)
theory Grid_Props
  imports Grid
begin

text \<open>
  Properties of the grid locators: a range of units becomes a rectangle that covers it (\<open>rangeRect_spec\<close>, \<open>lineIn_covers\<close>), the rows
  are searched in order, and the two ways in which a search goes wrong.
\<close>

section \<open>Rectangles of ranges\<close>

text \<open>A wide character is followed by its right half.\<close>

definition wide_ok :: "cell list \<Rightarrow> bool" where
  "wide_ok cells \<longleftrightarrow> (\<forall>k < length cells. cellWidth (cells ! k) = 2 \<longrightarrow> Suc k < length cells)"

lemma rangeRect_spec:
  assumes "rowText cells = (t, cols)" "s < e" "e \<le> length t" "rangeRect cs cells cols q scope index (s, e) = Some r"
  shows "row r = int index" "height r = 1" "column r = int (cols ! s)" "1 \<le> width r" "int (cols ! (e - 1)) < column r + width r"
    and "wide_ok cells \<Longrightarrow> column r + width r \<le> int (length cells)"
    and "scope = Some b \<Longrightarrow> column b \<le> column r \<and> column r + width r \<le> column b + width b"
proof -
  note cols = rowText_cols [OF assms(1)]
  have le: "cols ! s \<le> cols ! (e - 1)" using assms(2,3) cols by (intro sorted_nth_mono) auto
  have last: "cols ! (e - 1) < length cells" using assms(2,3) by (intro cols(3)) auto
  have r: "r = \<lparr>row = int index, column = int (cols ! s),
      width = int (cols ! (e - 1)) + (if cellWidth (cells ! (cols ! (e - 1))) = 2 then 2 else 1) - int (cols ! s), height = 1\<rparr>"
    using assms(4) last by (auto simp: rangeRect_def Let_def split: if_splits)
  show "row r = int index" "height r = 1" "column r = int (cols ! s)" by (simp_all add: r)
  show "1 \<le> width r" "int (cols ! (e - 1)) < column r + width r" using le by (simp_all add: r)
  show "column r + width r \<le> int (length cells)" if "wide_ok cells"
    using that last by (auto simp: r wide_ok_def)
  show "column b \<le> column r \<and> column r + width r \<le> column b + width b" if "scope = Some b"
    using assms(4) last that unfolding r by (auto simp: rangeRect_def Let_def split: if_splits)
qed

lemma filter_zip_covers:
  assumes "length cols = length t" "s \<le> e" "e \<le> length t" "\<And>k. s \<le> k \<Longrightarrow> k < e \<Longrightarrow> P (cols ! k)"
  shows "\<exists>a b. map fst (filter (\<lambda>(c, k). P k) (zip t cols)) = a @ take (e - s) (drop s t) @ b"
proof -
  let ?z = "zip t cols" and ?f = "filter (\<lambda>(c, k). P k)"
  have "?z = take s ?z @ take (e - s) (drop s ?z) @ drop (e - s) (drop s ?z)" by (metis append_take_drop_id)
  then have split: "?f ?z = ?f (take s ?z) @ ?f (take (e - s) (drop s ?z)) @ ?f (drop (e - s) (drop s ?z))" by (metis filter_append)
  have "?f (take (e - s) (drop s ?z)) = take (e - s) (drop s ?z)"
    using assms by (intro filter_True) (auto simp: in_set_conv_nth)
  moreover have "map fst (take (e - s) (drop s ?z)) = take (e - s) (drop s t)"
    using assms(1) by (simp add: take_map [symmetric] drop_map [symmetric])
  ultimately have "map fst (?f ?z) = map fst (?f (take s ?z)) @ take (e - s) (drop s t) @ map fst (?f (drop (e - s) (drop s ?z)))"
    by (simp add: split)
  then show ?thesis by blast
qed

lemma lineIn_covers:
  assumes "rowText cells = (t, cols)" "s < e" "e \<le> length t" "rangeRect cs cells cols q scope index (s, e) = Some r"
  shows "\<exists>a b. lineIn cells r = a @ take (e - s) (drop s t) @ b"
proof -
  note cols = rowText_cols [OF assms(1)] and r = rangeRect_spec [OF assms]
  have "column r \<le> int (cols ! k) \<and> int (cols ! k) < column r + width r" if "s \<le> k" "k < e" for k
  proof -
    have "cols ! s \<le> cols ! k" "cols ! k \<le> cols ! (e - 1)"
      using that assms(2,3) cols by (auto intro!: sorted_nth_mono)
    with r show ?thesis by simp
  qed
  then have "\<exists>a b. map fst (filter (\<lambda>(c, k). column r \<le> int k \<and> int k < column r + width r) (zip t cols)) = a @ take (e - s) (drop s t) @ b"
    using assms(2,3) cols(1) by (intro filter_zip_covers [where P = "\<lambda>k. column r \<le> int k \<and> int k < column r + width r"]) auto
  then show ?thesis by (simp add: lineIn_def assms(1))
qed

lemma textInRect_line:
  assumes "row r = int i" "height r = 1" "i < length grid"
  shows "textInRect grid r = lineIn (grid ! i) r"
  using assms by (simp add: textInRect_def List.map_filter_simps join_lines_def)

lemma js_includes_append: "js_includes (a @ m @ b) m"
proof (induction a)
  case Nil
  show ?case
  proof (cases "m @ b")
    case (Cons c s)
    then show ?thesis using startsWith_append [of m b] by (simp del: startsWith_append)
  qed simp
next
  case (Cons c a)
  then show ?case by simp
qed

lemma js_includes_iff: "js_includes s m \<longleftrightarrow> (\<exists>a b. s = a @ m @ b)"
proof
  show "js_includes s m \<Longrightarrow> \<exists>a b. s = a @ m @ b"
  proof (induction s)
    case (Cons c s)
    then show ?case unfolding js_includes.simps startsWith_iff by (metis append_Cons append_Nil)
  qed simp
qed (use js_includes_append in blast)

section \<open>The search\<close>

lemma those_Some: "those xs = Some ys \<longleftrightarrow> xs = map Some ys"
  by (induction xs arbitrary: ys) (auto split: option.splits simp: Cons_eq_map_conv)


lemma pickOccurrence_set: "set (pickOccurrence k out) \<subseteq> set out"
  by (auto simp: pickOccurrence_def split: option.splits)

lemma set_map_filter_Some: "r \<in> set (List.map_filter f xs) \<longleftrightarrow> (\<exists>x \<in> set xs. f x = Some r)"
  by (induction xs) (auto simp: List.map_filter_simps split: option.splits)

lemma lastRow_le: "lastRow grid scope \<le> length grid"
  by (auto simp: lastRow_def nat_le_iff split: option.split)

text \<open>A rectangle that is found comes from a range of the text of its row.\<close>

lemma matchGrid_from:
  assumes "matchGrid cs grid q scope = Some rs" "r \<in> set rs"
  obtains i t cols ms s e where "firstRow scope \<le> i" "i < lastRow grid scope" "rowText (grid ! i) = (t, cols)"
    "findRanges cs t (genText q) = Some ms" "(s, e) \<in> set ms" "rangeRect cs (grid ! i) cols q scope i (s, e) = Some r"
proof -
  from assms(1) obtain found where found: "map (rowMatches cs grid q scope) [firstRow scope..<lastRow grid scope] = map Some found"
    and rs: "rs = pickOccurrence (genOccurrence q) (concat found)"
    unfolding matchGrid_def by (auto simp: those_Some)
  from rs assms(2) pickOccurrence_set obtain f where f: "f \<in> set found" "r \<in> set f" by fastforce
  then have "Some f \<in> rowMatches cs grid q scope ` set [firstRow scope..<lastRow grid scope]"
    using arg_cong [OF found, of set] by auto
  then obtain i where i: "firstRow scope \<le> i" "i < lastRow grid scope" "rowMatches cs grid q scope i = Some f" by auto
  obtain t cols where rt: "rowText (grid ! i) = (t, cols)" by fastforce
  with i(3) obtain ms where ms: "findRanges cs t (genText q) = Some ms"
    "f = List.map_filter (rangeRect cs (grid ! i) cols q scope i) ms" by (auto simp: rowMatches_def)
  from f(2) ms(2) obtain s e where "(s, e) \<in> set ms" "rangeRect cs (grid ! i) cols q scope i (s, e) = Some r"
    by (auto simp: set_map_filter_Some)
  with i rt ms(1) that show ?thesis by blast
qed

lemma literalLoop_finds:
  assumes "needle \<noteq> []"
  shows "literalLoop t needle 0 \<noteq> [] \<longleftrightarrow> js_includes t needle"
proof (cases "indexOf_from t needle 0")
  case None
  have "t \<noteq> a @ needle @ b" for a b using indexOf_from_None [OF None, of "length a"] by auto
  with None assms show ?thesis by (subst literalLoop.simps) (simp add: js_includes_iff)
next
  case (Some k)
  then have "t = take k t @ needle @ drop (length needle) (drop k t)" using indexOf_from_Some [OF Some] by (metis append_take_drop_id)
  then have "js_includes t needle" unfolding js_includes_iff by blast
  with Some assms show ?thesis by (subst literalLoop.simps) simp
qed




section \<open>Theorems\<close>

text \<open>C19: Every rectangle that a literal search returns lies in the grid and in the scope, is one row high, and the text that it
  covers contains the literal.\<close>

theorem grid_sound:
  assumes "matchGrid cs grid (gridQuery (Exact needle) occurrence style) scope = Some rs" "r \<in> set rs" "list_all wide_ok grid"
  shows "0 \<le> row r \<and> row r < int (length grid) \<and> height r = 1 \<and> 0 \<le> column r \<and> 1 \<le> width r \<and>
      column r + width r \<le> int (length (grid ! nat (row r))) \<and> js_includes (textInRect grid r) needle \<and>
      (case scope of None \<Rightarrow> True
       | Some b \<Rightarrow> row b \<le> row r \<and> row r < row b + height b \<and> column b \<le> column r \<and> column r + width r \<le> column b + width b)"
proof -
  obtain i t cols ms s e where i: "firstRow scope \<le> i" "i < lastRow grid scope" and rt: "rowText (grid ! i) = (t, cols)"
    and ms: "findRanges cs t (genText (gridQuery (Exact needle) occurrence style)) = Some ms" "(s, e) \<in> set ms"
    and r: "rangeRect cs (grid ! i) cols (gridQuery (Exact needle) occurrence style) scope i (s, e) = Some r"
    using assms(1,2) by (rule matchGrid_from)
  have ms': "ms = literalLoop t needle 0" using ms(1) by (simp add: gridQuery_def findRanges_def)
  with ms(2) literalLoop_ranges [of 0 t needle] have se: "s < e" "e \<le> length t" by (auto dest: ranges_from_bounds)
  have needle: "take (e - s) (drop s t) = needle" using ms(2) literalLoop_needle [of s e t needle 0] by (simp add: ms')
  have len: "i < length grid" using i(2) lastRow_le [of grid scope] by simp
  note spec = rangeRect_spec [OF rt se r]
  have "js_includes (textInRect grid r) needle"
    using lineIn_covers [OF rt se r] js_includes_append needle by (auto simp: textInRect_line [OF spec(1,2) len])
  moreover have "column r + width r \<le> int (length (grid ! nat (row r)))"
    using spec(1,6) assms(3) len by (simp add: list_all_length)
  moreover have "case scope of None \<Rightarrow> True
       | Some b \<Rightarrow> row b \<le> row r \<and> row r < row b + height b \<and> column b \<le> column r \<and> column r + width r \<le> column b + width b"
    using i spec(1,7) by (auto simp: firstRow_def lastRow_def split: option.split)
  ultimately show ?thesis using spec(1-4) len by simp
qed

text \<open>A cell with one character.\<close>

definition demo_cell :: "nat \<Rightarrow> cell" where
  "demo_cell c = \<lparr>cellChar = [word_of_nat c], cellWidth = 1, cellFg = DefaultColor, cellBg = DefaultColor, cellAttributes = (\<lambda>_. False)\<rparr>"

definition demo_match :: rect where
  "demo_match = \<lparr>row = 0, column = 1, width = 1, height = 1\<rparr>"

lemma demo_found: "matchGrid cs [[demo_cell 97, demo_cell 98]] (gridQuery (Exact (u ''b'')) None None) None = Some [demo_match]"
  by (simp add: matchGrid_def gridQuery_def firstRow_def lastRow_def rowMatches_def rowText_def demo_cell_def findRanges_def u_def
      literalLoop.simps indexOf_from.simps startsWith_def rangeRect_def List.map_filter_simps pickOccurrence_def demo_match_def)

theorem grid_sound_witness:
  "demo_match \<in> set [demo_match] \<and> js_includes (textInRect [[demo_cell 97, demo_cell 98]] demo_match) (u ''b'')"
  using grid_sound [OF demo_found, of demo_match] by (simp add: wide_ok_def demo_cell_def less_Suc_eq nth_Cons split: nat.split)

text \<open>Without scope, style and occurrence, the rows in which a literal search finds something are exactly the rows whose text
  contains the literal.\<close>

theorem grid_rows_complete:
  assumes "needle \<noteq> []"
  shows "\<exists>rs. matchGrid cs grid (gridQuery (Exact needle) None None) None = Some rs \<and>
     (\<forall>i. (\<exists>r \<in> set rs. row r = int i) \<longleftrightarrow> i < length grid \<and> js_includes (fst (rowText (grid ! i))) needle)"
proof -
  let ?q = "gridQuery (Exact needle) None None"
  define rects where "rects i = List.map_filter (rangeRect cs (grid ! i) (snd (rowText (grid ! i))) ?q None i)
      (literalLoop (fst (rowText (grid ! i))) needle 0)" for i
  have rows: "rowMatches cs grid ?q None i = Some (rects i)" for i
    by (simp add: rowMatches_def rects_def gridQuery_def findRanges_def split_def)
  have eq: "matchGrid cs grid ?q None = Some (concat (map rects [0..<length grid]))"
  proof -
    have "those (map (rowMatches cs grid ?q None) [0..<length grid]) = Some (map rects [0..<length grid])"
      using rows by (simp add: those_Some)
    moreover have "genOccurrence ?q = None" by (simp add: gridQuery_def)
    ultimately show ?thesis by (simp add: matchGrid_def firstRow_def lastRow_def pickOccurrence_def)
  qed
  have rect: "\<exists>r. rangeRect cs (grid ! i) (snd (rowText (grid ! i))) ?q None i (s, e) = Some r \<and> row r = int i"
    if "(s, e) \<in> set (literalLoop (fst (rowText (grid ! i))) needle 0)" for i s e
  proof -
    have "s < e" "e \<le> length (fst (rowText (grid ! i)))"
      using ranges_from_bounds [OF literalLoop_ranges that] by simp_all
    moreover have "length (snd (rowText (grid ! i))) = length (fst (rowText (grid ! i)))"
      using rowText_cols(1) [of "grid ! i" "fst (rowText (grid ! i))" "snd (rowText (grid ! i))"] by simp
    ultimately show ?thesis by (simp add: rangeRect_def gridQuery_def Let_def)
  qed
  have found: "rects i \<noteq> [] \<longleftrightarrow> literalLoop (fst (rowText (grid ! i))) needle 0 \<noteq> []" for i
    using rect [of _ _ i] unfolding rects_def
    by (cases "literalLoop (fst (rowText (grid ! i))) needle 0") (auto simp: List.map_filter_simps split: option.splits, fastforce)
  have row: "row r = int i" if "r \<in> set (rects i)" for r i
    using that rect [of _ _ i] unfolding rects_def set_map_filter_Some by fastforce
  have "(\<exists>r \<in> set (concat (map rects [0..<length grid])). row r = int i) \<longleftrightarrow> i < length grid \<and> rects i \<noteq> []" for i
    using row by (fastforce simp: neq_Nil_conv)
  then show ?thesis using eq found literalLoop_finds [OF assms] by blast
qed

theorem grid_rows_complete_witness:
  "\<exists>rs. matchGrid demo_casing [[demo_cell 97], [demo_cell 98]] (gridQuery (Exact (u ''b'')) None None) None = Some rs \<and>
     (\<exists>r \<in> set rs. row r = 1) \<and> \<not> (\<exists>r \<in> set rs. row r = 0)"
proof -
  let ?g = "[[demo_cell 97], [demo_cell 98]]"
  have b: "u ''b'' \<noteq> []" by (simp add: u_def)
  obtain rs where rs: "matchGrid demo_casing ?g (gridQuery (Exact (u ''b'')) None None) None = Some rs"
    "\<And>i. (\<exists>r \<in> set rs. row r = int i) \<longleftrightarrow> i < length ?g \<and> js_includes (fst (rowText (?g ! i))) (u ''b'')"
    using grid_rows_complete [OF b, of demo_casing ?g] by blast
  have "js_includes (fst (rowText (?g ! 1))) (u ''b'')" "\<not> js_includes (fst (rowText (?g ! 0))) (u ''b'')"
    by (simp_all add: rowText_def demo_cell_def u_def startsWith_def)
  then show ?thesis using rs(1) rs(2) [of 0] rs(2) [of 1] by auto
qed



section \<open>Where the search goes wrong\<close>

text \<open>A case-insensitive search looks for its text in the lower-cased row, but maps what it finds to columns of the row as it is.
  After a character whose lower case is longer, such as U+0130, the match is reported one cell too far to the right.\<close>

theorem lower_case_shifts_match:
  assumes "toLowerCase cs [0x130, 97, 98] = [0x69, 0x307, 97, 98]" "toLowerCase cs [97] = [97]"
  shows "matchGrid cs [[demo_cell 0x130, demo_cell 97, demo_cell 98]] (gridQuery (Substring [97]) None None) None =
      Some [\<lparr>row = 0, column = 2, width = 1, height = 1\<rparr>] \<and>
    textInRect [[demo_cell 0x130, demo_cell 97, demo_cell 98]] \<lparr>row = 0, column = 2, width = 1, height = 1\<rparr> = [98]"
  using assms
  by (simp add: matchGrid_def gridQuery_def firstRow_def lastRow_def rowMatches_def rowText_def demo_cell_def findRanges_def
      literalLoop.simps indexOf_from.simps startsWith_def rangeRect_def List.map_filter_simps pickOccurrence_def textInRect_def
      lineIn_def join_lines_def)

definition dotted_casing :: casing where
  "dotted_casing = \<lparr>toLowerCase = (\<lambda>s. concat (map (\<lambda>c. if c = 0x130 then [0x69, 0x307] else [c]) s)), toUpperCase = id\<rparr>"

theorem lower_case_shifts_match_witness:
  "toLowerCase dotted_casing [0x130, 97, 98] = [0x69, 0x307, 97, 98] \<and>
   matchGrid dotted_casing [[demo_cell 0x130, demo_cell 97, demo_cell 98]] (gridQuery (Substring [97]) None None) None =
     Some [\<lparr>row = 0, column = 2, width = 1, height = 1\<rparr>]"
proof -
  have cs: "toLowerCase dotted_casing [0x130, 97, 98] = [0x69, 0x307, 97, 98]" "toLowerCase dotted_casing [97] = [97]"
    by (simp_all add: dotted_casing_def)
  then show ?thesis using lower_case_shifts_match [OF cs] by simp
qed

text \<open>If \<open>exec\<close> at 1 steps back to 0 and matches nothing there, no run of the loop from 0 or 1 returns.\<close>

lemma execLoop_never:
  assumes "exec t 0 = Some (0, 0)" "exec t (Suc 0) = Some (0, 0)" "execLoop exec t i = Some ms"
  shows "1 < i"
proof -
  have "exec t 0 = Some (0, 0) \<longrightarrow> exec t (Suc 0) = Some (0, 0) \<longrightarrow> 1 < i"
  proof (rule execLoop.raw_induct [OF _ assms(3), where P = "\<lambda>exec t i ms. exec t 0 = Some (0, 0) \<longrightarrow> exec t (Suc 0) = Some (0, 0) \<longrightarrow> 1 < i"],
      intro impI)
    fix loop :: "(js_string \<Rightarrow> nat \<Rightarrow> (nat \<times> nat) option) \<Rightarrow> js_string \<Rightarrow> nat \<Rightarrow> (nat \<times> nat) list option" and exec t i ms
    assume IH: "\<And>exec t i y. loop exec t i = Some y \<Longrightarrow> exec t 0 = Some (0, 0) \<longrightarrow> exec t (Suc 0) = Some (0, 0) \<longrightarrow> 1 < i"
      and run: "(case exec t i of None \<Rightarrow> Some []
          | Some m \<Rightarrow> if fst m = snd m then loop exec t (Suc (snd m)) else Option.bind (loop exec t (snd m)) (\<lambda>ms. Some (m # ms))) = Some ms"
      and steps: "exec t 0 = Some (0, 0)" "exec t (Suc 0) = Some (0, 0)"
    have "loop exec t (Suc 0) = Some ms" if "i = 0 \<or> i = Suc 0" using run steps that by auto
    with IH [of exec t "Suc 0" ms] steps show "1 < i" by (cases i rule: nat.exhaust) (auto simp: less_Suc_eq_0_disj)
  qed
  with assms(1,2) show ?thesis by simp
qed

text \<open>C39: A regular expression with the flag \<open>u\<close> reads the code point that an index lies in: at the index between the two halves of a
  surrogate pair it steps back to the first. If it can match nothing there, the search over a row that starts with such a pair
  never ends, because an empty match advances the index by one unit.\<close>

theorem regex_step_back_hangs:
  assumes "exec (fst (rowText cells)) 0 = Some (0, 0)" "exec (fst (rowText cells)) (Suc 0) = Some (0, 0)"
  shows "matchGrid cs [cells] (gridQuery (Regex tst exec) occurrence style) None = None"
proof -
  have "execLoop exec (fst (rowText cells)) 0 = None" using execLoop_never [of exec "fst (rowText cells)" 0, OF assms] by (cases "execLoop exec (fst (rowText cells)) 0") auto
  then show ?thesis by (simp add: matchGrid_def gridQuery_def firstRow_def lastRow_def rowMatches_def findRanges_def split_def)
qed

text \<open>A row with one wide character, U+1F600, and the expression of the empty pattern on it.\<close>

definition wide_row :: "cell list" where
  "wide_row = [(demo_cell 0)\<lparr>cellChar := [0xD83D, 0xDE00], cellWidth := 2\<rparr>, (demo_cell 0)\<lparr>cellChar := [], cellWidth := 0\<rparr>]"

definition empty_pattern :: "js_string \<Rightarrow> nat \<Rightarrow> (nat \<times> nat) option" where
  "empty_pattern t i =
     (if length t < i then None
      else if 0 < i \<and> i < length t \<and> low_surrogate (t ! i) \<and> high_surrogate (t ! (i - 1)) then Some (i - 1, i - 1)
      else Some (i, i))"

theorem regex_step_back_hangs_witness:
  "wide_ok wide_row \<and>
   matchGrid demo_casing [wide_row] (gridQuery (Regex (\<lambda>_. True) empty_pattern) None None) None = None"
proof -
  have exec: "empty_pattern (fst (rowText wide_row)) 0 = Some (0, 0)" "empty_pattern (fst (rowText wide_row)) (Suc 0) = Some (0, 0)"
    by (simp_all add: empty_pattern_def rowText_def wide_row_def demo_cell_def low_surrogate_def high_surrogate_def)
  have "wide_ok wide_row" by (simp add: wide_ok_def wide_row_def demo_cell_def less_Suc_eq nth_Cons split: nat.split)
  then show ?thesis using regex_step_back_hangs [of empty_pattern wide_row, OF exec] by simp
qed

end
