(* ===== verification/Mouse.thy ===== *)
theory Mouse
  imports Text
begin

text \<open>
  The mouse encoder of the driver (\<open>src/packages/driver/src/mouse.ts\<close>).

  \<^item> A \<open>mouse_event\<close> has zero-based cell coordinates, which are arbitrary integers here; \<open>encodeMouse\<close> returns the bytes that are
    written to the child, as characters. The four report formats are those of the source; the legacy one stores its fields in
    bytes, modulo 256, and the UTF-8 one goes through \<open>TextEncoder\<close>.
  \<^item> \<open>decodeSgr\<close> is what an application reads from an SGR report: the specification that the encoder is compared with.

  The theorems: an SGR report read back gives the event; nothing is written unless the observed modes call for it; legacy
  reports never wrap.
\<close>

section \<open>Events\<close>

datatype mouse_button = LeftButton | MiddleButton | RightButton

datatype mouse_kind = Press | Release | Move | Wheel

datatype wheel_axis = Vertical | Horizontal

record mouse_event =
  mKind :: mouse_kind
  mRow :: int
  mColumn :: int
  mButton :: "mouse_button option"
  mModifiers :: "string list option"
  wheelDelta :: "int option"
  wheelAxis :: "wheel_axis option"

datatype mouse_tracking = TrackNone | TrackX10 | TrackVt200 | TrackDrag | TrackAny | TrackUnknown

datatype mouse_encoding = EncDefault | EncSgr | EncUrxvt | EncUtf8 | EncUnknown

record mouse_modes =
  mouseTracking :: mouse_tracking
  mouseEncoding :: mouse_encoding

datatype mouse_error = ModeDisabled | UnknownModifier | CodePointRange | CapabilityUnavailable

primrec BUTTON_CODES :: "mouse_button \<Rightarrow> nat" where
  "BUTTON_CODES LeftButton = 0"
| "BUTTON_CODES MiddleButton = 1"
| "BUTTON_CODES RightButton = 2"

definition MODIFIER_ORDER :: "string list" where
  "MODIFIER_ORDER = [''shift'', ''alt'', ''control'']"

definition normalizeMouseModifiers :: "string list option \<Rightarrow> (mouse_error, string list) res" where
  "normalizeMouseModifiers vs =
     (let provided = (case vs of None \<Rightarrow> [] | Some xs \<Rightarrow> xs)
      in if list_ex (\<lambda>v. v \<notin> set MODIFIER_ORDER) provided then Inl UnknownModifier
         else Inr (filter (\<lambda>v. v \<in> set provided) MODIFIER_ORDER))"

definition X10_MAX_COORDINATE :: int where
  "X10_MAX_COORDINATE = 223"

definition modifierBits :: "string list \<Rightarrow> nat" where
  "modifierBits ms = (if ''shift'' \<in> set ms then 4 else 0) + (if ''alt'' \<in> set ms then 8 else 0) +
     (if ''control'' \<in> set ms then 16 else 0)"

definition buttonBase :: "mouse_event \<Rightarrow> nat" where
  "buttonBase e =
     (case mKind e of
        Wheel \<Rightarrow>
          (let delta = (case wheelDelta e of None \<Rightarrow> 0 | Some d \<Rightarrow> d)
           in if wheelAxis e = Some Horizontal then (if delta < 0 then 66 else 67) else (if delta < 0 then 64 else 65))
      | Move \<Rightarrow> (case mButton e of None \<Rightarrow> 3 | Some b \<Rightarrow> BUTTON_CODES b) + 32
      | _ \<Rightarrow> BUTTON_CODES (case mButton e of None \<Rightarrow> LeftButton | Some b \<Rightarrow> b))"

definition buttonCode :: "mouse_event \<Rightarrow> (mouse_error, nat) res" where
  "buttonCode e = res_map (\<lambda>ms. buttonBase e + modifierBits ms) (normalizeMouseModifiers (mModifiers e))"

section \<open>Encoding\<close>

definition mouseModeUnverifiable :: "mouse_modes \<Rightarrow> bool" where
  "mouseModeUnverifiable m \<longleftrightarrow> mouseTracking m = TrackUnknown \<or> mouseEncoding m = EncUnknown"

definition int_text :: "int \<Rightarrow> string" where
  "int_text i = (if i < 0 then ''-'' @ decimal (nat (- i)) else decimal (nat i))"

definition MOUSE_CSI :: string where
  "MOUSE_CSI = CHR 0x1B # ''[''"

text \<open>\<open>TextEncoder\<close> on one code point; a surrogate becomes U+FFFD.\<close>

fun utf8_bytes :: "nat \<Rightarrow> string" where
  "utf8_bytes c =
     (if 0xD800 \<le> c \<and> c \<le> 0xDFFF then map char_of [0xEF, 0xBF, 0xBD :: nat]
      else if c < 0x80 then [char_of c]
      else if c < 0x800 then map char_of [0xC0 + c div 64, 0x80 + c mod 64]
      else if c < 0x10000 then map char_of [0xE0 + c div 4096, 0x80 + c div 64 mod 64, 0x80 + c mod 64]
      else map char_of [0xF0 + c div 262144, 0x80 + c div 4096 mod 64, 0x80 + c div 64 mod 64, 0x80 + c mod 64])"

definition fromCodePoint :: "int \<Rightarrow> (mouse_error, string) res" where
  "fromCodePoint c = (if c < 0 \<or> c > 0x10FFFF then Inl CodePointRange else Inr (utf8_bytes (nat c)))"

definition byte_of :: "int \<Rightarrow> char" where
  "byte_of n = char_of (nat (n mod 256))"

text \<open>The formats, for a button code and one-based coordinates.\<close>

definition mouseReport :: "mouse_encoding \<Rightarrow> mouse_kind \<Rightarrow> nat \<Rightarrow> int \<Rightarrow> int \<Rightarrow> (mouse_error, string) res" where
  "mouseReport enc k code column row =
     (let code2 = (if k = Release then 3 else code)
      in case enc of
           EncSgr \<Rightarrow> Inr (MOUSE_CSI @ ''<'' @ decimal code @ '';'' @ int_text column @ '';'' @ int_text row @
             (if k = Release then ''m'' else ''M''))
         | EncUrxvt \<Rightarrow> Inr (MOUSE_CSI @ decimal (code2 + 32) @ '';'' @ int_text column @ '';'' @ int_text row @ ''M'')
         | EncUtf8 \<Rightarrow> res_map (\<lambda>cs. MOUSE_CSI @ ''M'' @ concat cs)
             (res_all fromCodePoint [32 + int code2, 32 + column, 32 + row])
         | EncDefault \<Rightarrow>
             if column > X10_MAX_COORDINATE \<or> row > X10_MAX_COORDINATE then Inl ModeDisabled
             else Inr (MOUSE_CSI @ ''M'' @ map byte_of [32 + int code2, 32 + column, 32 + row])
         | EncUnknown \<Rightarrow> Inl CapabilityUnavailable)"

definition encodeMouse :: "mouse_event \<Rightarrow> mouse_modes \<Rightarrow> (mouse_error, string) res" where
  "encodeMouse e m =
     (if mouseModeUnverifiable m then Inl ModeDisabled
      else if mouseTracking m = TrackNone then Inl ModeDisabled
      else if mouseTracking m = TrackX10 \<and> mKind e \<noteq> Press then Inl ModeDisabled
      else if mKind e = Move \<and> mouseTracking m \<noteq> TrackDrag \<and> mouseTracking m \<noteq> TrackAny then Inl ModeDisabled
      else res_bind (buttonCode e) (\<lambda>code. mouseReport (mouseEncoding m) (mKind e) code (mColumn e + 1) (mRow e + 1)))"

text \<open>One write for several events: the loop that copies the chunks into a buffer of the total length.\<close>

definition concatBytes :: "string list \<Rightarrow> string" where
  "concatBytes chunks =
     (let total = fold (\<lambda>c n. n + length c) chunks 0
      in fst (fold (\<lambda>c (out, offset). (take offset out @ c @ drop (offset + length c) out, offset + length c)) chunks
           (replicate total (CHR 0x00), 0)))"

section \<open>What an application reads\<close>

datatype wheel_direction = ScrollUp | ScrollDown | ScrollLeft | ScrollRight

datatype mouse_action =
    Pressed mouse_button | Released mouse_button | Moved "mouse_button option" | Scrolled wheel_direction

record mouse_report =
  repAction :: mouse_action
  repModifiers :: "string list"
  repRow :: int
  repColumn :: int

text \<open>The meaning of an event, and of the button code of a report.\<close>

definition action_of :: "mouse_event \<Rightarrow> mouse_action" where
  "action_of e =
     (let b = (case mButton e of None \<Rightarrow> LeftButton | Some b \<Rightarrow> b); backwards = (\<exists>d. wheelDelta e = Some d \<and> d < 0)
      in case mKind e of
           Press \<Rightarrow> Pressed b | Release \<Rightarrow> Released b | Move \<Rightarrow> Moved (mButton e)
         | Wheel \<Rightarrow> Scrolled (if wheelAxis e = Some Horizontal then if backwards then ScrollLeft else ScrollRight
             else if backwards then ScrollUp else ScrollDown))"

definition button_number :: "nat \<Rightarrow> mouse_button option" where
  "button_number n = (if n = 0 then Some LeftButton else if n = 1 then Some MiddleButton else if n = 2 then Some RightButton else None)"

definition decodeAction :: "nat \<Rightarrow> bool \<Rightarrow> mouse_action option" where
  "decodeAction code released =
     (if code div 32 = 0
      then map_option (\<lambda>b. if released then Released b else Pressed b) (button_number (code mod 4))
      else if released then None
      else if code div 32 = 1 then Some (Moved (button_number (code mod 4)))
      else if code div 32 = 2 then Some (Scrolled ([ScrollUp, ScrollDown, ScrollLeft, ScrollRight] ! (code mod 4)))
      else None)"

definition decodeModifiers :: "nat \<Rightarrow> string list" where
  "decodeModifiers code = (if odd (code div 4) then [''shift''] else []) @ (if odd (code div 8) then [''alt''] else []) @
     (if odd (code div 16) then [''control''] else [])"

definition decodeSgr :: "string \<Rightarrow> mouse_report option" where
  "decodeSgr bs =
     (let r1 = drop 3 bs; c = takeWhile is_digit r1; r2 = dropWhile is_digit r1;
          x = takeWhile is_digit (tl r2); r3 = dropWhile is_digit (tl r2);
          y = takeWhile is_digit (tl r3); r4 = dropWhile is_digit (tl r3)
      in if startsWith bs (CHR 0x1B # ''[<'') \<and> c \<noteq> [] \<and> x \<noteq> [] \<and> y \<noteq> [] \<and> take 1 r2 = '';'' \<and> take 1 r3 = '';'' \<and>
            (r4 = ''M'' \<or> r4 = ''m'')
         then map_option (\<lambda>a. \<lparr>repAction = a, repModifiers = decodeModifiers (parse_decimal c),
             repRow = int (parse_decimal y) - 1, repColumn = int (parse_decimal x) - 1\<rparr>)
           (decodeAction (parse_decimal c) (r4 = ''m''))
         else None)"

lemma modifiers_cases:
  assumes "normalizeMouseModifiers vs = Inr ms"
  obtains a b c where "ms = (if a then [''shift''] else []) @ (if b then [''alt''] else []) @ (if c then [''control''] else [])"
    "modifierBits ms = (if a then 4 else 0) + (if b then 8 else 0) + (if c then 16 else 0)"
proof -
  define xs where "xs = (case vs of None \<Rightarrow> [] | Some xs \<Rightarrow> xs)"
  have "ms = filter (\<lambda>v. v \<in> set xs) MODIFIER_ORDER"
    using assms unfolding normalizeMouseModifiers_def Let_def xs_def [symmetric] by (simp split: if_splits)
  then have "ms = (if ''shift'' \<in> set xs then [''shift''] else []) @ (if ''alt'' \<in> set xs then [''alt''] else []) @
      (if ''control'' \<in> set xs then [''control''] else [])"
    by (simp add: MODIFIER_ORDER_def)
  moreover from this have "modifierBits ms = (if ''shift'' \<in> set xs then 4 else 0) + (if ''alt'' \<in> set xs then 8 else 0) +
      (if ''control'' \<in> set xs then 16 else 0)"
    by (simp add: modifierBits_def)
  ultimately show ?thesis by (rule that)
qed

definition button_bases :: "nat list" where
  "button_bases = [0, 1, 2, 32, 33, 34, 35, 64, 65, 66, 67]"

text \<open>Every button code without modifiers, with each set of modifiers.\<close>

lemma decode_table:
  "list_all (\<lambda>base. list_all (\<lambda>(a, b, c).
     let n = base + ((if a then 4 else 0) + (if b then 8 else 0) + (if c then 16 else 0))
     in (odd (n div 4) = a \<and> odd (n div 8) = b \<and> odd (n div 16) = c) \<and> n mod 4 = base mod 4 \<and> n div 32 = base div 32)
     [(a, b, c). a \<leftarrow> [False, True], b \<leftarrow> [False, True], c \<leftarrow> [False, True]]) button_bases"
  by code_simp

lemma decode_modifiers:
  assumes "normalizeMouseModifiers vs = Inr ms" "base \<in> set button_bases"
  shows "decodeModifiers (base + modifierBits ms) = ms" "(base + modifierBits ms) mod 4 = base mod 4"
    "(base + modifierBits ms) div 32 = base div 32"
proof -
  obtain a b c where ms: "ms = (if a then [''shift''] else []) @ (if b then [''alt''] else []) @ (if c then [''control''] else [])"
    "modifierBits ms = (if a then 4 else 0) + (if b then 8 else 0) + (if c then 16 else 0)"
    using modifiers_cases [OF assms(1)] .
  have "(a, b, c) \<in> set [(a, b, c). a \<leftarrow> [False, True], b \<leftarrow> [False, True], c \<leftarrow> [False, True]]" by auto
  then have table: "odd ((base + modifierBits ms) div 4) = a \<and> odd ((base + modifierBits ms) div 8) = b \<and>
      odd ((base + modifierBits ms) div 16) = c" "(base + modifierBits ms) mod 4 = base mod 4"
      "(base + modifierBits ms) div 32 = base div 32"
    using decode_table assms(2) unfolding list_all_iff ms(2) Let_def by fast+
  then show "(base + modifierBits ms) mod 4 = base mod 4" "(base + modifierBits ms) div 32 = base div 32" by simp_all
  show "decodeModifiers (base + modifierBits ms) = ms" using table(1) by (simp add: decodeModifiers_def ms(1))
qed

lemma button_number_codes [simp]: "button_number (BUTTON_CODES b) = Some b" "BUTTON_CODES b < 3"
  by (cases b; simp add: button_number_def)+

lemma button_small: "BUTTON_CODES b mod 4 = BUTTON_CODES b" "BUTTON_CODES b div 32 = 0" "BUTTON_CODES b mod 32 = BUTTON_CODES b"
    "(BUTTON_CODES b + 32) mod 4 = BUTTON_CODES b" "(BUTTON_CODES b + 32) div 32 = 1" "(BUTTON_CODES b + 32) mod 32 = BUTTON_CODES b"
  by (cases b; simp)+

lemma button_base:
  "buttonBase e \<in> set button_bases" "decodeAction (buttonBase e) (mKind e = Release) = Some (action_of e)"
proof -
  have "BUTTON_CODES b \<in> set button_bases \<and> BUTTON_CODES b + 32 \<in> set button_bases" for b
    by (cases b) (simp_all add: button_bases_def)
  moreover have "{0, 35, 64, 65, 66, 67} \<subseteq> set button_bases" by (simp add: button_bases_def)
  ultimately show "buttonBase e \<in> set button_bases"
    by (cases "mKind e"; cases "mButton e") (auto simp: buttonBase_def Let_def)
  show "decodeAction (buttonBase e) (mKind e = Release) = Some (action_of e)"
  proof (cases "mKind e")
    case Wheel
    then show ?thesis by (cases "wheelDelta e") (simp_all add: buttonBase_def decodeAction_def action_of_def)
  qed (cases "mButton e"; simp add: buttonBase_def decodeAction_def action_of_def button_small; simp add: button_number_def)+
qed

lemma action_code:
  assumes "normalizeMouseModifiers vs = Inr ms"
  shows "decodeAction (buttonBase e + modifierBits ms) (mKind e = Release) = Some (action_of e)"
  using button_base(2) [of e] unfolding decodeAction_def decode_modifiers(2,3) [OF assms button_base(1)] .

lemma encodeMouse_Inr:
  assumes "encodeMouse e m = Inr bs"
  obtains ms where "normalizeMouseModifiers (mModifiers e) = Inr ms"
    "mouseReport (mouseEncoding m) (mKind e) (buttonBase e + modifierBits ms) (mColumn e + 1) (mRow e + 1) = Inr bs"
    "mouseTracking m \<notin> {TrackNone, TrackUnknown}" "mouseEncoding m \<noteq> EncUnknown" "mouseTracking m = TrackX10 \<longrightarrow> mKind e = Press"
    "mKind e = Move \<longrightarrow> mouseTracking m \<in> {TrackDrag, TrackAny}"
  using assms by (auto simp: encodeMouse_def buttonCode_def mouseModeUnverifiable_def res_simps split: if_splits)

lemma decode_sgr_text:
  assumes "\<not> is_digit (hd final)" "final = ''M'' \<or> final = ''m''"
  shows "decodeSgr (MOUSE_CSI @ ''<'' @ decimal c @ '';'' @ decimal x @ '';'' @ decimal y @ final) =
    map_option (\<lambda>a. \<lparr>repAction = a, repModifiers = decodeModifiers c, repRow = int y - 1, repColumn = int x - 1\<rparr>)
      (decodeAction c (final = ''m''))"
proof -
  have sep: "\<not> is_digit (CHR '';'')" "\<not> is_digit (CHR ''M'')" "\<not> is_digit (CHR ''m'')" by (simp_all add: is_digit_def)
  note split = takeWhile_digits [OF decimal_digits sep(1)] takeWhile_digits [OF decimal_digits sep(2), of _ "[]"]
    takeWhile_digits [OF decimal_digits sep(3), of _ "[]"]
  show ?thesis using assms(2) by (auto simp: decodeSgr_def MOUSE_CSI_def startsWith_def Let_def split)
qed

text \<open>C29: An SGR mouse report that the encoder writes is read back by an application as the event itself: the action with its
  button or wheel direction, the modifiers in canonical order, and the cell.\<close>

theorem mouse_sgr_roundtrip:
  assumes "encodeMouse e m = Inr bs" and "mouseEncoding m = EncSgr" and "0 \<le> mRow e" and "0 \<le> mColumn e"
  shows "\<exists>ms. normalizeMouseModifiers (mModifiers e) = Inr ms \<and>
    decodeSgr bs = Some \<lparr>repAction = action_of e, repModifiers = ms, repRow = mRow e, repColumn = mColumn e\<rparr>"
proof -
  obtain ms where ms: "normalizeMouseModifiers (mModifiers e) = Inr ms"
    and bs: "bs = MOUSE_CSI @ ''<'' @ decimal (buttonBase e + modifierBits ms) @ '';'' @ decimal (nat (mColumn e + 1)) @ '';'' @
      decimal (nat (mRow e + 1)) @ (if mKind e = Release then ''m'' else ''M'')"
    using encodeMouse_Inr [OF assms(1)] assms(2-4) by (auto simp: mouseReport_def int_text_def Let_def)
  have final: "\<not> is_digit (hd (if mKind e = Release then ''m'' else ''M''))"
    "(if mKind e = Release then ''m'' else ''M'') = ''M'' \<or> (if mKind e = Release then ''m'' else ''M'') = ''m''"
    "((if mKind e = Release then ''m'' else ''M'') = ''m'') = (mKind e = Release)"
    by (simp_all add: is_digit_def)
  have "decodeSgr bs = Some \<lparr>repAction = action_of e, repModifiers = ms, repRow = mRow e, repColumn = mColumn e\<rparr>"
    unfolding bs decode_sgr_text [OF final(1,2)] final(3) action_code [OF ms]
    using decode_modifiers(1) [OF ms button_base(1)] assms(3,4) by simp
  with ms show ?thesis by blast
qed

definition demo_drag :: mouse_event where
  "demo_drag = \<lparr>mKind = Move, mRow = 4, mColumn = 300, mButton = Some RightButton, mModifiers = Some [''control'', ''shift''],
     wheelDelta = None, wheelAxis = None\<rparr>"

theorem mouse_sgr_roundtrip_witness:
  "encodeMouse demo_drag \<lparr>mouseTracking = TrackDrag, mouseEncoding = EncSgr\<rparr> = Inr (CHR 0x1B # ''[<54;301;5M'') \<and>
   decodeSgr (CHR 0x1B # ''[<54;301;5M'') =
     Some \<lparr>repAction = Moved (Some RightButton), repModifiers = [''shift'', ''control''], repRow = 4, repColumn = 300\<rparr>"
proof -
  have bytes: "encodeMouse demo_drag \<lparr>mouseTracking = TrackDrag, mouseEncoding = EncSgr\<rparr> = Inr (CHR 0x1B # ''[<54;301;5M'')"
    by code_simp
  have "mRow demo_drag = 4" "mColumn demo_drag = 300" "action_of demo_drag = Moved (Some RightButton)"
    "normalizeMouseModifiers (mModifiers demo_drag) = Inr [''shift'', ''control'']"
    by (simp_all add: demo_drag_def action_of_def normalizeMouseModifiers_def MODIFIER_ORDER_def)
  with mouse_sgr_roundtrip [OF bytes] bytes show ?thesis by simp
qed

text \<open>Nothing is written unless the observed modes call for it: tracking is on and known, the encoding is known, X10 tracking gets
  presses only, motion needs a tracking mode that reports it, and in the legacy encoding every field of a report for a cell of
  the screen is one byte that holds its value without wrap-around.\<close>

theorem mouse_gated:
  assumes "encodeMouse e m = Inr bs"
  shows "mouseTracking m \<notin> {TrackNone, TrackUnknown} \<and> mouseEncoding m \<noteq> EncUnknown \<and>
    (mouseTracking m = TrackX10 \<longrightarrow> mKind e = Press) \<and> (mKind e = Move \<longrightarrow> mouseTracking m \<in> {TrackDrag, TrackAny}) \<and>
    (mouseEncoding m = EncDefault \<and> 0 \<le> mRow e \<and> 0 \<le> mColumn e \<longrightarrow>
       length bs = 6 \<and> int (of_char (bs ! 4)) = 33 + mColumn e \<and> int (of_char (bs ! 5)) = 33 + mRow e \<and>
       (mKind e \<noteq> Release \<longrightarrow> buttonCode e = Inr (of_char (bs ! 3) - 32)))"
proof -
  obtain ms where ms: "normalizeMouseModifiers (mModifiers e) = Inr ms"
    and report: "mouseReport (mouseEncoding m) (mKind e) (buttonBase e + modifierBits ms) (mColumn e + 1) (mRow e + 1) = Inr bs"
    and gates: "mouseTracking m \<notin> {TrackNone, TrackUnknown}" "mouseEncoding m \<noteq> EncUnknown" "mouseTracking m = TrackX10 \<longrightarrow> mKind e = Press"
      "mKind e = Move \<longrightarrow> mouseTracking m \<in> {TrackDrag, TrackAny}"
    using encodeMouse_Inr [OF assms] .
  have "buttonBase e \<le> 67" using button_base(1) [of e] by (auto simp: button_bases_def)
  moreover have "modifierBits ms \<le> 28" by (simp add: modifierBits_def)
  ultimately have code: "buttonBase e + modifierBits ms \<le> 95" by simp
  have byte: "int (of_char (byte_of n)) = n" if "0 \<le> n" "n < 256" for n
    using that by (simp add: byte_of_def)
  have "length bs = 6 \<and> int (of_char (bs ! 4)) = 33 + mColumn e \<and> int (of_char (bs ! 5)) = 33 + mRow e \<and>
      (mKind e \<noteq> Release \<longrightarrow> buttonCode e = Inr (of_char (bs ! 3) - 32))"
    if legacy: "mouseEncoding m = EncDefault" "0 \<le> mRow e" "0 \<le> mColumn e"
  proof -
    have fit: "mColumn e + 1 \<le> 223" "mRow e + 1 \<le> 223" and bs: "bs = MOUSE_CSI @ ''M'' @ map byte_of
        [32 + int (if mKind e = Release then 3 else buttonBase e + modifierBits ms), 32 + (mColumn e + 1), 32 + (mRow e + 1)]"
      using report legacy(1) by (auto simp: mouseReport_def X10_MAX_COORDINATE_def Let_def split: if_splits)
    have "int (of_char (byte_of (32 + int (buttonBase e + modifierBits ms)))) = 32 + int (buttonBase e + modifierBits ms)"
      using code by (intro byte) auto
    then have "buttonCode e = Inr (of_char (byte_of (32 + int (buttonBase e + modifierBits ms))) - 32)"
      by (simp add: buttonCode_def ms)
    with byte [of "32 + (mColumn e + 1)"] byte [of "32 + (mRow e + 1)"] fit legacy show ?thesis
      by (simp add: bs MOUSE_CSI_def)
  qed
  with gates show ?thesis by blast
qed

theorem mouse_gated_witness:
  "encodeMouse (demo_drag\<lparr>mKind := Press, mColumn := 200\<rparr>) \<lparr>mouseTracking = TrackX10, mouseEncoding = EncDefault\<rparr> =
     Inr (CHR 0x1B # ''[M'' @ map char_of [54, 233, 37 :: nat]) \<and>
   int (of_char ((CHR 0x1B # ''[M'' @ map char_of [54, 233, 37 :: nat]) ! 4)) = 33 + 200"
proof -
  have bytes: "encodeMouse (demo_drag\<lparr>mKind := Press, mColumn := 200\<rparr>) \<lparr>mouseTracking = TrackX10, mouseEncoding = EncDefault\<rparr> =
     Inr (CHR 0x1B # ''[M'' @ map char_of [54, 233, 37 :: nat])"
    by code_simp
  with mouse_gated [OF bytes] show ?thesis by (simp add: demo_drag_def)
qed

text \<open>The copying loop of \<open>concatBytes\<close> concatenates.\<close>

lemma concatBytes_loop:
  "length out = length done + length (concat cs) \<Longrightarrow> take (length done) out = done \<Longrightarrow>
     fst (fold (\<lambda>c (out, offset). (take offset out @ c @ drop (offset + length c) out, offset + length c)) cs (out, length done)) =
     done @ concat cs"
proof (induction cs arbitrary: "done" out)
  case (Cons c cs)
  let ?out = "take (length done) out @ c @ drop (length done + length c) out"
  have "fst (fold (\<lambda>c (out, offset). (take offset out @ c @ drop (offset + length c) out, offset + length c)) cs
      (?out, length (done @ c))) = (done @ c) @ concat cs"
    using Cons.prems by (intro Cons.IH) (simp_all add: append_eq_conv_conj)
  then show ?case by simp
qed simp

lemma concatBytes_concat: "concatBytes cs = concat cs"
proof -
  have "fold (\<lambda>c n. n + length c) cs n = n + length (concat cs)" for n
    by (induction cs arbitrary: n) simp_all
  with concatBytes_loop [of "replicate (length (concat cs)) (CHR 0x00)" "[]" cs] show ?thesis
    by (simp add: concatBytes_def Let_def)
qed

end
