(* ===== verification/Keys.thy ===== *)
theory Keys
  imports Mouse JsText
begin

text \<open>
  The keyboard encoder of the driver (\<open>src/packages/driver/src/keys.ts\<close>).

  \<^item> The tables are object literals. A lookup also finds what a literal inherits (\<open>INHERITED\<close>); every value ends up in a template
    string, so that \<open>lookup_text\<close> returns texts.
  \<^item> \<open>kittyKey\<close> is the progressive encoding, \<open>encodeChord\<close> one chord, \<open>encodeKeys\<close> a description; a thrown \<open>TypeError\<close> is \<open>Inl\<close>.
    \<open>applicationKeypad\<close> is a field that no branch reads.
  \<^item> Case mapping is a parameter (\<open>casing\<close>); the mapping of \<open>toLocaleLowerCase\<close> depends on the locale and is a parameter of
    \<open>encodeText\<close> of its own.
\<close>

section \<open>Tables\<close>

definition ESC :: js_string where
  "ESC = [0x1B]"

definition CSI :: js_string where
  "CSI = ESC @ u ''[''"

definition SS3 :: js_string where
  "SS3 = ESC @ u ''O''"

record key_modes =
  applicationCursorKeys :: bool
  applicationKeypad :: bool
  kittyKeyboardFlags :: "nat option"

record modifiers =
  shift :: bool
  alt :: bool
  ctrl :: bool
  meta :: bool

datatype modifier_name = CtrlMod | ShiftMod | AltMod | MetaMod

datatype key_error = EmptyKey | UnknownKeyName | NoControlEncoding | NoChords

definition CURSOR_KEYS :: "(js_string, js_string) js_map" where
  "CURSOR_KEYS = [(u ''arrowup'', u ''A''), (u ''arrowdown'', u ''B''), (u ''arrowright'', u ''C''), (u ''arrowleft'', u ''D''),
     (u ''home'', u ''H''), (u ''end'', u ''F'')]"

definition TILDE_KEYS :: "(js_string, nat) js_map" where
  "TILDE_KEYS = [(u ''insert'', 2), (u ''delete'', 3), (u ''pageup'', 5), (u ''pagedown'', 6), (u ''f5'', 15), (u ''f6'', 17),
     (u ''f7'', 18), (u ''f8'', 19), (u ''f9'', 20), (u ''f10'', 21), (u ''f11'', 23), (u ''f12'', 24)]"

definition SS3_FUNCTION_KEYS :: "(js_string, js_string) js_map" where
  "SS3_FUNCTION_KEYS = [(u ''f1'', u ''P''), (u ''f2'', u ''Q''), (u ''f3'', u ''R''), (u ''f4'', u ''S'')]"

definition LITERAL_KEYS :: "(js_string, js_string) js_map" where
  "LITERAL_KEYS = [(u ''enter'', [13]), (u ''return'', [13]), (u ''tab'', [9]), (u ''escape'', ESC), (u ''esc'', ESC),
     (u ''backspace'', [0x7F]), (u ''space'', u '' '')]"

definition KITTY_FUNCTIONAL_KEYS :: "(js_string, nat) js_map" where
  "KITTY_FUNCTIONAL_KEYS = [(u ''insert'', 57348), (u ''delete'', 57349), (u ''arrowleft'', 57350), (u ''arrowright'', 57351),
     (u ''arrowup'', 57352), (u ''arrowdown'', 57353), (u ''pageup'', 57354), (u ''pagedown'', 57355), (u ''home'', 57356),
     (u ''end'', 57357), (u ''f1'', 57364), (u ''f2'', 57365), (u ''f3'', 57366), (u ''f4'', 57367), (u ''f5'', 57368),
     (u ''f6'', 57369), (u ''f7'', 57370), (u ''f8'', 57371), (u ''f9'', 57372), (u ''f10'', 57373), (u ''f11'', 57374),
     (u ''f12'', 57375)]"

definition MODIFIER_ALIASES :: "(js_string, modifier_name) js_map" where
  "MODIFIER_ALIASES = [(u ''control'', CtrlMod), (u ''ctrl'', CtrlMod), (u ''shift'', ShiftMod), (u ''alt'', AltMod),
     (u ''option'', AltMod), (u ''meta'', MetaMod), (u ''cmd'', MetaMod), (u ''command'', MetaMod)]"

text \<open>\<open>TABLE[key]\<close> as the text that it has in a template.\<close>

definition lookup_text :: "('a \<Rightarrow> js_string) \<Rightarrow> (js_string, 'a) js_map \<Rightarrow> js_string \<Rightarrow> js_string option" where
  "lookup_text f table key = (case js_get table key of Some v \<Rightarrow> Some (f v) | None \<Rightarrow> js_get INHERITED key)"

definition no_modifiers :: modifiers where
  "no_modifiers = \<lparr>shift = False, alt = False, ctrl = False, meta = False\<rparr>"

primrec set_modifier :: "modifier_name \<Rightarrow> modifiers \<Rightarrow> modifiers" where
  "set_modifier CtrlMod m = m\<lparr>ctrl := True\<rparr>"
| "set_modifier ShiftMod m = m\<lparr>shift := True\<rparr>"
| "set_modifier AltMod m = m\<lparr>alt := True\<rparr>"
| "set_modifier MetaMod m = m\<lparr>meta := True\<rparr>"

section \<open>Encoding of a key\<close>

definition modifierParameter :: "modifiers \<Rightarrow> nat" where
  "modifierParameter m = 1 + (if shift m then 1 else 0) + (if alt m \<or> meta m then 2 else 0) + (if ctrl m then 4 else 0)"

definition kittyModifierParameter :: "modifiers \<Rightarrow> nat" where
  "kittyModifierParameter m =
     1 + (if shift m then 1 else 0) + (if alt m then 2 else 0) + (if ctrl m then 4 else 0) + (if meta m then 8 else 0)"

text \<open>\<open>(flags & mask) !== 0\<close> for a mask with one bit.\<close>

definition flag :: "nat \<Rightarrow> nat \<Rightarrow> bool" where
  "flag flags bit_value = odd (flags div bit_value)"

definition codePointAt0 :: "js_string \<Rightarrow> nat option" where
  "codePointAt0 s = (case code_points s of [] \<Rightarrow> None | c # _ \<Rightarrow> Some c)"

text \<open>The code parameter of a key, as its decimal text. A name that the tables inherit does not reach the lookup in \<open>LITERAL_KEYS\<close>.\<close>

definition kittyCode :: "casing \<Rightarrow> js_string \<Rightarrow> bool \<Rightarrow> js_string option" where
  "kittyCode cs key reportAll =
     (let lower = toLowerCase cs key
      in if lower = u ''enter'' \<or> lower = u ''return'' then Some (nat_name 13)
         else if lower = u ''tab'' then Some (nat_name 9)
         else if lower = u ''backspace'' then Some (nat_name 127)
         else if lower = u ''escape'' \<or> lower = u ''esc'' then Some (nat_name 27)
         else if reportAll \<and> lookup_text nat_name KITTY_FUNCTIONAL_KEYS lower \<noteq> None then lookup_text nat_name KITTY_FUNCTIONAL_KEYS lower
         else case js_get LITERAL_KEYS lower of
                Some l \<Rightarrow> map_option nat_name (codePointAt0 l)
              | None \<Rightarrow> if length (code_points key) = 1 then map_option nat_name (codePointAt0 (toLowerCase cs key)) else None)"

definition kittyKey :: "casing \<Rightarrow> js_string \<Rightarrow> modifiers \<Rightarrow> nat \<Rightarrow> nat option \<Rightarrow> js_string option" where
  "kittyKey cs key mods flags textCodepoint =
     (let lower = toLowerCase cs key;
          reportAll = flag flags 8;
          disambiguate = (flag flags 1 \<or> reportAll);
          ambiguousModified = (ctrl mods \<or> alt mods \<or> meta mods);
          protectedLegacy = (lower = u ''enter'' \<or> lower = u ''return'' \<or> lower = u ''tab'' \<or> lower = u ''backspace'')
      in if \<not> reportAll \<and> protectedLegacy then None
         else if \<not> reportAll \<and> lookup_text nat_name KITTY_FUNCTIONAL_KEYS lower \<noteq> None then None
         else if \<not> reportAll \<and> \<not> (disambiguate \<and> (ambiguousModified \<or> lower = u ''escape'' \<or> lower = u ''esc'')) \<and>
             \<not> (ctrl mods \<and> shift mods \<and> length (code_points key) = 1) then None
         else case kittyCode cs key reportAll of
                None \<Rightarrow> None
              | Some code \<Rightarrow>
                  (let shiftedCode =
                         (if flag flags 4 \<and> shift mods
                          then (case textCodepoint of
                                  Some c \<Rightarrow> Some c
                                | None \<Rightarrow> if length (code_points key) = 1 then codePointAt0 key else None)
                          else None);
                       codeParameter =
                         (case shiftedCode of
                            Some c \<Rightarrow> if nat_name c \<noteq> code then code @ u '':'' @ nat_name c else code
                          | None \<Rightarrow> code);
                       modifier = kittyModifierParameter mods;
                       associated = (case textCodepoint of
                            Some c \<Rightarrow> if flag flags 16 then u '';'' @ nat_name c else []
                          | None \<Rightarrow> [])
                   in Some (CSI @ codeParameter @ (if modifier = 1 \<and> associated = [] then [] else u '';'' @ nat_name modifier) @
                        associated @ u ''u'')))"

section \<open>Chords\<close>

text \<open>The loop that strips modifiers. An alias that the table inherits sets a property that nothing reads.\<close>

function parseMods :: "casing \<Rightarrow> js_string \<Rightarrow> modifiers \<Rightarrow> js_string \<times> modifiers" where
  "parseMods cs rest mods =
     (let plus = length (takeWhile (\<lambda>c. c \<noteq> 43) rest)
      in if plus = 0 \<or> length rest \<le> Suc plus then (rest, mods)
         else let candidate = toLowerCase cs (take plus rest)
              in case js_get MODIFIER_ALIASES candidate of
                   Some m \<Rightarrow> parseMods cs (drop (Suc plus) rest) (set_modifier m mods)
                 | None \<Rightarrow> if js_get INHERITED candidate = None then (rest, mods) else parseMods cs (drop (Suc plus) rest) mods)"
  by pat_completeness auto
termination
  by (relation "measure (\<lambda>(cs, rest, mods). length rest)") (auto simp: Let_def)

declare parseMods.simps [simp del]

definition parseChord :: "casing \<Rightarrow> js_string \<Rightarrow> (key_error, js_string \<times> modifiers) res" where
  "parseChord cs chord =
     (case parseMods cs chord no_modifiers of (rest, mods) \<Rightarrow> if rest = [] then Inl EmptyKey else Inr (rest, mods))"

definition encodeControlChar :: "casing \<Rightarrow> js_string \<Rightarrow> modifiers \<Rightarrow> js_string option" where
  "encodeControlChar cs key mods =
     (if \<not> ctrl mods then None
      else if length key \<noteq> 1 then None
      else case codePointAt0 (toUpperCase cs key) of
             None \<Rightarrow> None
           | Some code \<Rightarrow>
               if 0x41 \<le> code \<and> code \<le> 0x5A then Some [word_of_nat (code mod 32)]
               else if key = u '' '' \<or> key = u ''@'' then Some [0]
               else if key = u ''['' then Some ESC
               else if key = [0x5C] then Some [0x1C]
               else if key = u '']'' then Some [0x1D]
               else if key = u ''^'' then Some [0x1E]
               else if key = u ''_'' then Some [0x1F]
               else if key = u ''?'' then Some [0x7F]
               else None)"

definition escaped :: "modifiers \<Rightarrow> js_string \<Rightarrow> js_string" where
  "escaped mods base = (if alt mods \<or> meta mods then ESC @ base else base)"

text \<open>The part of \<open>encodeChord\<close> after the progressive encoding declined.\<close>

definition legacyKey :: "casing \<Rightarrow> js_string \<Rightarrow> modifiers \<Rightarrow> key_modes \<Rightarrow> (key_error, js_string) res" where
  "legacyKey cs key mods modes =
     (let lower = toLowerCase cs key;
          param = modifierParameter mods;
          modified = (param \<noteq> 1)
      in case lookup_text id CURSOR_KEYS lower of
           Some final \<Rightarrow>
             Inr (if modified then CSI @ u ''1;'' @ nat_name param @ final
                  else (if applicationCursorKeys modes then SS3 else CSI) @ final)
         | None \<Rightarrow>
           (case lookup_text nat_name TILDE_KEYS lower of
              Some tilde \<Rightarrow> Inr (if modified then CSI @ tilde @ u '';'' @ nat_name param @ u ''~'' else CSI @ tilde @ u ''~'')
            | None \<Rightarrow>
              (case lookup_text id SS3_FUNCTION_KEYS lower of
                 Some final \<Rightarrow> Inr (if modified then CSI @ u ''1;'' @ nat_name param @ final else SS3 @ final)
               | None \<Rightarrow>
                 if lower = u ''tab'' \<and> shift mods then Inr (CSI @ u ''Z'')
                 else case lookup_text id LITERAL_KEYS lower of
                        Some literal \<Rightarrow>
                          if lower = u ''backspace'' \<and> ctrl mods then Inr [8]
                          else Inr (escaped mods (case encodeControlChar cs literal mods of Some c \<Rightarrow> c | None \<Rightarrow> literal))
                      | None \<Rightarrow>
                          if length (code_points key) \<noteq> 1 then Inl UnknownKeyName
                          else case encodeControlChar cs key mods of
                                 Some control \<Rightarrow> Inr (escaped mods control)
                               | None \<Rightarrow>
                                   if ctrl mods then Inl NoControlEncoding
                                   else Inr (escaped mods (if shift mods then toUpperCase cs key else key)))))"

definition encodeChord :: "casing \<Rightarrow> js_string \<Rightarrow> key_modes \<Rightarrow> (key_error, js_string) res" where
  "encodeChord cs chord modes =
     res_bind (parseChord cs chord) (\<lambda>(key, mods).
       case kittyKey cs key mods (case kittyKeyboardFlags modes of None \<Rightarrow> 0 | Some f \<Rightarrow> f) None of
         Some progressive \<Rightarrow> Inr progressive
       | None \<Rightarrow> legacyKey cs key mods modes)"

section \<open>The encoders\<close>

text \<open>\<open>new TextEncoder().encode(text)\<close>\<close>

definition encodeUtf8 :: "js_string \<Rightarrow> string" where
  "encodeUtf8 s = concat (map utf8_bytes (code_points s))"

definition encodeKeys :: "casing \<Rightarrow> js_string \<Rightarrow> key_modes \<Rightarrow> (key_error, string) res" where
  "encodeKeys cs keys modes =
     (let chords = words_by space_unit keys
      in if chords = [] then Inl NoChords
         else res_map (\<lambda>parts. encodeUtf8 (concat parts)) (res_all (\<lambda>chord. encodeChord cs chord modes) chords))"

text \<open>\<open>text.replace(/\r\n|\n/gu, '\r')\<close>\<close>

fun returns :: "js_string \<Rightarrow> js_string" where
  "returns [] = []"
| "returns [c] = [if c = 10 then 13 else c]"
| "returns (c # d # s) =
     (if c = 13 \<and> d = 10 then 13 # returns s else (if c = 10 then 13 else c) # returns (d # s))"

text \<open>One character of typed text under a kitty mode that reports all keys; \<open>join\<close> writes nothing for \<open>undefined\<close>.\<close>

definition typedCharacter :: "casing \<Rightarrow> (js_string \<Rightarrow> js_string) \<Rightarrow> nat \<Rightarrow> js_string \<Rightarrow> js_string" where
  "typedCharacter cs localeLower flags character =
     (if character = [13] then (case kittyKey cs (u ''Enter'') no_modifiers flags None of None \<Rightarrow> [] | Some t \<Rightarrow> t)
      else let lower = localeLower character;
               shifted = (lower \<noteq> character \<and> length (code_points lower) = 1);
               key = (if shifted then lower else character)
           in case kittyKey cs key (no_modifiers\<lparr>shift := shifted\<rparr>) flags (codePointAt0 character) of None \<Rightarrow> [] | Some t \<Rightarrow> t)"

definition encodeText :: "casing \<Rightarrow> (js_string \<Rightarrow> js_string) \<Rightarrow> js_string \<Rightarrow> key_modes option \<Rightarrow> string" where
  "encodeText cs localeLower text' modes =
     (let flags = (case modes of None \<Rightarrow> 0 | Some m \<Rightarrow> (case kittyKeyboardFlags m of None \<Rightarrow> 0 | Some f \<Rightarrow> f))
      in if \<not> flag flags 8 then encodeUtf8 (returns text')
         else encodeUtf8 (concat (map (typedCharacter cs localeLower flags) (characters (returns text')))))"

definition encodePaste :: "js_string \<Rightarrow> bool \<Rightarrow> string" where
  "encodePaste text' bracketed =
     (let body = returns text' in encodeUtf8 (if bracketed then CSI @ u ''200~'' @ body @ CSI @ u ''201~'' else body))"

definition encodeFocus :: "bool \<Rightarrow> string" where
  "encodeFocus focused = encodeUtf8 (if focused then CSI @ u ''I'' else CSI @ u ''O'')"

end
