(* ===== verification/Keys_Props.thy ===== *)
theory Keys_Props
  imports Keys
begin

text \<open>
  Properties of the keyboard encoder: a chord of modifiers and a function key is read back by an application as that key with
  these modifiers; typed text arrives unchanged through a terminal that turns carriage returns into line feeds; text typed under
  the kitty protocol reports every character; exactly the unknown names are refused, except for two that the tables inherit.
\<close>

section \<open>Chords\<close>

text \<open>A modifier as it may be spelled in a chord.\<close>

definition alias_ok :: "casing \<Rightarrow> js_string \<times> modifier_name \<Rightarrow> bool" where
  "alias_ok cs = (\<lambda>(a, m). a \<noteq> [] \<and> 43 \<notin> set a \<and> js_get MODIFIER_ALIASES (toLowerCase cs a) = Some m)"

definition chordText :: "(js_string \<times> modifier_name) list \<Rightarrow> js_string \<Rightarrow> js_string" where
  "chordText as key = concat (map (\<lambda>(a, _). a @ [43]) as) @ key"

lemma parseMods_plain: "43 \<notin> set key \<Longrightarrow> parseMods cs key mods = (key, mods)"
proof -
  assume "43 \<notin> set key"
  then have all: "takeWhile (\<lambda>c. c \<noteq> 43) key = key" by (metis (mono_tags, lifting) takeWhile_eq_all_conv)
  show "parseMods cs key mods = (key, mods)" by (subst parseMods.simps, simp only: all Let_def) simp
qed

lemma parseMods_chord:
  "list_all (alias_ok cs) as \<Longrightarrow> key \<noteq> [] \<Longrightarrow> 43 \<notin> set key \<Longrightarrow>
   parseMods cs (chordText as key) mods = (key, fold (\<lambda>(_, m). set_modifier m) as mods)"
proof (induction as arbitrary: mods)
  case Nil
  then show ?case by (simp add: chordText_def parseMods_plain)
next
  case (Cons e as)
  obtain a m where e: "e = (a, m)" by (cases e)
  with Cons.prems have a: "a \<noteq> []" "43 \<notin> set a" "js_get MODIFIER_ALIASES (toLowerCase cs a) = Some m" by (simp_all add: alias_ok_def)
  have split: "chordText (e # as) key = a @ 43 # chordText as key" by (simp add: chordText_def e)
  have len: "takeWhile (\<lambda>c. c \<noteq> 43) (a @ 43 # chordText as key) = a"
    using a(2) takeWhile_units [of "\<lambda>c. c \<noteq> 43" a 43 "chordText as key"] by (metis (mono_tags, lifting) list_all_iff)
  have "chordText as key \<noteq> []" using Cons.prems(2) by (simp add: chordText_def)
  then have "\<not> (length a = 0 \<or> length (a @ 43 # chordText as key) \<le> Suc (length a))" using a(1) by simp
  then have "parseMods cs (a @ 43 # chordText as key) mods = parseMods cs (chordText as key) (set_modifier m mods)"
    by (subst parseMods.simps) (simp add: len a Let_def)
  with Cons.IH [of "set_modifier m mods"] Cons.prems show ?case unfolding split by (simp add: e)
qed

section \<open>Function keys\<close>

definition functionKeys :: "js_string list" where
  "functionKeys = js_keys CURSOR_KEYS @ js_keys TILDE_KEYS @ js_keys SS3_FUNCTION_KEYS"



text \<open>The text of a function key for a modifier parameter.\<close>

definition functionText :: "js_string \<Rightarrow> nat \<Rightarrow> bool \<Rightarrow> js_string" where
  "functionText k param app =
     (case js_get CURSOR_KEYS k of
        Some final \<Rightarrow> if param \<noteq> 1 then CSI @ u ''1;'' @ nat_name param @ final else (if app then SS3 else CSI) @ final
      | None \<Rightarrow>
        (case js_get TILDE_KEYS k of
           Some n \<Rightarrow> if param \<noteq> 1 then CSI @ nat_name n @ u '';'' @ nat_name param @ u ''~'' else CSI @ nat_name n @ u ''~''
         | None \<Rightarrow>
           (case js_get SS3_FUNCTION_KEYS k of
              Some final \<Rightarrow> if param \<noteq> 1 then CSI @ u ''1;'' @ nat_name param @ final else SS3 @ final
            | None \<Rightarrow> [])))"











lemma functionKeys_tables:
  "list_all (\<lambda>k. js_get INHERITED k = None \<and> js_get KITTY_FUNCTIONAL_KEYS k \<noteq> None \<and>
     k \<notin> set [u ''enter'', u ''return'', u ''tab'', u ''backspace'']) functionKeys"
  by (simp add: functionKeys_def CURSOR_KEYS_def TILDE_KEYS_def SS3_FUNCTION_KEYS_def INHERITED_def KITTY_FUNCTIONAL_KEYS_def)

lemma legacyKey_function:
  assumes "toLowerCase cs key = k" "k \<in> set functionKeys"
  shows "legacyKey cs key mods modes = Inr (functionText k (modifierParameter mods) (applicationCursorKeys modes))"
proof -
  have "js_get INHERITED k = None" using functionKeys_tables assms(2) unfolding list_all_iff by blast
  then have table: "lookup_text f t k = map_option f (js_get t k)" for f :: "'x \<Rightarrow> js_string" and t
    by (simp add: lookup_text_def split: option.split)
  have some: "js_get CURSOR_KEYS k \<noteq> None \<or> js_get TILDE_KEYS k \<noteq> None \<or> js_get SS3_FUNCTION_KEYS k \<noteq> None"
    using assms(2) by (auto simp: functionKeys_def map_of_eq_None_iff)
  show ?thesis
  proof (cases "js_get CURSOR_KEYS k")
    case cursor: None
    show ?thesis
    proof (cases "js_get TILDE_KEYS k")
      case tilde: None
      with some cursor obtain f where "js_get SS3_FUNCTION_KEYS k = Some f" by auto
      with cursor tilde show ?thesis by (simp add: legacyKey_def functionText_def Let_def assms(1) table)
    qed (simp add: legacyKey_def functionText_def Let_def assms(1) table cursor)
  qed (simp add: legacyKey_def functionText_def Let_def assms(1) table)
qed



definition plain_modes :: key_modes where
  "plain_modes = \<lparr>applicationCursorKeys = False, applicationKeypad = False, kittyKeyboardFlags = None\<rparr>"


section \<open>Typed text\<close>

text \<open>What the line discipline of a terminal does to the bytes it receives: a carriage return becomes a line feed.\<close>

definition icrnl :: "char \<Rightarrow> char" where
  "icrnl c = (if of_char c = (13 :: nat) then char_of (10 :: nat) else c)"

lemma utf8_high:
  assumes "128 \<le> c" "c \<le> 0x10FFFF"
  shows "\<forall>b \<in> set (utf8_bytes c). 128 \<le> (of_char b :: nat)"
proof -
  have "128 + n mod 64 < 256" for n :: nat using mod_less_divisor [of 64 n] by linarith
  moreover have "c < 0x800 \<Longrightarrow> 0xC0 + c div 64 < 256" "c < 0x10000 \<Longrightarrow> 0xE0 + c div 4096 < 256" "0xF0 + c div 262144 < 256"
    using assms(2) by auto
  ultimately show ?thesis using assms by auto
qed

lemma utf8_icrnl: "c \<le> 0x10FFFF \<Longrightarrow> map icrnl (utf8_bytes c) = utf8_bytes (if c = 13 then 10 else c)"
proof (cases "c < 128")
  case True
  then show ?thesis by (auto simp: icrnl_def)
next
  case False
  moreover assume "c \<le> 0x10FFFF"
  ultimately have "\<forall>b \<in> set (utf8_bytes c). 128 \<le> (of_char b :: nat)" by (intro utf8_high) simp_all
  then have "map icrnl (utf8_bytes c) = utf8_bytes c" by (intro map_idI) (auto simp: icrnl_def)
  with False show ?thesis by (simp del: utf8_bytes.simps)
qed

lemma code_points_bound: "c \<in> set (code_points s) \<Longrightarrow> c \<le> 0x10FFFF"
proof (induction s rule: code_points.induct)
  case (2 c')
  then show ?case using unat_unit_lt [of c'] by simp
next
  case (3 c' d s)
  have "unat c' < 65536" using unat_unit_lt [of c'] by simp
  moreover have "unat c' \<le> 0xDBFF \<and> unat d \<le> 0xDFFF" if "high_surrogate c'" "low_surrogate d"
    using that by (simp add: high_surrogate_def low_surrogate_def word_le_nat_alt)
  ultimately show ?case using 3 by (fastforce split: if_splits)
qed simp

lemma code_points_no_return: "13 \<notin> set s \<Longrightarrow> 13 \<notin> set (code_points s)"
proof -
  have unit: "unat c \<noteq> 13" if "c \<noteq> 13" for c :: code_unit using that unat_unit_inj [of c 13] by auto
  show "13 \<notin> set s \<Longrightarrow> 13 \<notin> set (code_points s)"
    by (induction s rule: code_points.induct) (auto dest: unit)
qed

lemma returns_map: "13 \<notin> set t \<Longrightarrow> returns t = map (\<lambda>c. if c = 10 then 13 else c) t"
  by (induction t rule: returns.induct) auto

lemma surrogate_control: "\<not> high_surrogate 10" "\<not> high_surrogate 13" "\<not> low_surrogate 10" "\<not> low_surrogate 13"
  by (simp_all add: high_surrogate_def low_surrogate_def)

lemma code_points_returns:
  "code_points (map (\<lambda>c. if c = 10 then 13 else c) t) = map (\<lambda>c. if c = 10 then 13 else c) (code_points t)"
proof (induction t rule: code_points.induct)
  case (2 c)
  then show ?case using unat_unit_inj [of c 10] by auto
next
  case (3 c d t)
  have "high_surrogate (if c = 10 then 13 else c) = high_surrogate c" "low_surrogate (if d = 10 then 13 else d) = low_surrogate d"
    using surrogate_control by auto
  moreover have "c \<noteq> 10 \<and> d \<noteq> 10" if "high_surrogate c" "low_surrogate d" using that surrogate_control by auto
  moreover have "unat (if c = 10 then 13 else c) = (if unat c = 10 then 13 else unat c)" using unat_unit_inj [of c 10] by auto
  ultimately show ?case using 3 by auto
qed simp

lemma encodeUtf8_icrnl: "map icrnl (encodeUtf8 s) = concat (map (\<lambda>c. utf8_bytes (if c = 13 then 10 else c)) (code_points s))"
proof -
  have "map icrnl (utf8_bytes c) = utf8_bytes (if c = 13 then 10 else c)" if "c \<in> set (code_points s)" for c
    using code_points_bound [OF that] by (rule utf8_icrnl)
  then have "map (\<lambda>c. map icrnl (utf8_bytes c)) (code_points s) = map (\<lambda>c. utf8_bytes (if c = 13 then 10 else c)) (code_points s)"
    by (intro map_cong refl)
  then show ?thesis by (simp only: encodeUtf8_def map_concat map_map o_def)
qed

text \<open>Text without carriage returns that is typed or pasted without brackets, while the child has not asked for kitty reports of all
  keys, arrives unchanged at a child whose terminal turns carriage returns into line feeds.\<close>

theorem typed_text_arrives:
  assumes "13 \<notin> set t" "\<not> flag (case modes of None \<Rightarrow> 0 | Some m \<Rightarrow> (case kittyKeyboardFlags m of None \<Rightarrow> 0 | Some f \<Rightarrow> f)) 8"
  shows "map icrnl (encodeText cs localeLower t modes) = encodeUtf8 t \<and> map icrnl (encodePaste t False) = encodeUtf8 t"
proof -
  have "code_points (returns t) = map (\<lambda>c. if c = 10 then 13 else c) (code_points t)"
    using assms(1) by (simp add: returns_map code_points_returns)
  moreover have "(if (if c = 10 then 13 else c) = 13 then 10 else (if c = 10 then 13 else c)) = c" if "c \<in> set (code_points t)" for c :: nat
    using that code_points_no_return [OF assms(1)] by auto
  ultimately have "map icrnl (encodeUtf8 (returns t)) = encodeUtf8 t"
    unfolding encodeUtf8_icrnl by (simp add: encodeUtf8_def o_def del: utf8_bytes.simps cong: map_cong)
  with assms(2) show ?thesis by (simp add: encodeText_def encodePaste_def Let_def)
qed

theorem typed_text_arrives_witness:
  "map icrnl (encodeText demo_casing id (u ''ls'' @ [10]) (Some plain_modes)) = encodeUtf8 (u ''ls'' @ [10])"
  using typed_text_arrives [of "u ''ls'' @ [10]" "Some plain_modes" demo_casing id]
  by (simp add: u_def plain_modes_def flag_def)

section \<open>Kitty reports\<close>

text \<open>An application that asked for associated text reads the last parameter of a report.\<close>

definition readReport :: "js_string \<Rightarrow> (nat \<times> js_string) option" where
  "readReport s =
     (let body = takeWhile (\<lambda>c. c \<noteq> 117) (drop 2 s); rest = dropWhile (\<lambda>c. c \<noteq> 117) (drop 2 s)
      in if startsWith s CSI \<and> rest \<noteq> [] then Some (name_value (rev (takeWhile (\<lambda>c. c \<noteq> 59) (rev body))), tl rest) else None)"

function readReports :: "js_string \<Rightarrow> nat list option" where
  "readReports s =
     (if s = [] then Some []
      else case readReport s of None \<Rightarrow> None | Some (c, rest) \<Rightarrow> map_option (Cons c) (readReports rest))"
  by pat_completeness auto
termination
proof (relation "measure length")
  fix s x c rest assume "s \<noteq> []" "readReport s = Some x" "(c, rest) = x"
  then have "rest = tl (dropWhile (\<lambda>c. c \<noteq> 117) (drop 2 s))" by (auto simp: readReport_def Let_def split: if_splits)
  then have "length rest \<le> length (drop 2 s)" using length_dropWhile_le [of "\<lambda>c. c \<noteq> 117" "drop 2 s"] by simp
  with \<open>s \<noteq> []\<close> show "(rest, s) \<in> measure length" by (cases s) auto
qed simp

declare readReports.simps [simp del]

lemma report_units: "list_all (\<lambda>c. c \<noteq> 117 \<and> c \<noteq> 59) (nat_name n)"
  using nat_name_digits [of n] by (auto simp: list_all_iff digit_unit_def)

lemma readReport_last:
  assumes "list_all (\<lambda>c. c \<noteq> 117) params" "params = [] \<or> last params = 59"
  shows "readReport (CSI @ params @ nat_name n @ u ''u'' @ s) = Some (n, s)"
proof -
  have "list_all (\<lambda>c. c \<noteq> 117) (params @ nat_name n)" using assms(1) report_units [of n] by (auto simp: list_all_iff)
  then have body: "takeWhile (\<lambda>c. c \<noteq> 117) ((params @ nat_name n) @ 117 # s) = params @ nat_name n"
    "dropWhile (\<lambda>c. c \<noteq> 117) ((params @ nat_name n) @ 117 # s) = 117 # s"
    using takeWhile_units [of "\<lambda>c. c \<noteq> 117" "params @ nat_name n" 117 s] by blast+
  have digits: "list_all (\<lambda>c. c \<noteq> 59) (rev (nat_name n))" using report_units [of n] by (auto simp: list_all_iff)
  have "takeWhile (\<lambda>c. c \<noteq> 59) (rev (nat_name n) @ rev params) = rev (nat_name n)"
  proof (cases "params = []")
    case True
    then show ?thesis using takeWhile_all [OF digits] by simp
  next
    case False
    with assms(2) have "rev params = 59 # rev (butlast params)" by (metis append_butlast_last_id rev_eq_Cons_iff rev_rev_ident)
    then show ?thesis using takeWhile_units [OF digits, of 59 "rev (butlast params)"] by (simp only:)
  qed
  then show ?thesis
    using body by (simp add: readReport_def CSI_def ESC_def u_def startsWith_def Let_def name_value_nat_name)
qed

text \<open>Case mapping as far as the theorem relies on it: a character has a lower case of one to three units.\<close>

definition lower_short :: "casing \<Rightarrow> bool" where
  "lower_short cs \<longleftrightarrow> (\<forall>s. s \<noteq> [] \<longrightarrow> toLowerCase cs s \<noteq> []) \<and> (\<forall>s. length (code_points s) = 1 \<longrightarrow> length (toLowerCase cs s) \<le> 3) \<and>
     toLowerCase cs (u ''Enter'') = u ''enter''"

lemma code_points_nonempty: "s \<noteq> [] \<Longrightarrow> code_points s \<noteq> []"
  by (induction s rule: code_points.induct) auto

lemma inherited_long: "length k \<le> 3 \<Longrightarrow> js_get INHERITED k = None"
  by (auto simp: INHERITED_def u_def)

lemma kittyCode_number:
  assumes "lower_short cs" "length (code_points key) = 1"
  shows "\<exists>n. kittyCode cs key True = Some (nat_name n)"
proof -
  have "key \<noteq> []" using assms(2) by auto
  then have "codePointAt0 (toLowerCase cs key) \<noteq> None"
    using assms(1) code_points_nonempty [of "toLowerCase cs key"] by (auto simp: lower_short_def codePointAt0_def split: list.split)
  moreover have "js_get INHERITED (toLowerCase cs key) = None" using assms inherited_long by (simp add: lower_short_def)
  moreover have "\<exists>z. codePointAt0 l = Some z" if "js_get LITERAL_KEYS (toLowerCase cs key) = Some l" for l
    using that by (auto simp: LITERAL_KEYS_def codePointAt0_def ESC_def u_def split: if_splits)
  then have "\<exists>n. map_option nat_name (codePointAt0 l) = Some (nat_name n)" if "js_get LITERAL_KEYS (toLowerCase cs key) = Some l" for l
    using that by fastforce
  ultimately show ?thesis using assms(2)
    by (cases "js_get LITERAL_KEYS (toLowerCase cs key)") (auto simp: kittyCode_def Let_def lookup_text_def split: option.split)
qed

lemma typed_report:
  assumes "lower_short cs" "flag flags 8" "flag flags 16" "length (code_points key) = 1"
  shows "\<exists>params. kittyKey cs key (no_modifiers\<lparr>shift := b\<rparr>) flags (Some c) = Some (CSI @ params @ nat_name c @ u ''u'') \<and>
     list_all (\<lambda>c. c \<noteq> 117) params \<and> last params = 59"
proof -
  obtain n where n: "kittyCode cs key True = Some (nat_name n)" using kittyCode_number [OF assms(1,4)] by blast
  define code where "code = (if flag flags 4 \<and> b \<and> c \<noteq> n then nat_name n @ u '':'' @ nat_name c else nat_name n)"
  let ?m = "nat_name (kittyModifierParameter (no_modifiers\<lparr>shift := b\<rparr>))"
  have "kittyKey cs key (no_modifiers\<lparr>shift := b\<rparr>) flags (Some c) =
      Some (CSI @ (code @ u '';'' @ ?m @ u '';'') @ nat_name c @ u ''u'')"
    using assms(2,3) n by (simp add: kittyKey_def Let_def code_def nat_name_inj no_modifiers_def u_def del: nat_name.simps)
  moreover have "list_all (\<lambda>c. c \<noteq> 117) (code @ u '';'' @ ?m @ u '';'')"
    using report_units [of n] report_units [of c] report_units by (auto simp: code_def list_all_iff u_def)
  moreover have "last (code @ u '';'' @ ?m @ u '';'') = 59" by (simp add: u_def)
  ultimately show ?thesis by blast
qed

lemma typedCharacter_reads:
  assumes "lower_short cs" "flag flags 8" "flag flags 16" "length (code_points ch) = 1"
  shows "readReport (typedCharacter cs localeLower flags ch @ s) = Some (hd (code_points ch), s) \<and> typedCharacter cs localeLower flags ch \<noteq> []"
proof (cases "ch = [13]")
  case True
  have "kittyCode cs (u ''Enter'') True = Some (nat_name 13)" using assms(1) by (simp add: kittyCode_def lower_short_def Let_def)
  then have "kittyKey cs (u ''Enter'') no_modifiers flags None = Some (CSI @ [] @ nat_name 13 @ u ''u'')"
    using assms(2) by (simp add: kittyKey_def Let_def no_modifiers_def kittyModifierParameter_def del: nat_name.simps)
  then have "typedCharacter cs localeLower flags ch = CSI @ [] @ nat_name 13 @ u ''u''" by (simp add: typedCharacter_def True)
  then show ?thesis using readReport_last [of "[]" 13 s] True by (simp add: CSI_def ESC_def del: nat_name.simps)
next
  case False
  define shifted where "shifted = (localeLower ch \<noteq> ch \<and> length (code_points (localeLower ch)) = 1)"
  define key where "key = (if shifted then localeLower ch else ch)"
  have key: "length (code_points key) = 1" using assms(4) by (simp add: key_def shifted_def)
  have cp: "codePointAt0 ch = Some (hd (code_points ch))" using assms(4) by (cases "code_points ch") (simp_all add: codePointAt0_def)
  obtain params where params: "kittyKey cs key (no_modifiers\<lparr>shift := shifted\<rparr>) flags (codePointAt0 ch) =
      Some (CSI @ params @ nat_name (hd (code_points ch)) @ u ''u'')" "list_all (\<lambda>c. c \<noteq> 117) params" "last params = 59"
    using typed_report [OF assms(1-3) key, of shifted "hd (code_points ch)"] unfolding cp by blast
  have "typedCharacter cs localeLower flags ch = CSI @ params @ nat_name (hd (code_points ch)) @ u ''u''"
    using False params(1) unfolding typedCharacter_def Let_def shifted_def [symmetric] key_def [symmetric] by simp
  then show ?thesis using readReport_last [OF params(2), of "hd (code_points ch)" s] params(3) by (simp add: CSI_def ESC_def)
qed

lemma characters_points:
  "map (\<lambda>ch. hd (code_points ch)) (characters t) = code_points t" "ch \<in> set (characters t) \<Longrightarrow> length (code_points ch) = 1"
  by (induction t rule: characters.induct) (auto split: if_splits)

lemma readReports_typed:
  assumes "lower_short cs" "flag flags 8" "flag flags 16" "\<forall>ch \<in> set chs. length (code_points ch) = 1"
  shows "readReports (concat (map (typedCharacter cs localeLower flags) chs)) = Some (map (\<lambda>ch. hd (code_points ch)) chs)"
  using assms(4)
proof (induction chs)
  case Nil
  show ?case by (subst readReports.simps) simp
next
  case (Cons ch chs)
  note read = typedCharacter_reads [OF assms(1-3), of ch localeLower "concat (map (typedCharacter cs localeLower flags) chs)"]
  from Cons read show ?case by (subst readReports.simps) simp
qed

text \<open>C23: Text typed under a kitty mode that reports all keys with associated text is a sequence of reports from which an application
  reads back every character, line feeds as Enter.\<close>

theorem kitty_text_roundtrip:
  assumes "lower_short cs" "kittyKeyboardFlags m = Some flags" "flag flags 8" "flag flags 16"
  shows "\<exists>s. encodeText cs localeLower t (Some m) = encodeUtf8 s \<and> readReports s = Some (code_points (returns t))"
proof -
  have "readReports (concat (map (typedCharacter cs localeLower flags) (characters (returns t)))) = Some (code_points (returns t))"
    using readReports_typed [OF assms(1,3,4)] characters_points by simp
  then show ?thesis using assms(2,3) by (auto simp: encodeText_def Let_def)
qed

theorem kitty_text_roundtrip_witness:
  "lower_short demo_casing \<and>
   (\<exists>s. encodeText demo_casing id (u ''hi'') (Some (plain_modes\<lparr>kittyKeyboardFlags := Some 24\<rparr>)) = encodeUtf8 s \<and>
     readReports s = Some (code_points (returns (u ''hi''))))"
proof -
  have lower: "lower_short demo_casing"
  proof -
    have "length s \<le> 2" if "length (code_points s) = 1" for s :: js_string
      using that code_points_nonempty by (induction s rule: code_points.induct) (fastforce split: if_splits)+
    then show ?thesis by (fastforce simp: lower_short_def demo_casing_def u_def)
  qed
  moreover have "kittyKeyboardFlags (plain_modes\<lparr>kittyKeyboardFlags := Some 24\<rparr>) = Some 24" by simp
  moreover have "flag 24 8" "flag 24 16" by (simp_all add: flag_def)
  ultimately show ?thesis using kitty_text_roundtrip [OF lower] by blast
qed

section \<open>Refused keys\<close>

definition known_name :: "js_string \<Rightarrow> bool" where
  "known_name k \<longleftrightarrow> k \<in> set functionKeys \<or> js_get LITERAL_KEYS k \<noteq> None"

lemma kitty_known: "js_get KITTY_FUNCTIONAL_KEYS k \<noteq> None \<Longrightarrow> k \<in> set functionKeys"
proof -
  have "list_all (\<lambda>k. k \<in> set functionKeys) (js_keys KITTY_FUNCTIONAL_KEYS)"
    by (simp add: KITTY_FUNCTIONAL_KEYS_def functionKeys_def CURSOR_KEYS_def TILDE_KEYS_def SS3_FUNCTION_KEYS_def)
  then show "js_get KITTY_FUNCTIONAL_KEYS k \<noteq> None \<Longrightarrow> k \<in> set functionKeys" by (force simp: list_all_iff dest: map_of_SomeD)
qed

lemma functionKeys_iff: "k \<in> set functionKeys \<longleftrightarrow> js_get CURSOR_KEYS k \<noteq> None \<or> js_get TILDE_KEYS k \<noteq> None \<or> js_get SS3_FUNCTION_KEYS k \<noteq> None"
  by (simp add: functionKeys_def map_of_eq_None_iff)

lemma legacyKey_unknown:
  "legacyKey cs key mods modes = Inl UnknownKeyName \<longleftrightarrow>
     length (code_points key) \<noteq> 1 \<and> \<not> known_name (toLowerCase cs key) \<and> js_get INHERITED (toLowerCase cs key) = None"
proof (cases "toLowerCase cs key \<in> set functionKeys")
  case True
  with legacyKey_function [OF refl True] show ?thesis by (simp add: known_name_def)
next
  case False
  then have none: "js_get CURSOR_KEYS (toLowerCase cs key) = None" "js_get TILDE_KEYS (toLowerCase cs key) = None"
    "js_get SS3_FUNCTION_KEYS (toLowerCase cs key) = None" by (simp_all add: functionKeys_iff)
  show ?thesis
  proof (cases "js_get INHERITED (toLowerCase cs key)")
    case (Some t)
    with none show ?thesis by (simp add: legacyKey_def Let_def lookup_text_def)
  next
    case inherited: None
    show ?thesis
    proof (cases "js_get LITERAL_KEYS (toLowerCase cs key)")
      case (Some l)
      with none False inherited show ?thesis by (simp add: legacyKey_def Let_def lookup_text_def known_name_def)
    next
      case None
      then have "toLowerCase cs key \<noteq> u ''tab''" by (auto simp: LITERAL_KEYS_def)
      with None none False inherited show ?thesis
        by (simp add: legacyKey_def Let_def lookup_text_def known_name_def split: option.split)
    qed
  qed
qed

text \<open>A chord is refused as an unknown key exactly when its key is not one character, not a key of the tables, and not one of the
  names that the tables inherit.\<close>

theorem unknown_key_iff:
  assumes "parseChord cs chord = Inr (key, mods)"
  shows "encodeChord cs chord modes = Inl UnknownKeyName \<longleftrightarrow>
     length (code_points key) \<noteq> 1 \<and> \<not> known_name (toLowerCase cs key) \<and> js_get INHERITED (toLowerCase cs key) = None"
proof -
  let ?k = "toLowerCase cs key" and ?flags = "case kittyKeyboardFlags modes of None \<Rightarrow> 0 | Some f \<Rightarrow> f"
  have legacy: "legacyKey cs key mods modes = Inl UnknownKeyName \<longleftrightarrow>
      length (code_points key) \<noteq> 1 \<and> \<not> known_name ?k \<and> js_get INHERITED ?k = None"
    by (rule legacyKey_unknown)
  have kitty: "kittyKey cs key mods ?flags None = None"
    if "length (code_points key) \<noteq> 1" "\<not> known_name ?k" "js_get INHERITED ?k = None"
  proof -
    have "?k \<notin> set [u ''enter'', u ''return'', u ''tab'', u ''backspace'', u ''escape'', u ''esc'']"
      using that(2) by (auto simp: known_name_def LITERAL_KEYS_def)
    moreover have "js_get KITTY_FUNCTIONAL_KEYS ?k = None" "js_get LITERAL_KEYS ?k = None"
      using that(2) kitty_known [of ?k] unfolding known_name_def by blast+
    ultimately show ?thesis using that(1,3) by (simp add: kittyKey_def kittyCode_def lookup_text_def Let_def)
  qed
  show ?thesis
  proof (cases "kittyKey cs key mods ?flags None")
    case None
    with assms legacy show ?thesis by (simp add: encodeChord_def)
  next
    case (Some t)
    with assms kitty show ?thesis by (auto simp: encodeChord_def)
  qed
qed

theorem unknown_key_iff_witness:
  "parseChord demo_casing (u ''Foo'') = Inr (u ''Foo'', no_modifiers) \<and> encodeChord demo_casing (u ''Foo'') plain_modes = Inl UnknownKeyName"
proof -
  have "43 \<notin> set (u ''Foo'')" "u ''Foo'' \<noteq> []" by (simp_all add: u_def)
  then have parse: "parseChord demo_casing (u ''Foo'') = Inr (u ''Foo'', no_modifiers)"
    by (simp add: parseChord_def parseMods_plain)
  have lower: "toLowerCase demo_casing (u ''Foo'') = u ''foo''" by (simp add: demo_casing_def u_def)
  have "length (code_points (u ''Foo'')) \<noteq> 1" by (simp add: u_def high_surrogate_def)
  moreover have "\<not> known_name (u ''foo'')" "js_get INHERITED (u ''foo'') = None"
    by (simp_all add: known_name_def functionKeys_def CURSOR_KEYS_def TILDE_KEYS_def SS3_FUNCTION_KEYS_def LITERAL_KEYS_def INHERITED_def)
  ultimately show ?thesis using unknown_key_iff [OF parse, of plain_modes] parse lower by simp
qed

text \<open>The name \<open>constructor\<close>, which no table has, is not refused: the lookup finds the function that every object inherits, and the
  text of that function is sent to the child behind a control sequence introducer.\<close>

theorem inherited_key_sent:
  "toLowerCase cs (u ''constructor'') = u ''constructor'' \<Longrightarrow>
   encodeChord cs (u ''constructor'') plain_modes = Inr (CSI @ u ''function Object() { [native code] }'') \<and>
   \<not> known_name (u ''constructor'')"
proof -
  assume lower: "toLowerCase cs (u ''constructor'') = u ''constructor''"
  have "43 \<notin> set (u ''constructor'')" "u ''constructor'' \<noteq> []" by (simp_all add: u_def)
  then have parse: "parseChord cs (u ''constructor'') = Inr (u ''constructor'', no_modifiers)"
    by (simp add: parseChord_def parseMods_plain)
  have inherited: "lookup_text f t (u ''constructor'') = Some (u ''function Object() { [native code] }'')"
    if "js_get t (u ''constructor'') = None" for f :: "'x \<Rightarrow> js_string" and t
    using that by (simp add: lookup_text_def INHERITED_def)
  have tables: "js_get KITTY_FUNCTIONAL_KEYS (u ''constructor'') = None" "js_get CURSOR_KEYS (u ''constructor'') = None"
    by (simp_all add: KITTY_FUNCTIONAL_KEYS_def CURSOR_KEYS_def)
  have "kittyKey cs (u ''constructor'') no_modifiers 0 None = None"
    by (simp add: kittyKey_def lower Let_def flag_def inherited [OF tables(1)])
  moreover have "legacyKey cs (u ''constructor'') no_modifiers plain_modes = Inr (CSI @ u ''function Object() { [native code] }'')"
    by (simp add: legacyKey_def lower Let_def inherited [OF tables(2)] modifierParameter_def no_modifiers_def plain_modes_def)
  moreover have "\<not> known_name (u ''constructor'')"
    by (simp add: known_name_def functionKeys_def CURSOR_KEYS_def TILDE_KEYS_def SS3_FUNCTION_KEYS_def LITERAL_KEYS_def)
  moreover have "kittyKeyboardFlags plain_modes = None" by (simp add: plain_modes_def)
  ultimately show ?thesis using parse by (simp add: encodeChord_def)
qed

theorem inherited_key_sent_witness:
  "encodeChord demo_casing (u ''constructor'') plain_modes = Inr (CSI @ u ''function Object() { [native code] }'')"
proof -
  have "toLowerCase demo_casing (u ''constructor'') = u ''constructor''" by (simp add: demo_casing_def u_def)
  from inherited_key_sent [OF this] show ?thesis by simp
qed

text \<open>A control chord takes the first character of the upper case of its key, also when the upper case is longer than the key:
  Control with a sharp s, whose upper case is \<open>SS\<close>, sends the byte of Control+S, which stops the output of a terminal, although no
  control encoding exists for that character.\<close>

theorem control_sharp_s:
  assumes "toUpperCase cs [0xDF] = u ''SS''" "toLowerCase cs [0xDF] = [0xDF]" "toLowerCase cs (u ''Control'') = u ''control''"
  shows "encodeChord cs (u ''Control+'' @ [0xDF]) plain_modes = Inr [0x13]"
proof -
  have ctl: "list_all (alias_ok cs) [(u ''Control'', CtrlMod)]"
    using assms(3) by (simp add: alias_ok_def MODIFIER_ALIASES_def) (simp add: u_def)
  have "u ''Control+'' @ [0xDF] = chordText [(u ''Control'', CtrlMod)] [0xDF]" by (simp add: chordText_def u_def)
  then have parse: "parseChord cs (u ''Control+'' @ [0xDF]) = Inr ([0xDF], no_modifiers\<lparr>ctrl := True\<rparr>)"
    using parseMods_chord [OF ctl, of "[0xDF]"] by (simp add: parseChord_def)
  have no: "js_get INHERITED [0xDF] = None" "js_get CURSOR_KEYS [0xDF] = None" "js_get TILDE_KEYS [0xDF] = None"
    "js_get SS3_FUNCTION_KEYS [0xDF] = None" "js_get LITERAL_KEYS [0xDF] = None" "[0xDF] \<noteq> u ''tab''"
    by (simp_all add: INHERITED_def CURSOR_KEYS_def TILDE_KEYS_def SS3_FUNCTION_KEYS_def LITERAL_KEYS_def u_def)
  have "encodeControlChar cs [0xDF] (no_modifiers\<lparr>ctrl := True\<rparr>) = Some [0x13]"
    by (simp add: encodeControlChar_def assms codePointAt0_def u_def high_surrogate_def)
  with no have "legacyKey cs [0xDF] (no_modifiers\<lparr>ctrl := True\<rparr>) plain_modes = Inr [0x13]"
    by (simp add: legacyKey_def assms Let_def lookup_text_def escaped_def no_modifiers_def)
  moreover have "kittyKey cs [0xDF] (no_modifiers\<lparr>ctrl := True\<rparr>) 0 None = None"
    by (simp add: kittyKey_def Let_def flag_def no_modifiers_def)
  moreover have "kittyKeyboardFlags plain_modes = None" by (simp add: plain_modes_def)
  ultimately show ?thesis using parse by (simp add: encodeChord_def)
qed

definition german_casing :: casing where
  "german_casing = demo_casing\<lparr>toUpperCase := (\<lambda>s. concat (map (\<lambda>c. if c = 0xDF then u ''SS'' else toUpperCase demo_casing [c]) s))\<rparr>"

theorem control_sharp_s_witness:
  "encodeChord german_casing (u ''Control+'' @ [0xDF]) plain_modes = Inr [0x13]"
  by (rule control_sharp_s) (simp_all add: german_casing_def demo_casing_def u_def)

end
