(* ===== verification/Sanitizer.thy ===== *)
theory Sanitizer
  imports JsText
begin

text \<open>
  The sanitizer that terminal output passes before it enters a trace (\<open>src/packages/trace/src/terminal-sanitizer.ts\<close>).

  \<^item> The text is cut into tokens: a visible character, or a whole control sequence. The tokens of the text that a secret could still
    begin in are kept back; secrets are looked for in the visible text of these, so that control sequences inside a secret do not
    hide it.
  \<^item> A pattern is what its expression finds: the bounds of the matches that \<open>matchAll\<close> returns, and whether it has the flag \<open>g\<close>,
    without which \<open>replace\<close> replaces the first match only.
  \<^item> \<open>mask_env\<close> holds \<open>Intl.Segmenter\<close> and \<open>measureTextCellWidth\<close> of another package.
\<close>

section \<open>Policy and state\<close>

datatype artifact_mode = ModeNone | ModeRedacted | ModeRaw

record redaction_rule =
  ruleFind :: "js_string \<Rightarrow> (nat \<times> nat) list"
  ruleGlobal :: bool
  maxMatchChars :: nat

record security_policy =
  polMode :: artifact_mode
  polPatterns :: "redaction_rule list"
  maxTerminalPendingBytes :: nat

record mask_env =
  segments :: "js_string \<Rightarrow> js_string list"
  cellWidthOf :: "js_string \<Rightarrow> nat"

record token =
  tokRaw :: js_string
  tokVisible :: js_string

datatype control_kind = KindEsc | KindCsi | KindString

record sanitizer =
  sanSecrets :: "js_string list"
  sanTokens :: "token list"
  sanControl :: js_string
  sanKind :: "control_kind option"
  stringEsc :: bool

datatype trace_error = Capacity | UnterminatedControl

text \<open>\<open>value.split(/\r?\n/u)\<close>\<close>

fun splitLines :: "js_string \<Rightarrow> js_string list" where
  "splitLines [] = [[]]"
| "splitLines (c # s) =
     (if c = 10 then [] # splitLines s
      else if c = 13 \<and> take 1 s = [10] then [] # splitLines (drop 1 s)
      else case splitLines s of [] \<Rightarrow> [[c]] | l # ls \<Rightarrow> (c # l) # ls)"

definition register :: "js_string \<Rightarrow> sanitizer \<Rightarrow> sanitizer" where
  "register value s =
     s\<lparr>sanSecrets := fold (\<lambda>line secrets. if line = [] \<or> line \<in> set secrets then secrets else secrets @ [line]) (splitLines value) (sanSecrets s)\<rparr>"

definition createSanitizer :: "js_string list \<Rightarrow> sanitizer" where
  "createSanitizer secrets =
     fold register secrets \<lparr>sanSecrets = [], sanTokens = [], sanControl = [], sanKind = None, stringEsc = False\<rparr>"

section \<open>Control sequences\<close>

definition REDACTED :: js_string where
  "REDACTED = u ''[redacted]''"

text \<open>A text with the given ranges replaced, from an index on.\<close>

fun replaceFrom :: "nat \<Rightarrow> js_string \<Rightarrow> (nat \<times> nat) list \<Rightarrow> js_string" where
  "replaceFrom i t [] = drop i t"
| "replaceFrom i t ((start, end') # rs) = take (start - i) (drop i t) @ REDACTED @ replaceFrom end' t rs"

text \<open>\<open>t.split(secret).join('[redacted]')\<close>\<close>

definition splitJoin :: "js_string \<Rightarrow> js_string \<Rightarrow> js_string" where
  "splitJoin secret t = replaceFrom 0 t (literalLoop t secret 0)"

definition assertPatternBound :: "redaction_rule \<Rightarrow> (nat \<times> nat) list \<Rightarrow> (trace_error, unit) res" where
  "assertPatternBound r ms = (if list_ex (\<lambda>(start, end'). end' - start > maxMatchChars r) ms then Inl Capacity else Inr ())"

definition replacePattern :: "redaction_rule \<Rightarrow> js_string \<Rightarrow> (trace_error, js_string) res" where
  "replacePattern r t =
     (let ms = (if ruleGlobal r then ruleFind r t else take 1 (ruleFind r t))
      in res_map (\<lambda>_. replaceFrom 0 t ms) (assertPatternBound r ms))"

definition sanitizeControl :: "security_policy \<Rightarrow> js_string list \<Rightarrow> js_string \<Rightarrow> (trace_error, js_string) res" where
  "sanitizeControl p secrets control =
     fold (\<lambda>r t. res_bind t (replacePattern r)) (polPatterns p) (Inr (fold splitJoin secrets control))"

definition finishControl :: "security_policy \<Rightarrow> sanitizer \<Rightarrow> (trace_error, sanitizer) res" where
  "finishControl p s =
     res_map (\<lambda>raw. s\<lparr>sanTokens := sanTokens s @ [\<lparr>tokRaw = raw, tokVisible = []\<rparr>], sanControl := [], sanKind := None, stringEsc := False\<rparr>)
       (sanitizeControl p (sanSecrets s) (sanControl s))"

section \<open>Tokens\<close>

definition tokenizeCharacter :: "security_policy \<Rightarrow> js_string \<Rightarrow> sanitizer \<Rightarrow> (trace_error, sanitizer) res" where
  "tokenizeCharacter p character s =
     (case sanKind s of
        None \<Rightarrow>
          Inr (if character = [0x1B] then s\<lparr>sanControl := character, sanKind := Some KindEsc\<rparr>
               else s\<lparr>sanTokens := sanTokens s @ [\<lparr>tokRaw = character, tokVisible = character\<rparr>]\<rparr>)
      | Some kind \<Rightarrow>
          let s1 = s\<lparr>sanControl := sanControl s @ character\<rparr>
          in case kind of
               KindEsc \<Rightarrow>
                 if character = u ''['' then Inr (s1\<lparr>sanKind := Some KindCsi\<rparr>)
                 else if character \<in> {u '']'', u ''P'', u ''_'', u ''^''} then Inr (s1\<lparr>sanKind := Some KindString\<rparr>)
                 else finishControl p s1
             | KindCsi \<Rightarrow>
                 let code = (case code_points character of [] \<Rightarrow> 0 | c # _ \<Rightarrow> c)
                 in if 0x40 \<le> code \<and> code \<le> 0x7E then finishControl p s1 else Inr s1
             | KindString \<Rightarrow>
                 if character = [7] \<or> (stringEsc s1 \<and> character = [0x5C]) then finishControl p s1
                 else Inr (s1\<lparr>stringEsc := (character = [0x1B])\<rparr>))"

primrec tokenizeAll :: "security_policy \<Rightarrow> js_string list \<Rightarrow> sanitizer \<Rightarrow> (trace_error, sanitizer) res" where
  "tokenizeAll p [] s = Inr s"
| "tokenizeAll p (c # cs) s = res_bind (tokenizeCharacter p c s) (tokenizeAll p cs)"

definition tokenize :: "security_policy \<Rightarrow> js_string \<Rightarrow> sanitizer \<Rightarrow> (trace_error, sanitizer) res" where
  "tokenize p t s = tokenizeAll p (characters t) s"

section \<open>Redaction\<close>

definition maskGeometry :: "mask_env \<Rightarrow> js_string \<Rightarrow> js_string" where
  "maskGeometry env t =
     concat (map (\<lambda>segment. if segment = [13] \<or> segment = [10] then segment else replicate (cellWidthOf env segment) 0x2588) (segments env t))"

definition visibleText :: "token list \<Rightarrow> js_string" where
  "visibleText ts = concat (map tokVisible ts)"

definition part :: "js_string \<Rightarrow> nat \<times> nat \<Rightarrow> js_string" where
  "part t = (\<lambda>(start, end'). take (end' - start) (drop start t))"

definition secretRanges :: "mask_env \<Rightarrow> js_string \<Rightarrow> js_string \<Rightarrow> (nat \<times> nat \<times> js_string) list" where
  "secretRanges env visible secret = map (\<lambda>(start, end'). (start, end', maskGeometry env secret)) (literalLoop visible secret 0)"

definition patternRanges :: "mask_env \<Rightarrow> js_string \<Rightarrow> redaction_rule \<Rightarrow> (trace_error, (nat \<times> nat \<times> js_string) list) res" where
  "patternRanges env visible r =
     (let ms = filter (\<lambda>(start, end'). start \<noteq> end') (ruleFind r visible)
      in res_map (\<lambda>_. map (\<lambda>(start, end'). (start, end', maskGeometry env (part visible (start, end')))) ms) (assertPatternBound r ms))"

text \<open>The loop over the tokens for one range, with the offset of the first token.\<close>

fun replaceVisibleRange :: "nat \<Rightarrow> bool \<Rightarrow> nat \<times> nat \<times> js_string \<Rightarrow> token list \<Rightarrow> token list" where
  "replaceVisibleRange offset placed rng [] = []"
| "replaceVisibleRange offset placed (start, end', blocks) (t # ts) =
     (let nxt = offset + length (tokVisible t)
      in if tokVisible t \<noteq> [] \<and> nxt > start \<and> offset < end'
         then t\<lparr>tokRaw := if placed then [] else blocks\<rparr> # replaceVisibleRange nxt True (start, end', blocks) ts
         else t # replaceVisibleRange nxt placed (start, end', blocks) ts)"

definition redactPending :: "mask_env \<Rightarrow> security_policy \<Rightarrow> sanitizer \<Rightarrow> (trace_error, sanitizer) res" where
  "redactPending env p s =
     (let visible = visibleText (sanTokens s)
      in res_map (\<lambda>found.
           let ranges = sort_key (\<lambda>r. - int (fst r)) (concat (map (secretRanges env visible) (sanSecrets s)) @ concat found)
           in s\<lparr>sanTokens := fold (replaceVisibleRange 0 False) ranges (sanTokens s)\<rparr>)
         (res_all (patternRanges env visible) (polPatterns p)))"

section \<open>Output\<close>

definition longestSecret :: "security_policy \<Rightarrow> js_string list \<Rightarrow> nat" where
  "longestSecret p secrets = fold max (map maxMatchChars (polPatterns p)) (fold max (map length secrets) 1)"

fun flushCount :: "nat \<Rightarrow> nat \<Rightarrow> token list \<Rightarrow> nat" where
  "flushCount seen limit [] = 0"
| "flushCount seen limit (t # ts) =
     (if tokVisible t \<noteq> [] \<and> seen + length (tokVisible t) > limit then 0
      else Suc (flushCount (seen + length (tokVisible t)) limit ts))"

definition flush :: "security_policy \<Rightarrow> bool \<Rightarrow> sanitizer \<Rightarrow> js_string \<times> sanitizer" where
  "flush p all s =
     (let keep = (if all then 0 else longestSecret p (sanSecrets s) - 1);
          total = length (visibleText (sanTokens s));
          count = flushCount 0 (total - keep) (sanTokens s)
      in (concat (map tokRaw (take count (sanTokens s))), s\<lparr>sanTokens := drop count (sanTokens s)\<rparr>))"

definition assertBounded :: "security_policy \<Rightarrow> sanitizer \<Rightarrow> (trace_error, unit) res" where
  "assertBounded p s =
     (if utf8_length (sanControl s) + sum_list (map (utf8_length \<circ> tokRaw) (sanTokens s)) > maxTerminalPendingBytes p
      then Inl Capacity else Inr ())"

definition sanPush :: "mask_env \<Rightarrow> security_policy \<Rightarrow> js_string \<Rightarrow> sanitizer \<Rightarrow> (trace_error, js_string \<times> sanitizer) res" where
  "sanPush env p t s =
     (case polMode p of
        ModeRaw \<Rightarrow> Inr (t, s)
      | ModeNone \<Rightarrow> Inr ([], s)
      | ModeRedacted \<Rightarrow>
          res_bind (tokenize p t s) (\<lambda>s. res_bind (redactPending env p s) (\<lambda>s. res_map (\<lambda>_. flush p False s) (assertBounded p s))))"

definition sanFinish :: "mask_env \<Rightarrow> security_policy \<Rightarrow> sanitizer \<Rightarrow> (trace_error, js_string \<times> sanitizer) res" where
  "sanFinish env p s =
     (case polMode p of
        ModeRedacted \<Rightarrow> if sanControl s \<noteq> [] then Inl UnterminatedControl else res_map (flush p True) (redactPending env p s)
      | _ \<Rightarrow> Inr ([], s))"

definition sanitizeComplete :: "mask_env \<Rightarrow> security_policy \<Rightarrow> js_string list \<Rightarrow> js_string \<Rightarrow> sanitizer \<Rightarrow> (trace_error, js_string) res" where
  "sanitizeComplete env p policySecrets t s =
     (let isolated = fold register (sanSecrets s) (createSanitizer policySecrets)
      in res_bind (sanPush env p t isolated) (\<lambda>(out, s1). res_map (\<lambda>(rest, _). out @ rest) (sanFinish env p s1)))"

text \<open>A stream that is cut into chunks.\<close>

primrec sanStream :: "mask_env \<Rightarrow> security_policy \<Rightarrow> js_string list \<Rightarrow> sanitizer \<Rightarrow> (trace_error, js_string \<times> sanitizer) res" where
  "sanStream env p [] s = Inr ([], s)"
| "sanStream env p (t # ts) s =
     res_bind (sanPush env p t s) (\<lambda>(out, s1). res_map (\<lambda>(rest, s2). (out @ rest, s2)) (sanStream env p ts s1))"

end
