(* ===== verification/Sanitizer_Props.thy ===== *)
theory Sanitizer_Props
  imports Sanitizer
begin

text \<open>
  Properties of the terminal sanitizer. \<open>token_at\<close> finds the token that a unit of the visible text belongs to, \<open>masked\<close> says that a
  token is written as nothing or as a mask. The main invariant \<open>stream_ok\<close> relates the tokens that were written and those that are
  kept back to the tokens of the whole stream: they differ only where they are masked, and every occurrence of a secret is masked
  at its first unit.
\<close>

section \<open>Masked units\<close>

definition masked :: "mask_env \<Rightarrow> token \<Rightarrow> bool" where
  "masked env t \<longleftrightarrow> tokRaw t = [] \<or> (\<exists>x. tokRaw t = maskGeometry env x)"

fun token_at :: "token list \<Rightarrow> nat \<Rightarrow> token option" where
  "token_at [] i = None"
| "token_at (t # ts) i = (if i < length (tokVisible t) then Some t else token_at ts (i - length (tokVisible t)))"

definition maskedAt :: "mask_env \<Rightarrow> token list \<Rightarrow> nat \<Rightarrow> bool" where
  "maskedAt env ts i \<longleftrightarrow> (\<exists>t. token_at ts i = Some t \<and> masked env t)"

definition occurs :: "js_string \<Rightarrow> js_string \<Rightarrow> nat \<Rightarrow> bool" where
  "occurs secret t i \<longleftrightarrow> i + length secret \<le> length t \<and> take (length secret) (drop i t) = secret"

lemma visibleText_simps [simp]:
  "visibleText [] = []" "visibleText (t # ts) = tokVisible t @ visibleText ts" "visibleText (xs @ ys) = visibleText xs @ visibleText ys"
  by (simp_all add: visibleText_def)

lemma token_at_append:
  "token_at (xs @ ys) i = (if i < length (visibleText xs) then token_at xs i else token_at ys (i - length (visibleText xs)))"
  by (induction xs i rule: token_at.induct) auto

lemma token_at_Some: "i < length (visibleText ts) \<Longrightarrow> \<exists>t. token_at ts i = Some t"
  by (induction ts i rule: token_at.induct) auto

lemma maskedAt_append:
  "maskedAt env (xs @ ys) i = (if i < length (visibleText xs) then maskedAt env xs i else maskedAt env ys (i - length (visibleText xs)))"
  by (simp add: maskedAt_def token_at_append)

text \<open>One token for another: the same visible text, and the same token or a mask.\<close>

definition fate :: "mask_env \<Rightarrow> token \<Rightarrow> token \<Rightarrow> bool" where
  "fate env f t \<longleftrightarrow> tokVisible f = tokVisible t \<and> (f = t \<or> masked env f)"

lemma fate_refl: "list_all2 (fate env) ts ts"
  by (simp add: list_all2_same fate_def)

lemma fate_trans: "list_all2 (fate env) fs ts \<Longrightarrow> list_all2 (fate env) ts us \<Longrightarrow> list_all2 (fate env) fs us"
  by (rule list_all2_trans [of "fate env" "fate env"]) (auto simp: fate_def)

lemma fate_visible: "list_all2 (fate env) fs ts \<Longrightarrow> visibleText fs = visibleText ts"
  by (induction rule: list_all2_induct) (simp_all add: fate_def)

lemma fate_masked: "list_all2 (fate env) fs ts \<Longrightarrow> maskedAt env ts i \<Longrightarrow> maskedAt env fs i"
proof (induction fs ts arbitrary: i rule: list_all2_induct)
  case (Cons f fs t ts)
  then show ?case by (auto simp: maskedAt_def fate_def split: if_splits)
qed simp

section \<open>Redaction\<close>

definition mask_range :: "mask_env \<Rightarrow> nat \<times> nat \<times> js_string \<Rightarrow> bool" where
  "mask_range env r \<longleftrightarrow> (\<exists>x. snd (snd r) = maskGeometry env x)"

lemma replaceVisibleRange_fate: "mask_range env r \<Longrightarrow> list_all2 (fate env) (replaceVisibleRange offset placed r ts) ts"
proof (induction offset placed r ts rule: replaceVisibleRange.induct)
  case (2 offset placed start end' blocks t ts)
  have "masked env (t\<lparr>tokRaw := if placed then [] else blocks\<rparr>)" using 2(3) by (auto simp: masked_def mask_range_def)
  with 2 show ?case by (auto simp: Let_def fate_def)
qed simp

lemma replaceVisibleRange_masks:
  "mask_range env (start, end', blocks) \<Longrightarrow> i < length (visibleText ts) \<Longrightarrow> start \<le> offset + i \<Longrightarrow> offset + i < end' \<Longrightarrow>
   maskedAt env (replaceVisibleRange offset placed (start, end', blocks) ts) i"
proof (induction ts arbitrary: offset placed i)
  case (Cons t ts)
  show ?case
  proof (cases "i < length (tokVisible t)")
    case True
    then have hit: "tokVisible t \<noteq> [] \<and> offset + length (tokVisible t) > start \<and> offset < end'" using Cons.prems by auto
    moreover have "masked env (t\<lparr>tokRaw := if placed then [] else blocks\<rparr>)" using Cons.prems(1) by (auto simp: masked_def mask_range_def)
    ultimately show ?thesis using True by (simp add: Let_def maskedAt_def)
  next
    case False
    have "maskedAt env (replaceVisibleRange (offset + length (tokVisible t)) b (start, end', blocks) ts) (i - length (tokVisible t))" for b
      using Cons.prems False by (intro Cons.IH) auto
    with False show ?thesis by (simp add: Let_def maskedAt_def)
  qed
qed simp

lemma fold_ranges:
  assumes "\<forall>r \<in> set rs. mask_range env r"
  shows "list_all2 (fate env) (fold (replaceVisibleRange 0 False) rs ts) ts"
    and "(start, end', blocks) \<in> set rs \<Longrightarrow> start \<le> i \<Longrightarrow> i < end' \<Longrightarrow> i < length (visibleText ts) \<Longrightarrow>
      maskedAt env (fold (replaceVisibleRange 0 False) rs ts) i"
proof -
  have fates: "list_all2 (fate env) (fold (replaceVisibleRange 0 False) rs ts) ts" if "\<forall>r \<in> set rs. mask_range env r" for rs ts
    using that
  proof (induction rs arbitrary: ts)
    case (Cons r rs)
    then have "list_all2 (fate env) (fold (replaceVisibleRange 0 False) rs (replaceVisibleRange 0 False r ts)) (replaceVisibleRange 0 False r ts)"
      "list_all2 (fate env) (replaceVisibleRange 0 False r ts) ts" using replaceVisibleRange_fate by simp_all
    then show ?case using fate_trans by simp
  qed (simp add: fate_refl)
  show "list_all2 (fate env) (fold (replaceVisibleRange 0 False) rs ts) ts" using fates [OF assms] .
  show "maskedAt env (fold (replaceVisibleRange 0 False) rs ts) i"
    if "(start, end', blocks) \<in> set rs" "start \<le> i" "i < end'" "i < length (visibleText ts)"
    using assms that
  proof (induction rs arbitrary: ts)
    case (Cons r rs)
    note one = replaceVisibleRange_fate [of env r 0 False ts]
    have vis: "visibleText (replaceVisibleRange 0 False r ts) = visibleText ts" using Cons.prems(1) fate_visible [OF one] by simp
    show ?case
    proof (cases "r = (start, end', blocks)")
      case True
      then have "maskedAt env (replaceVisibleRange 0 False r ts) i"
        using replaceVisibleRange_masks [of env start end' blocks i ts 0 False] Cons.prems by simp
      then show ?thesis using fate_masked [OF fates [of rs]] Cons.prems(1) by simp
    next
      case False
      with Cons vis show ?thesis by simp
    qed
  qed simp
qed

lemma literalLoop_covers:
  "needle \<noteq> [] \<Longrightarrow> occurs needle h k \<Longrightarrow> i \<le> k \<Longrightarrow> \<exists>(start, end') \<in> set (literalLoop h needle i). start \<le> k \<and> k < end'"
proof (induction h needle i rule: literalLoop.induct)
  case (1 h needle i)
  show ?case
  proof (cases "indexOf_from h needle i")
    case None
    with 1(3,4) indexOf_from_None [OF None] show ?thesis by (auto simp: occurs_def)
  next
    case (Some j)
    have eq: "literalLoop h needle i = (j, j + length needle) # literalLoop h needle (j + length needle)"
      using Some 1(2) by (subst literalLoop.simps) simp
    have "j \<le> k"
    proof (rule ccontr)
      assume "\<not> j \<le> k"
      then have "k < j" by simp
      then show False using indexOf_from_first [OF Some 1(4)] 1(3) by (auto simp: occurs_def)
    qed
    show ?thesis
    proof (cases "k < j + length needle")
      case True
      with eq \<open>j \<le> k\<close> show ?thesis by auto
    next
      case False
      with 1(1) [OF 1(2) Some 1(2,3)] eq show ?thesis by auto
    qed
  qed
qed

lemma patternRanges_mask: "patternRanges env v r = Inr rs \<Longrightarrow> \<forall>x \<in> set rs. mask_range env x"
  by (auto simp: patternRanges_def Let_def res_simps mask_range_def)

lemma redactPending_Inr:
  assumes "redactPending env p s = Inr s'"
  shows "s' = s\<lparr>sanTokens := sanTokens s'\<rparr>" "list_all2 (fate env) (sanTokens s') (sanTokens s)"
    and "secret \<in> set (sanSecrets s) \<Longrightarrow> secret \<noteq> [] \<Longrightarrow> occurs secret (visibleText (sanTokens s)) i \<Longrightarrow> maskedAt env (sanTokens s') i"
proof -
  let ?v = "visibleText (sanTokens s)"
  obtain found where found: "res_all (patternRanges env ?v) (polPatterns p) = Inr found"
    and s': "s' = s\<lparr>sanTokens := fold (replaceVisibleRange 0 False)
        (sort_key (\<lambda>r. - int (fst r)) (concat (map (secretRanges env ?v) (sanSecrets s)) @ concat found)) (sanTokens s)\<rparr>"
    using assms by (auto simp: redactPending_def Let_def res_simps)
  define rs where "rs = sort_key (\<lambda>r. - int (fst r)) (concat (map (secretRanges env ?v) (sanSecrets s)) @ concat found)"
  have "\<forall>r \<in> set (concat found). mask_range env r"
  proof
    fix r assume "r \<in> set (concat found)"
    then obtain f where f: "f \<in> set found" "r \<in> set f" by auto
    then obtain x where "patternRanges env ?v x = Inr f" using res_all_set [OF found] by blast
    with f(2) patternRanges_mask show "mask_range env r" by blast
  qed
  moreover have "\<forall>r \<in> set (concat (map (secretRanges env ?v) (sanSecrets s))). mask_range env r"
    by (auto simp: secretRanges_def mask_range_def)
  ultimately have rs: "\<forall>r \<in> set rs. mask_range env r" by (auto simp: rs_def)
  note tokens = fold_ranges [OF rs, where ts = "sanTokens s"]
  show "s' = s\<lparr>sanTokens := sanTokens s'\<rparr>" by (simp add: s')
  show "list_all2 (fate env) (sanTokens s') (sanTokens s)" using tokens(1) by (simp add: s' rs_def)
  show "maskedAt env (sanTokens s') i" if "secret \<in> set (sanSecrets s)" "secret \<noteq> []" "occurs secret ?v i"
  proof -
    note hyp = that
    obtain start end' where range: "(start, end') \<in> set (literalLoop ?v secret 0)" "start \<le> i" "i < end'"
      using literalLoop_covers [OF hyp(2,3), of 0] by auto
    then have "(start, end', maskGeometry env secret) \<in> set rs" using hyp(1) by (force simp: rs_def secretRanges_def)
    moreover have "i < length ?v" using hyp(2,3) by (cases secret) (auto simp: occurs_def)
    ultimately show ?thesis using tokens(2) range(2,3) by (simp add: s' rs_def)
  qed
qed

section \<open>Tokens and output\<close>

text \<open>The tokenizer only appends tokens, whatever tokens are there.\<close>

definition appends :: "(sanitizer \<Rightarrow> (trace_error, sanitizer) res) \<Rightarrow> sanitizer \<Rightarrow> sanitizer \<Rightarrow> bool" where
  "appends f s s' \<longleftrightarrow> sanSecrets s' = sanSecrets s \<and> (\<exists>new. sanTokens s' = sanTokens s @ new \<and>
     (\<forall>T. f (s\<lparr>sanTokens := T\<rparr>) = Inr (s'\<lparr>sanTokens := T @ new\<rparr>)))"

lemma finishControl_frame:
  assumes "finishControl p (g s) = Inr s'" "\<And>T. g (s\<lparr>sanTokens := T\<rparr>) = g s\<lparr>sanTokens := T\<rparr>" "sanTokens (g s) = sanTokens s" "sanSecrets (g s) = sanSecrets s"
  shows "appends (\<lambda>s. finishControl p (g s)) s s'"
proof -
  obtain raw where raw: "sanitizeControl p (sanSecrets s) (sanControl (g s)) = Inr raw"
    "s' = g s\<lparr>sanTokens := sanTokens s @ [\<lparr>tokRaw = raw, tokVisible = []\<rparr>], sanControl := [], sanKind := None, stringEsc := False\<rparr>"
    using assms(1,3,4) by (auto simp: finishControl_def res_simps)
  then show ?thesis
    unfolding appends_def using assms(2-4) by (auto simp: finishControl_def intro!: exI [of _ "[\<lparr>tokRaw = raw, tokVisible = []\<rparr>]"])
qed

lemma tokenizeCharacter_frame:
  assumes "tokenizeCharacter p c s = Inr s'"
  shows "appends (tokenizeCharacter p c) s s'"
proof (cases "sanKind s")
  case None
  then show ?thesis using assms by (auto simp: appends_def tokenizeCharacter_def)
next
  case (Some kind)
  define g :: "sanitizer \<Rightarrow> sanitizer" where "g = (\<lambda>s. s\<lparr>sanControl := sanControl s @ c\<rparr>)"
  have fin: "appends (\<lambda>s. finishControl p (g s)) s s'" if "finishControl p (g s) = Inr s'"
    using that by (intro finishControl_frame) (simp_all add: g_def)
  show ?thesis
  proof (cases kind)
    case KindEsc
    have eq: "tokenizeCharacter p c t = (if c = u ''['' then Inr (g t\<lparr>sanKind := Some KindCsi\<rparr>)
        else if c \<in> {u '']'', u ''P'', u ''_'', u ''^''} then Inr (g t\<lparr>sanKind := Some KindString\<rparr>) else finishControl p (g t))"
      if "sanKind t = Some KindEsc" for t using that by (simp add: tokenizeCharacter_def g_def Let_def)
    show ?thesis using assms Some KindEsc fin unfolding appends_def by (auto simp: eq g_def split: if_splits)
  next
    case KindCsi
    define code where "code = (case code_points c of [] \<Rightarrow> 0 | x # _ \<Rightarrow> x)"
    have eq: "tokenizeCharacter p c t = (if 0x40 \<le> code \<and> code \<le> 0x7E then finishControl p (g t) else Inr (g t))"
      if "sanKind t = Some KindCsi" for t using that by (simp add: tokenizeCharacter_def g_def Let_def code_def)
    show ?thesis using assms Some KindCsi fin unfolding appends_def by (auto simp: eq g_def split: if_splits)
  next
    case KindString
    have eq: "tokenizeCharacter p c t = (if c = [7] \<or> (stringEsc t \<and> c = [0x5C]) then finishControl p (g t)
        else Inr (g t\<lparr>stringEsc := (c = [0x1B])\<rparr>))"
      if "sanKind t = Some KindString" for t using that by (simp add: tokenizeCharacter_def g_def Let_def)
    show ?thesis using assms Some KindString fin unfolding appends_def by (auto simp: eq g_def split: if_splits)
  qed
qed

lemma tokenizeAll_frame: "tokenizeAll p cs s = Inr s' \<Longrightarrow> appends (tokenizeAll p cs) s s'"
proof (induction cs arbitrary: s)
  case Nil
  then show ?case by (simp add: appends_def)
next
  case (Cons c cs)
  then obtain s1 where s1: "tokenizeCharacter p c s = Inr s1" "tokenizeAll p cs s1 = Inr s'" by (auto simp: res_simps)
  obtain n1 where n1: "sanSecrets s1 = sanSecrets s" "sanTokens s1 = sanTokens s @ n1"
    "\<And>T. tokenizeCharacter p c (s\<lparr>sanTokens := T\<rparr>) = Inr (s1\<lparr>sanTokens := T @ n1\<rparr>)"
    using tokenizeCharacter_frame [OF s1(1)] unfolding appends_def by blast
  obtain n2 where n2: "sanSecrets s' = sanSecrets s1" "sanTokens s' = sanTokens s1 @ n2"
    "\<And>T. tokenizeAll p cs (s1\<lparr>sanTokens := T\<rparr>) = Inr (s'\<lparr>sanTokens := T @ n2\<rparr>)"
    using Cons.IH [OF s1(2)] unfolding appends_def by blast
  have "tokenizeAll p (c # cs) (s\<lparr>sanTokens := T\<rparr>) = Inr (s'\<lparr>sanTokens := T @ (n1 @ n2)\<rparr>)" for T
    using n1(3) [of T] n2(3) [of "T @ n1"] by simp
  with n1 n2 show ?case by (auto simp: appends_def)
qed

lemma tokenizeAll_append: "tokenizeAll p (as @ bs) s = res_bind (tokenizeAll p as s) (tokenizeAll p bs)"
proof (induction as arbitrary: s)
  case (Cons a as)
  then show ?case by (cases "tokenizeCharacter p a s") simp_all
qed simp

lemma flushCount_bound:
  "seen + length (visibleText (take (flushCount seen limit ts) ts)) \<le> max seen limit"
proof (induction seen limit ts rule: flushCount.induct)
  case (2 seen limit t ts)
  then show ?case by (auto simp: max_def split: if_splits)
qed simp

lemma flush_spec:
  assumes "flush p all s = (out, s')"
  obtains written where "sanTokens s = written @ sanTokens s'" "out = concat (map tokRaw written)" "s' = s\<lparr>sanTokens := sanTokens s'\<rparr>"
    and "\<not> all \<Longrightarrow> length (visibleText written) \<le> length (visibleText (sanTokens s)) - (longestSecret p (sanSecrets s) - 1)"
proof -
  define n where "n = flushCount 0 (length (visibleText (sanTokens s)) - (if all then 0 else longestSecret p (sanSecrets s) - 1)) (sanTokens s)"
  have "out = concat (map tokRaw (take n (sanTokens s)))" "s' = s\<lparr>sanTokens := drop n (sanTokens s)\<rparr>"
    using assms by (auto simp: flush_def Let_def n_def)
  moreover have "length (visibleText (take n (sanTokens s))) \<le> length (visibleText (sanTokens s)) - (longestSecret p (sanSecrets s) - 1)" if "\<not> all"
    using flushCount_bound [of 0 "length (visibleText (sanTokens s)) - (longestSecret p (sanSecrets s) - 1)" "sanTokens s"] that
    by (simp add: n_def)
  ultimately show ?thesis by (intro that [of "take n (sanTokens s)"]) auto
qed

lemma flush_all: "flush p True s = (concat (map tokRaw (sanTokens s)), s\<lparr>sanTokens := []\<rparr>)"
proof -
  have "flushCount seen limit ts = length ts" if "seen + length (visibleText ts) \<le> limit" for seen limit ts
    using that by (induction seen limit ts rule: flushCount.induct) auto
  then show ?thesis by (simp add: flush_def)
qed

lemma longestSecret_le: "secret \<in> set secrets \<Longrightarrow> length secret \<le> longestSecret p secrets"
proof -
  have mono: "x \<le> fold max xs (x :: nat)" for x xs by (induction xs arbitrary: x) (auto intro: le_trans [OF max.cobounded2])
  have "y \<le> fold max ys (x :: nat)" if "y \<in> set ys" for x y ys
    using that by (induction ys arbitrary: x) (auto intro: le_trans [OF _ mono])
  then show "secret \<in> set secrets \<Longrightarrow> length secret \<le> longestSecret p secrets"
    unfolding longestSecret_def using mono le_trans by (metis image_eqI set_map)
qed

section \<open>The stream\<close>

text \<open>After the chunks so far: \<open>written\<close> are the tokens that were written, \<open>all\<close> the tokens of the whole text.\<close>

definition stream_ok :: "mask_env \<Rightarrow> security_policy \<Rightarrow> token list \<Rightarrow> token list \<Rightarrow> sanitizer \<Rightarrow> bool" where
  "stream_ok env p written all s \<longleftrightarrow> list_all2 (fate env) (written @ sanTokens s) all \<and>
     (\<forall>secret \<in> set (sanSecrets s). \<forall>i. occurs secret (visibleText all) i \<longrightarrow> maskedAt env (written @ sanTokens s) i) \<and>
     (visibleText written = [] \<or> length (visibleText written) + (longestSecret p (sanSecrets s) - 1) \<le> length (visibleText all))"

lemma occurs_prefix: "occurs secret (v @ w) i \<Longrightarrow> i + length secret \<le> length v \<Longrightarrow> occurs secret v i"
  by (simp add: occurs_def)

lemma occurs_suffix: "occurs secret (v @ w) i \<Longrightarrow> length v \<le> i \<Longrightarrow> occurs secret w (i - length v)"
  by (auto simp: occurs_def)

text \<open>Appending tokens and redacting what is kept back: no secret can have begun in what was written.\<close>

lemma stream_redact:
  assumes ok: "stream_ok env p written all s" and secrets: "[] \<notin> set (sanSecrets s)"
    and s1: "sanTokens s1 = sanTokens s @ new" "sanSecrets s1 = sanSecrets s" and s2: "redactPending env p s1 = Inr s2"
  shows "list_all2 (fate env) (written @ sanTokens s2) (all @ new)"
    and "\<forall>secret \<in> set (sanSecrets s). \<forall>i. occurs secret (visibleText (all @ new)) i \<longrightarrow> maskedAt env (written @ sanTokens s2) i"
proof -
  note red = redactPending_Inr [OF s2]
  have fates: "list_all2 (fate env) (written @ sanTokens s2) (written @ sanTokens s @ new)"
    using red(2) fate_refl [of env written] by (simp add: s1 list_all2_appendI)
  moreover have "list_all2 (fate env) (written @ sanTokens s @ new) (all @ new)"
    using ok fate_refl [of env new] list_all2_appendI [of "fate env" "written @ sanTokens s" all new new] by (simp add: stream_ok_def)
  ultimately show "list_all2 (fate env) (written @ sanTokens s2) (all @ new)" by (rule fate_trans)
  have vis: "visibleText all = visibleText written @ visibleText (sanTokens s)"
    using ok fate_visible [of env "written @ sanTokens s" all] by (simp add: stream_ok_def)
  show "\<forall>secret \<in> set (sanSecrets s). \<forall>i. occurs secret (visibleText (all @ new)) i \<longrightarrow> maskedAt env (written @ sanTokens s2) i"
  proof (intro ballI allI impI)
    fix secret i assume sec: "secret \<in> set (sanSecrets s)" and occ: "occurs secret (visibleText (all @ new)) i"
    show "maskedAt env (written @ sanTokens s2) i"
    proof (cases "i + length secret \<le> length (visibleText all)")
      case True
      then have "maskedAt env (written @ sanTokens s) i" using ok sec occ occurs_prefix unfolding stream_ok_def by simp
      moreover have "i < length (visibleText (written @ sanTokens s))" using True sec secrets vis by (cases secret) auto
      ultimately have "maskedAt env ((written @ sanTokens s) @ new) i"
        unfolding maskedAt_append [of env "written @ sanTokens s" new] by simp
      then show ?thesis using fate_masked [OF fates] by simp
    next
      case False
      have "length (visibleText written) \<le> i"
        using ok False longestSecret_le [OF sec, of p] unfolding stream_ok_def by auto
      then have "occurs secret (visibleText (sanTokens s1)) (i - length (visibleText written))"
        using occ occurs_suffix [of secret "visibleText written"] by (simp add: vis s1)
      moreover have "secret \<noteq> []" using sec secrets by auto
      ultimately have "maskedAt env (sanTokens s2) (i - length (visibleText written))" using red(3) sec s1(2) by simp
      with \<open>length (visibleText written) \<le> i\<close> show ?thesis by (simp add: maskedAt_append)
    qed
  qed
qed

lemma sanPush_ok:
  assumes "sanPush env p t s = Inr (out, s')" "polMode p = ModeRedacted" "stream_ok env p written all s" "[] \<notin> set (sanSecrets s)"
  shows "\<exists>more new. out = concat (map tokRaw more) \<and> sanSecrets s' = sanSecrets s \<and> stream_ok env p (written @ more) (all @ new) s' \<and>
     (\<forall>T. tokenizeAll p (characters t) (s\<lparr>sanTokens := T\<rparr>) = Inr (s'\<lparr>sanTokens := T @ new\<rparr>))"
proof -
  obtain s1 s2 where s1: "tokenizeAll p (characters t) s = Inr s1" and s2: "redactPending env p s1 = Inr s2" and s': "flush p False s2 = (out, s')"
    using assms(1,2) by (auto simp: sanPush_def tokenize_def res_simps)
  obtain new where new: "sanSecrets s1 = sanSecrets s" "sanTokens s1 = sanTokens s @ new"
    "\<And>T. tokenizeAll p (characters t) (s\<lparr>sanTokens := T\<rparr>) = Inr (s1\<lparr>sanTokens := T @ new\<rparr>)"
    using tokenizeAll_frame [OF s1] unfolding appends_def by blast
  note red = redactPending_Inr [OF s2] and both = stream_redact [OF assms(3,4) new(2,1) s2]
  obtain more where more: "sanTokens s2 = more @ sanTokens s'" "out = concat (map tokRaw more)" "s' = s2\<lparr>sanTokens := sanTokens s'\<rparr>"
    and bound: "length (visibleText more) \<le> length (visibleText (sanTokens s2)) - (longestSecret p (sanSecrets s2) - 1)"
    using flush_spec [OF s'] by blast
  have "sanSecrets s2 = sanSecrets s1" using arg_cong [OF red(1), of sanSecrets] by simp
  then have sec: "sanSecrets s' = sanSecrets s" "sanSecrets s2 = sanSecrets s" using arg_cong [OF more(3), of sanSecrets] new(1) by simp_all
  have total: "length (visibleText (all @ new)) = length (visibleText written) + length (visibleText (sanTokens s2))"
    using fate_visible [OF both(1)] by (metis length_append visibleText_simps(3))
  have "visibleText (written @ more) = [] \<or>
      length (visibleText (written @ more)) + (longestSecret p (sanSecrets s') - 1) \<le> length (visibleText (all @ new))"
  proof (cases "visibleText more = []")
    case True
    then show ?thesis using assms(3) unfolding stream_ok_def sec by auto
  next
    case False
    then have "0 < length (visibleText more)" by simp
    with bound total have "length (visibleText written) + length (visibleText more) + (longestSecret p (sanSecrets s) - 1) \<le> length (visibleText (all @ new))"
      unfolding sec by linarith
    then show ?thesis unfolding sec by simp
  qed
  then have "stream_ok env p (written @ more) (all @ new) s'" using both more(1) unfolding stream_ok_def sec by simp
  moreover have "tokenizeAll p (characters t) (s\<lparr>sanTokens := T\<rparr>) = Inr (s'\<lparr>sanTokens := T @ new\<rparr>)" for T
  proof -
    have "s'\<lparr>sanTokens := T @ new\<rparr> = s2\<lparr>sanTokens := T @ new\<rparr>" by (subst more(3)) simp
    also have "\<dots> = s1\<lparr>sanTokens := T @ new\<rparr>" by (subst red(1)) simp
    finally show ?thesis using new(3) by simp
  qed
  ultimately show ?thesis using more(2) sec(1) by blast
qed

lemma sanStream_ok:
  "sanStream env p chunks s = Inr (out, s') \<Longrightarrow> polMode p = ModeRedacted \<Longrightarrow> stream_ok env p written all s \<Longrightarrow> [] \<notin> set (sanSecrets s) \<Longrightarrow>
   \<exists>more new. out = concat (map tokRaw more) \<and> sanSecrets s' = sanSecrets s \<and> stream_ok env p (written @ more) (all @ new) s' \<and>
     (\<forall>T. tokenizeAll p (concat (map characters chunks)) (s\<lparr>sanTokens := T\<rparr>) = Inr (s'\<lparr>sanTokens := T @ new\<rparr>))"
proof (induction chunks arbitrary: s out written all)
  case Nil
  then show ?case by (auto intro!: exI [of _ "[]"])
next
  case (Cons t chunks)
  obtain out1 s1 out2 where s1: "sanPush env p t s = Inr (out1, s1)" and rest: "sanStream env p chunks s1 = Inr (out2, s')" and out: "out = out1 @ out2"
    using Cons.prems(1) by (auto simp: res_simps split: prod.splits)
  obtain m1 n1 where one: "out1 = concat (map tokRaw m1)" "sanSecrets s1 = sanSecrets s" "stream_ok env p (written @ m1) (all @ n1) s1"
    "\<And>T. tokenizeAll p (characters t) (s\<lparr>sanTokens := T\<rparr>) = Inr (s1\<lparr>sanTokens := T @ n1\<rparr>)"
    using sanPush_ok [OF s1 Cons.prems(2-4)] by blast
  obtain m2 n2 where two: "out2 = concat (map tokRaw m2)" "sanSecrets s' = sanSecrets s1" "stream_ok env p ((written @ m1) @ m2) ((all @ n1) @ n2) s'"
    "\<And>T. tokenizeAll p (concat (map characters chunks)) (s1\<lparr>sanTokens := T\<rparr>) = Inr (s'\<lparr>sanTokens := T @ n2\<rparr>)"
    using Cons.IH [OF rest Cons.prems(2) one(3)] Cons.prems(4) one(2) by auto
  have "tokenizeAll p (concat (map characters (t # chunks))) (s\<lparr>sanTokens := T\<rparr>) = Inr (s'\<lparr>sanTokens := T @ (n1 @ n2)\<rparr>)" for T
    using one(4) [of T] two(4) [of "T @ n1"] by (simp add: tokenizeAll_append)
  moreover have "out = concat (map tokRaw (m1 @ m2))" using one(1) two(1) out by simp
  moreover have "stream_ok env p (written @ (m1 @ m2)) (all @ (n1 @ n2)) s'" using two(3) by simp
  ultimately show ?case using one(2) two(2) by metis
qed

text \<open>C20: Whatever chunks a stream is cut into, what the sanitizer writes is the tokens of the whole stream, each as it is or replaced by
  nothing or a mask, and the character in which an occurrence of a secret in the visible text begins is replaced: no secret is
  written, also when control sequences or chunk boundaries fall inside it.\<close>

theorem secrets_masked:
  assumes "polMode p = ModeRedacted" and "sanTokens s = []" and "[] \<notin> set (sanSecrets s)"
    and "sanStream env p chunks s = Inr (out, s1)" and "sanFinish env p s1 = Inr (rest, s2)"
  shows "\<exists>whole fates. tokenizeAll p (concat (map characters chunks)) s = Inr whole \<and> out @ rest = concat (map tokRaw fates) \<and>
     list_all2 (fate env) fates (sanTokens whole) \<and>
     (\<forall>secret \<in> set (sanSecrets s). \<forall>i. occurs secret (visibleText (sanTokens whole)) i \<longrightarrow> maskedAt env fates i)"
proof -
  have "stream_ok env p [] [] s" using assms(2,3) by (auto simp: stream_ok_def occurs_def)
  then obtain more new where st: "out = concat (map tokRaw more)" "sanSecrets s1 = sanSecrets s" "stream_ok env p more new s1"
    "\<And>T. tokenizeAll p (concat (map characters chunks)) (s\<lparr>sanTokens := T\<rparr>) = Inr (s1\<lparr>sanTokens := T @ new\<rparr>)"
    using sanStream_ok [OF assms(4,1)] assms(3) by (metis append_Nil)
  obtain s3 where s3: "redactPending env p s1 = Inr s3" "flush p True s3 = (rest, s2)"
    using assms(1,5) by (auto simp: sanFinish_def res_simps split: if_splits)
  then have rest: "rest = concat (map tokRaw (sanTokens s3))" by (simp add: flush_all)
  have "list_all2 (fate env) (more @ sanTokens s3) (new @ [])"
    "\<forall>secret \<in> set (sanSecrets s1). \<forall>i. occurs secret (visibleText (new @ [])) i \<longrightarrow> maskedAt env (more @ sanTokens s3) i"
    using stream_redact [OF st(3), of s1 "[]" s3] assms(3) st(2) s3(1) by simp_all
  moreover have "tokenizeAll p (concat (map characters chunks)) s = Inr (s1\<lparr>sanTokens := new\<rparr>)"
  proof -
    have "s\<lparr>sanTokens := sanTokens s\<rparr> = s" by simp
    then have "s\<lparr>sanTokens := []\<rparr> = s" using assms(2) by simp
    then show ?thesis using st(4) [of "[]"] by simp
  qed
  ultimately show ?thesis using st(1,2) rest by (intro exI [of _ "s1\<lparr>sanTokens := new\<rparr>"] exI [of _ "more @ sanTokens s3"]) simp
qed

lemma createSanitizer_secrets: "sanTokens (createSanitizer secrets) = []" "[] \<notin> set (sanSecrets (createSanitizer secrets))"
proof -
  define s0 where "s0 = \<lparr>sanSecrets = [], sanTokens = [], sanControl = [], sanKind = None, stringEsc = False\<rparr>"
  have lines: "[] \<notin> set (fold f ls acc)" if "[] \<notin> set acc" "\<And>x a. [] \<notin> set a \<Longrightarrow> [] \<notin> set (f x a)" for f and ls acc :: "js_string list"
    using that(1) by (induction ls arbitrary: acc) (simp_all add: that(2))
  have step: "sanTokens (register x s) = sanTokens s" "[] \<notin> set (sanSecrets s) \<Longrightarrow> [] \<notin> set (sanSecrets (register x s))" for x s
    by (simp add: register_def) (simp add: register_def, rule lines, auto)
  have "sanTokens (fold register secrets s) = sanTokens s \<and> ([] \<notin> set (sanSecrets s) \<longrightarrow> [] \<notin> set (sanSecrets (fold register secrets s)))" for s
    by (induction secrets arbitrary: s) (simp_all add: step)
  from this [of s0] show "sanTokens (createSanitizer secrets) = []" "[] \<notin> set (sanSecrets (createSanitizer secrets))"
    by (simp_all add: createSanitizer_def s0_def)
qed

text \<open>An environment for examples: a segment per unit, each one cell wide.\<close>

definition demo_masks :: mask_env where
  "demo_masks = \<lparr>segments = map (\<lambda>c. [c]), cellWidthOf = (\<lambda>_. 1)\<rparr>"

definition redacting :: "redaction_rule list \<Rightarrow> security_policy" where
  "redacting rules = \<lparr>polMode = ModeRedacted, polPatterns = rules, maxTerminalPendingBytes = 1024\<rparr>"

text \<open>A secret that a chunk boundary and a change of colour fall into.\<close>

lemma demo_split_secret:
  "sanStream demo_masks (redacting []) [u ''s'', [0x1B] @ u ''[1mec'', u ''x''] (createSanitizer [u ''sec'']) =
     Inr ([0x2588, 0x2588, 0x2588, 0x1B] @ u ''[1m'', (createSanitizer [u ''sec''])\<lparr>sanTokens :=
       [\<lparr>tokRaw = [], tokVisible = u ''c''\<rparr>, \<lparr>tokRaw = u ''x'', tokVisible = u ''x''\<rparr>]\<rparr>)"
  by code_simp

lemma demo_split_finish:
  "sanFinish demo_masks (redacting []) ((createSanitizer [u ''sec''])\<lparr>sanTokens :=
       [\<lparr>tokRaw = [], tokVisible = u ''c''\<rparr>, \<lparr>tokRaw = u ''x'', tokVisible = u ''x''\<rparr>]\<rparr>) = Inr (u ''x'', createSanitizer [u ''sec''])"
  by code_simp

theorem secrets_masked_witness:
  "\<exists>whole fates. tokenizeAll (redacting []) (concat (map characters [u ''s'', [0x1B] @ u ''[1mec'', u ''x''])) (createSanitizer [u ''sec'']) = Inr whole \<and>
     ([0x2588, 0x2588, 0x2588, 0x1B] @ u ''[1m'') @ u ''x'' = concat (map tokRaw fates) \<and>
     list_all2 (fate demo_masks) fates (sanTokens whole) \<and>
     (\<forall>secret \<in> set (sanSecrets (createSanitizer [u ''sec''])). \<forall>i.
        occurs secret (visibleText (sanTokens whole)) i \<longrightarrow> maskedAt demo_masks fates i)"
  using secrets_masked [OF _ createSanitizer_secrets demo_split_secret demo_split_finish] by (simp add: redacting_def)

section \<open>What is not masked\<close>

text \<open>A pattern without the flag \<open>g\<close> is used as it is inside a control sequence: of the two keys in a window title only the first
  is replaced and the second is written, while in the visible text both are masked.\<close>

theorem control_pattern_leaks:
  "let key = \<lparr>ruleFind = (\<lambda>t. literalLoop t (u ''key'') 0), ruleGlobal = False, maxMatchChars = 8\<rparr> in
   sanitizeComplete demo_masks (redacting [key]) [] ([0x1B] @ u '']0;key,key'' @ [7]) (createSanitizer []) =
     Inr ([0x1B] @ u '']0;[redacted],key'' @ [7]) \<and>
   sanitizeComplete demo_masks (redacting [key]) [] (u ''key,key'') (createSanitizer []) =
     Inr (replicate 3 0x2588 @ u '','' @ replicate 3 0x2588)"
  by code_simp


end
