(* ===== verification/Yaml.thy ===== *)
theory Yaml
  imports JsText Snapshot
begin

text \<open>
  The snapshot patterns of the test package (\<open>src/packages/test/src/yaml-serialize.ts\<close>, \<open>yaml-pattern.ts\<close>, \<open>yaml-match.ts\<close>).

  \<^item> A tree is printed with one head per node (\<open>describeNode\<close>); a head is read back as a pattern (\<open>parseNodeHead\<close>), and a list of
    patterns is searched in the tree by backtracking with a ceiling on comparisons (\<open>matchSemanticSnapshot\<close>).
  \<^item> The regular expression of heads is written as a function on the trimmed text. A name in quotes is read as \<open>JSON.parse\<close>
    reads it. The document that the package \<open>yaml\<close> makes of a text is the argument of \<open>parseList\<close>.
  \<^item> What a regular expression for a name accepts is a parameter (\<open>regExp\<close>, \<open>None\<close> for a syntax error), and it is a function of the
    name: this covers expressions without the flags \<open>g\<close> and \<open>y\<close>, with which \<open>test\<close> depends on the tests before. \<open>numberText\<close> is
    \<open>String\<close> on numbers.
\<close>

section \<open>Text\<close>

text \<open>\<open>name.replace(/\s+/gu, ' ')\<close>\<close>

function collapseSpaces :: "js_string \<Rightarrow> js_string" where
  "collapseSpaces [] = []"
| "collapseSpaces (c # s) = (if space_unit c then 32 # collapseSpaces (dropWhile space_unit s) else c # collapseSpaces s)"
  by pat_completeness auto
termination by (relation "measure length") (auto simp: length_dropWhile_le less_Suc_eq_le)

definition normalizeName :: "js_string \<Rightarrow> js_string" where
  "normalizeName s = trim (collapseSpaces s)"

text \<open>\<open>JSON.stringify\<close> and \<open>JSON.parse\<close> on strings.\<close>

definition hexUnit :: "nat \<Rightarrow> code_unit" where
  "hexUnit n = word_of_nat (if n < 10 then 48 + n else 87 + n)"

definition unicodeEscape :: "code_unit \<Rightarrow> js_string" where
  "unicodeEscape c = [92] @ u ''u'' @ map hexUnit [unat c div 4096, unat c div 256 mod 16, unat c div 16 mod 16, unat c mod 16]"

definition jsonUnit :: "code_unit \<Rightarrow> js_string" where
  "jsonUnit c =
     (if c = 34 then [92, 34] else if c = 92 then [92, 92]
      else if c = 8 then [92] @ u ''b'' else if c = 9 then [92] @ u ''t'' else if c = 10 then [92] @ u ''n''
      else if c = 12 then [92] @ u ''f'' else if c = 13 then [92] @ u ''r''
      else if c < 32 \<or> high_surrogate c \<or> low_surrogate c then unicodeEscape c
      else [c])"

definition jsonString :: "js_string \<Rightarrow> js_string" where
  "jsonString s = [34] @ concat (map (\<lambda>character. case character of [c] \<Rightarrow> jsonUnit c | cs \<Rightarrow> cs) (characters s)) @ [34]"

definition hexValue :: "js_string \<Rightarrow> nat option" where
  "hexValue ds =
     (if length ds = 4 then fold (\<lambda>d v. Option.bind v (\<lambda>n. map_option (\<lambda>k. 16 * n + k) (hexDigit d))) ds (Some 0) else None)"

text \<open>What follows the opening quote.\<close>

fun jsonChars :: "js_string \<Rightarrow> js_string option" where
  "jsonChars [] = None"
| "jsonChars (c # s) =
     (if c = 34 then if s = [] then Some [] else None
      else if c < 32 then None
      else if c \<noteq> 92 then map_option ((#) c) (jsonChars s)
      else case s of
             [] \<Rightarrow> None
           | d # t \<Rightarrow>
               if d \<in> {34, 92, 47} then map_option ((#) d) (jsonChars t)
               else if [d] = u ''b'' then map_option ((#) 8) (jsonChars t)
               else if [d] = u ''t'' then map_option ((#) 9) (jsonChars t)
               else if [d] = u ''n'' then map_option ((#) 10) (jsonChars t)
               else if [d] = u ''f'' then map_option ((#) 12) (jsonChars t)
               else if [d] = u ''r'' then map_option ((#) 13) (jsonChars t)
               else if [d] = u ''u'' then
                 case hexValue (take 4 t) of
                   None \<Rightarrow> None
                 | Some n \<Rightarrow> map_option ((#) (word_of_nat n)) (jsonChars (drop 4 t))
               else None)"

definition jsonParseString :: "js_string \<Rightarrow> js_string option" where
  "jsonParseString s = (case s of [] \<Rightarrow> None | c # t \<Rightarrow> if c = 34 then jsonChars t else None)"

fun js_String :: "(rat \<Rightarrow> js_string) \<Rightarrow> json \<Rightarrow> js_string" where
  "js_String numberText JNull = u ''null''"
| "js_String numberText (JBool b) = (if b then u ''true'' else u ''false'')"
| "js_String numberText (JNumber q) = numberText q"
| "js_String numberText (JString s) = s"
| "js_String numberText (JArray xs) = join_with (u '','') (map (\<lambda>x. if x = JNull then [] else js_String numberText x) xs)"
| "js_String numberText (JObject _) = u ''[object Object]''"

section \<open>Printing\<close>

definition STABLE_STATE_KEYS :: "js_string list" where
  "STABLE_STATE_KEYS = map u [''modal'', ''disabled'', ''readonly'', ''focused'', ''selected'', ''checked'', ''expanded'', ''busy'', ''hidden'',
     ''multiline'', ''orientation'', ''level'']"

definition ALL_STATE_KEYS :: "js_string list" where
  "ALL_STATE_KEYS = STABLE_STATE_KEYS @ map u [''positionInSet'', ''setSize'']"

datatype state_selection = Stable | All | Keys "js_string list"

definition stateKeys :: "state_selection \<Rightarrow> js_string list" where
  "stateKeys selection = (case selection of Stable \<Rightarrow> STABLE_STATE_KEYS | All \<Rightarrow> ALL_STATE_KEYS | Keys ks \<Rightarrow> ks)"

definition describeState :: "(rat \<Rightarrow> js_string) \<Rightarrow> (js_string, json) js_map option \<Rightarrow> js_string list \<Rightarrow> js_string list" where
  "describeState numberText state keys =
     (case state of
        None \<Rightarrow> []
      | Some st \<Rightarrow>
          List.map_filter (\<lambda>key. case js_get st key of
              None \<Rightarrow> None
            | Some (JBool False) \<Rightarrow> None
            | Some (JBool True) \<Rightarrow> Some key
            | Some value \<Rightarrow> Some (key @ u ''='' @ js_String numberText value)) keys)"

definition describeNode :: "(rat \<Rightarrow> js_string) \<Rightarrow> semantic_node \<Rightarrow> js_string list \<Rightarrow> js_string" where
  "describeNode numberText node keys =
     (let name = normalizeName (nodeName node);
          flags = describeState numberText (nodeState node) keys
      in join_with (u '' '')
           ([role node] @ (if name \<noteq> [] then [jsonString name] else []) @
            (if flags \<noteq> [] then [u ''['' @ join_with (u '','') flags @ u '']''] else [])))"

definition childIndex :: "semantic_node list \<Rightarrow> (node_id, semantic_node list) js_map" where
  "childIndex nodes =
     fold (\<lambda>node children. case parentId node of None \<Rightarrow> children | Some p \<Rightarrow> js_set p (items (js_get children p) @ [node]) children) nodes []"

definition topLevel :: "tree_snapshot \<Rightarrow> (node_id, semantic_node list) js_map \<Rightarrow> node_id option \<Rightarrow> bool \<Rightarrow> semantic_node list" where
  "topLevel snapshot children rootId includeRoot =
     (case rootId of
        None \<Rightarrow> filter (\<lambda>node. nodeId node \<in> set (rootIds snapshot)) (treeNodes snapshot)
      | Some i \<Rightarrow>
          if \<not> includeRoot then items (js_get children i) else filter (\<lambda>node. nodeId node = i) (treeNodes snapshot))"

text \<open>The tests of \<open>quoteWhenNeeded\<close>: an indicator at the start, white space before \<open>#\<close>, \<open>:\<close> before white space or the end, white
  space at the end.\<close>

fun riskyInside :: "js_string \<Rightarrow> bool" where
  "riskyInside [] \<longleftrightarrow> False"
| "riskyInside [c] \<longleftrightarrow> [c] = u '':'' \<or> space_unit c"
| "riskyInside (c # d # s) \<longleftrightarrow> (space_unit c \<and> [d] = u ''#'') \<or> ([c] = u '':'' \<and> space_unit d) \<or> riskyInside (d # s)"

definition quoteWhenNeeded :: "js_string \<Rightarrow> js_string" where
  "quoteWhenNeeded head =
     (if (head \<noteq> [] \<and> hd head \<in> set (u ''-?:,[]{}#&*!|>%@`'' @ [39, 34])) \<or> riskyInside head
      then [39] @ concat (map (\<lambda>c. if c = 39 then [39, 39] else [c]) head) @ [39]
      else head)"

record serialize_options =
  optStates :: state_selection
  optIndent :: nat
  optRootId :: "node_id option"
  optIncludeRoot :: bool
  skipHidden :: bool

definition hiddenNode :: "semantic_node \<Rightarrow> bool" where
  "hiddenNode n \<longleftrightarrow> (case nodeState n of None \<Rightarrow> False | Some st \<Rightarrow> js_get st (u ''hidden'') = Some (JBool True))"

text \<open>The inner function \<open>emit\<close>. It does not return when the nodes are their own descendants, which is \<open>None\<close>.\<close>

definition shownKids :: "serialize_options \<Rightarrow> (node_id, semantic_node list) js_map \<Rightarrow> semantic_node \<Rightarrow> semantic_node list" where
  "shownKids opts children node = filter (\<lambda>child. \<not> skipHidden opts \<or> \<not> hiddenNode child) (items (js_get children (nodeId node)))"

definition nodeLine :: "(rat \<Rightarrow> js_string) \<Rightarrow> serialize_options \<Rightarrow> (node_id, semantic_node list) js_map \<Rightarrow> semantic_node \<Rightarrow> nat \<Rightarrow> js_string" where
  "nodeLine numberText opts children node depth =
     replicate (depth * optIndent opts) 32 @ u ''- '' @ quoteWhenNeeded (describeNode numberText node (stateKeys (optStates opts))) @
     (if shownKids opts children node = [] then [] else u '':'')"

partial_function (option) emitNodes ::
  "(rat \<Rightarrow> js_string) \<Rightarrow> serialize_options \<Rightarrow> (node_id, semantic_node list) js_map \<Rightarrow> semantic_node list \<Rightarrow> nat \<Rightarrow> js_string list option" where
  "emitNodes numberText opts children nodes depth =
     (case nodes of
        [] \<Rightarrow> Some []
      | node # rest \<Rightarrow>
          if skipHidden opts \<and> hiddenNode node then emitNodes numberText opts children rest depth
          else Option.bind (emitNodes numberText opts children (shownKids opts children node) (Suc depth)) (\<lambda>below.
               Option.bind (emitNodes numberText opts children rest depth) (\<lambda>after.
                 Some (nodeLine numberText opts children node depth # below @ after))))"

definition serializeSemanticSnapshot :: "(rat \<Rightarrow> js_string) \<Rightarrow> tree_snapshot \<Rightarrow> serialize_options \<Rightarrow> js_string option" where
  "serializeSemanticSnapshot numberText snapshot opts =
     (let children = childIndex (treeNodes snapshot);
          roots = topLevel snapshot children (optRootId opts) (optIncludeRoot opts)
      in map_option (\<lambda>ls. if ls = [] then [] else join_with [10] ls @ [10]) (emitNodes numberText opts children roots 0))"

end
