(* ===== verification/Yaml_Pattern.thy ===== *)
theory Yaml_Pattern
  imports Yaml
begin

text \<open>
  Reading and matching snapshot patterns (\<open>src/packages/test/src/yaml-pattern.ts\<close>, \<open>yaml-match.ts\<close>). Messages of the errors and the
  paths in them are left out; the reasons of a mismatch are kept, because the choice of the reported one reads them.
\<close>

section \<open>Patterns\<close>

datatype name_matcher =
    LiteralName (nameSource: js_string) js_string
  | RegexName (nameSource: js_string) "js_string \<Rightarrow> bool"

primrec nameTest :: "name_matcher \<Rightarrow> js_string \<Rightarrow> bool" where
  "nameTest (LiteralName _ literal) value \<longleftrightarrow> value = literal"
| "nameTest (RegexName _ test) value \<longleftrightarrow> test value"

record flag_assertion =
  flagKey :: js_string
  flagNegated :: bool
  flagValue :: "js_string option"
  flagSource :: js_string

datatype node_pattern =
  NodePattern (patRole: js_string) (patName: "name_matcher option") (patFlags: "flag_assertion list")
    (patChildren: "node_pattern list option") (patHead: js_string)

datatype yaml_error =
    InvalidYaml | NotAList | ManyHeads | NotANode | InvalidHead | UnknownRole | InvalidNamePattern | InvalidJson | UnknownFlag | NegatedValue

definition STATE_KEYS :: "js_string list" where
  "STATE_KEYS = map u [''disabled'', ''focused'', ''selected'', ''checked'', ''expanded'', ''modal'', ''busy'', ''hidden'', ''readonly'', ''multiline'',
     ''orientation'', ''level'', ''positionInSet'', ''setSize'']"

definition SEMANTIC_ROLES :: "js_string list" where
  "SEMANTIC_ROLES = map u [''application'', ''region'', ''dialog'', ''alert'', ''status'', ''list'', ''listitem'', ''menu'', ''menuitem'', ''button'',
     ''checkbox'', ''radio'', ''tab'', ''textbox'', ''heading'', ''text'', ''progressbar'', ''separator'', ''scrollbar'', ''table'', ''row'', ''cell'', ''generic'']"

section \<open>Heads\<close>

definition line_end :: "code_unit \<Rightarrow> bool" where
  "line_end c \<longleftrightarrow> c \<in> {10, 13, 0x2028, 0x2029}"

text \<open>A text up to an unescaped closing unit, which is included: \<open>(?:[^q\\]|\\.)*q\<close>.\<close>

fun closedText :: "code_unit \<Rightarrow> js_string \<Rightarrow> (js_string \<times> js_string) option" where
  "closedText q [] = None"
| "closedText q (c # s) =
     (if c = q then Some ([c], s)
      else if c \<noteq> 92 then map_option (apfst ((#) c)) (closedText q s)
      else case s of
             [] \<Rightarrow> None
           | d # t \<Rightarrow> if line_end d then None else map_option (apfst (\<lambda>m. c # d # m)) (closedText q t))"

text \<open>The name of a head and what follows: a text in quotes, or an expression between slashes with its flags.\<close>

definition lower_unit :: "code_unit \<Rightarrow> bool" where
  "lower_unit c \<longleftrightarrow> 97 \<le> c \<and> c \<le> 122"

definition headName :: "js_string \<Rightarrow> (js_string \<times> js_string) option" where
  "headName s =
     (case s of
        [] \<Rightarrow> None
      | c # t \<Rightarrow>
          if c = 34 then map_option (apfst ((#) c)) (closedText c t)
          else if c = 47 then map_option (\<lambda>(m, r). (c # m @ takeWhile lower_unit r, dropWhile lower_unit r)) (closedText c t)
          else None)"

text \<open>The flags in brackets and nothing but white space after them.\<close>

definition headFlags :: "js_string \<Rightarrow> js_string option option" where
  "headFlags s =
     (case dropWhile space_unit s of
        [] \<Rightarrow> Some None
      | c # t \<Rightarrow>
          if [c] \<noteq> u ''['' then None
          else case dropWhile (\<lambda>d. [d] \<noteq> u '']'') t of
                 [] \<Rightarrow> None
               | _ # r \<Rightarrow> if list_all space_unit r then Some (Some (takeWhile (\<lambda>d. [d] \<noteq> u '']'') t)) else None)"

definition headGroups :: "js_string \<Rightarrow> (js_string \<times> js_string option \<times> js_string option) option" where
  "headGroups s =
     (let (r, s1) = (if take 1 s = u ''*'' then (u ''*'', drop 1 s) else (takeWhile letter_unit s, dropWhile letter_unit s));
          s2 = dropWhile space_unit s1
      in if r = [] then None
         else case (if s2 = s1 then None else headName s2) of
                Some (name, s3) \<Rightarrow> map_option (\<lambda>flags. (r, Some name, flags)) (headFlags s3)
              | None \<Rightarrow> map_option (\<lambda>flags. (r, None, flags)) (headFlags s1))"

definition parseName :: "(js_string \<Rightarrow> js_string \<Rightarrow> (js_string \<Rightarrow> bool) option) \<Rightarrow> js_string \<Rightarrow> (yaml_error, name_matcher) res" where
  "parseName regExp source =
     (if take 1 source = u ''/''
      then let flags = rev (takeWhile (\<lambda>c. [c] \<noteq> u ''/'') (rev source));
               body = drop 1 (take (length source - Suc (length flags)) source)
           in case regExp body (if u ''u'' ! 0 \<in> set flags then flags else flags @ u ''u'') of
                None \<Rightarrow> Inl InvalidNamePattern
              | Some test \<Rightarrow> Inr (RegexName source test)
      else case jsonParseString source of
             None \<Rightarrow> Inl InvalidJson
           | Some text \<Rightarrow> Inr (LiteralName source (normalizeName text)))"

text \<open>\<open>source.split(c)\<close> for a single character.\<close>

fun splitOn :: "code_unit \<Rightarrow> js_string \<Rightarrow> js_string list" where
  "splitOn q [] = [[]]"
| "splitOn q (c # s) = (if c = q then [] # splitOn q s else case splitOn q s of [] \<Rightarrow> [[c]] | x # xs \<Rightarrow> (c # x) # xs)"

definition parseFlag :: "js_string \<Rightarrow> (yaml_error, flag_assertion) res" where
  "parseFlag entry =
     (let negated = take 1 entry = u ''!'';
          body = (if negated then trim (drop 1 entry) else entry);
          front = takeWhile (\<lambda>c. [c] \<noteq> u ''='') body;
          key = trim front;
          value = (if front = body then None else Some (trim (drop (Suc (length front)) body)))
      in if key \<notin> set STATE_KEYS then Inl UnknownFlag
         else if value \<noteq> None \<and> negated then Inl NegatedValue
         else Inr \<lparr>flagKey = key, flagNegated = negated, flagValue = value, flagSource = entry\<rparr>)"

definition parseFlags :: "js_string option \<Rightarrow> (yaml_error, flag_assertion list) res" where
  "parseFlags source =
     (case source of
        None \<Rightarrow> Inr []
      | Some s \<Rightarrow> res_all parseFlag (filter (\<lambda>entry. entry \<noteq> []) (map trim (splitOn 44 s))))"

definition parseNodeHead :: "(js_string \<Rightarrow> js_string \<Rightarrow> (js_string \<Rightarrow> bool) option) \<Rightarrow> js_string \<Rightarrow> (yaml_error, node_pattern) res" where
  "parseNodeHead regExp head =
     (case headGroups (trim head) of
        None \<Rightarrow> Inl InvalidHead
      | Some (r, name, flags) \<Rightarrow>
          if r \<noteq> u ''*'' \<and> r \<notin> set SEMANTIC_ROLES then Inl UnknownRole
          else res_bind (case name of None \<Rightarrow> Inr None | Some n \<Rightarrow> res_map Some (parseName regExp n)) (\<lambda>name.
               res_map (\<lambda>flags. NodePattern r name flags None (trim head)) (parseFlags flags)))"

fun parseList :: "(js_string \<Rightarrow> js_string \<Rightarrow> (js_string \<Rightarrow> bool) option) \<Rightarrow> json \<Rightarrow> (yaml_error, node_pattern list) res"
  and parseItem :: "(js_string \<Rightarrow> js_string \<Rightarrow> (js_string \<Rightarrow> bool) option) \<Rightarrow> json \<Rightarrow> (yaml_error, node_pattern) res"
where
  "parseList regExp (JArray xs) = res_all (parseItem regExp) xs"
| "parseList regExp _ = Inl NotAList"
| "parseItem regExp (JString head) = parseNodeHead regExp head"
| "parseItem regExp (JObject entries) =
     (case entries of
        [(head, children)] \<Rightarrow>
          res_bind (parseNodeHead regExp head) (\<lambda>parsed.
            if children = JNull then Inr parsed
            else res_map (\<lambda>kids. NodePattern (patRole parsed) (patName parsed) (patFlags parsed) (Some kids) (patHead parsed))
                   (parseList regExp children))
      | _ \<Rightarrow> Inl ManyHeads)"
| "parseItem regExp _ = Inl NotANode"

definition parseSemanticSnapshot ::
  "(js_string \<Rightarrow> json option) \<Rightarrow> (js_string \<Rightarrow> js_string \<Rightarrow> (js_string \<Rightarrow> bool) option) \<Rightarrow> js_string \<Rightarrow> (yaml_error, node_pattern list) res" where
  "parseSemanticSnapshot parseYaml regExp text =
     (case parseYaml text of
        None \<Rightarrow> Inl InvalidYaml
      | Some document \<Rightarrow> if document = JNull then Inr [] else parseList regExp document)"

section \<open>Matching\<close>

record mismatch =
  misPath :: js_string
  misExpected :: js_string
  misReason :: js_string

datatype node_result = NodeOk | NodeFailure (failReason: js_string) (failNested: "mismatch option")

definition formatValue :: "(rat \<Rightarrow> js_string) \<Rightarrow> json option \<Rightarrow> js_string" where
  "formatValue numberText value = (case value of None \<Rightarrow> u ''unset'' | Some v \<Rightarrow> js_String numberText v)"

definition matchFlag :: "(rat \<Rightarrow> js_string) \<Rightarrow> flag_assertion \<Rightarrow> (js_string, json) js_map option \<Rightarrow> js_string option" where
  "matchFlag numberText flag state =
     (let actual = Option.bind state (\<lambda>st. js_get st (flagKey flag))
      in if flagNegated flag
         then if actual = None \<or> actual = Some (JBool False) then None
              else Some (u ''flag [!'' @ flagKey flag @ u ''] failed: the node is '' @ flagKey flag)
         else case flagValue flag of
                None \<Rightarrow>
                  if actual = Some (JBool True) then None
                  else Some (u ''flag ['' @ flagKey flag @ u ''] is not set (actual: '' @ formatValue numberText actual @ u '')'')
              | Some value \<Rightarrow>
                  if (case actual of None \<Rightarrow> u ''undefined'' | Some v \<Rightarrow> js_String numberText v) = value then None
                  else Some (u ''flag ['' @ flagSource flag @ u ''] failed: '' @ flagKey flag @ u '' is '' @ formatValue numberText actual))"

text \<open>The part of \<open>matchNode\<close> before the children: the first reason to refuse the node.\<close>

definition headProblem :: "(rat \<Rightarrow> js_string) \<Rightarrow> node_pattern \<Rightarrow> semantic_node \<Rightarrow> js_string option" where
  "headProblem numberText pattern node =
     (if patRole pattern \<noteq> u ''*'' \<and> patRole pattern \<noteq> role node
      then Some (u ''role is '' @ jsonString (role node) @ u '', expected '' @ jsonString (patRole pattern))
      else case (case patName pattern of
                   None \<Rightarrow> None
                 | Some m \<Rightarrow>
                     let name = normalizeName (nodeName node)
                     in if nameTest m name then None
                        else Some (case m of
                               RegexName src _ \<Rightarrow> u ''name '' @ jsonString name @ u '' does not match '' @ src
                             | LiteralName src _ \<Rightarrow> u ''name is '' @ jsonString name @ u '', expected '' @ src)) of
             Some reason \<Rightarrow> Some reason
           | None \<Rightarrow>
               (case List.map_filter (\<lambda>flag. matchFlag numberText flag (nodeState node)) (patFlags pattern) of
                  [] \<Rightarrow> None
                | reason # _ \<Rightarrow> Some reason))"

definition score :: "js_string \<Rightarrow> nat" where
  "score reason =
     (if startsWith reason (u ''role'') then 0 else if startsWith reason (u ''name'') then 1 else if startsWith reason (u ''flag'') then 2 else 3)"

record match_env =
  envNumberText :: "rat \<Rightarrow> js_string"
  envChildren :: "(node_id, semantic_node list) js_map"

definition extendTrail :: "match_env \<Rightarrow> js_string \<Rightarrow> semantic_node \<Rightarrow> js_string" where
  "extendTrail env trail node =
     (let head = describeNode (envNumberText env) node STABLE_STATE_KEYS
      in if trail = [] then head else trail @ u '' > '' @ head)"

definition betterFailure :: "node_result option \<Rightarrow> node_result \<Rightarrow> node_result option" where
  "betterFailure best r =
     (case best of
        None \<Rightarrow> Some r
      | Some b \<Rightarrow> if score (failReason r) > score (failReason b) then Some r else Some b)"

definition noCandidate :: "js_string \<Rightarrow> node_pattern \<Rightarrow> semantic_node list \<Rightarrow> node_result option \<Rightarrow> mismatch" where
  "noCandidate trail pattern nodes best =
     (case Option.bind best failNested of
        Some nested \<Rightarrow> nested
      | None \<Rightarrow> \<lparr>misPath = trail, misExpected = patHead pattern,
          misReason = (case best of
             None \<Rightarrow> if nodes = [] then u ''no nodes exist at this level'' else u ''no node matches''
           | Some b \<Rightarrow> u ''closest candidate: '' @ failReason b)\<rparr>)"

text \<open>The functions return the budget that is left. \<open>firstMatch\<close> is the loop of \<open>diagnose\<close> over the nodes: a node matches, or the best
  failure.\<close>

function (sequential) matchLevel :: "match_env \<Rightarrow> node_pattern list \<Rightarrow> semantic_node list \<Rightarrow> js_string \<Rightarrow> int \<Rightarrow> mismatch option \<times> bool \<times> int"
  and search :: "match_env \<Rightarrow> node_pattern list \<Rightarrow> semantic_node list \<Rightarrow> js_string \<Rightarrow> int \<Rightarrow> bool \<times> int"
  and matchNode :: "match_env \<Rightarrow> node_pattern \<Rightarrow> semantic_node \<Rightarrow> js_string \<Rightarrow> int \<Rightarrow> node_result \<times> int"
  and diagnoseLevel :: "match_env \<Rightarrow> node_pattern list \<Rightarrow> node_pattern list \<Rightarrow> semantic_node list \<Rightarrow> js_string \<Rightarrow> int \<Rightarrow> mismatch"
  and firstMatch :: "match_env \<Rightarrow> node_pattern \<Rightarrow> semantic_node list \<Rightarrow> js_string \<Rightarrow> int \<Rightarrow> node_result option \<Rightarrow> bool \<times> node_result option"
where
  "matchLevel env patterns nodes trail budget =
     (if patterns = [] then (None, True, budget)
      else case search env patterns nodes trail budget of
             (True, b) \<Rightarrow> (None, True, b)
           | (False, b) \<Rightarrow> (Some (diagnoseLevel env patterns patterns nodes trail b), False, b))"
| "search env [] nodes trail budget = (True, budget)"
| "search env (pattern # patterns) [] trail budget = (False, budget)"
| "search env (pattern # patterns) (node # nodes) trail budget =
     (if budget \<le> 0 then (False, budget)
      else case matchNode env pattern node trail (budget - 1) of
             (NodeOk, b) \<Rightarrow>
               (case search env patterns nodes trail b of
                  (True, b1) \<Rightarrow> (True, b1)
                | (False, b1) \<Rightarrow> search env (pattern # patterns) nodes trail b1)
           | (NodeFailure _ _, b) \<Rightarrow> search env (pattern # patterns) nodes trail b)"
| "matchNode env (NodePattern r name flags children head) node trail budget =
     (case headProblem (envNumberText env) (NodePattern r name flags children head) node of
        Some reason \<Rightarrow> (NodeFailure reason None, budget)
      | None \<Rightarrow>
          (case children of
             None \<Rightarrow> (NodeOk, budget)
           | Some patterns \<Rightarrow>
               (case matchLevel env patterns (items (js_get (envChildren env) (nodeId node))) (extendTrail env trail node) budget of
                  (_, True, b) \<Rightarrow> (NodeOk, b)
                | (None, False, b) \<Rightarrow> (NodeFailure (u ''children do not match'') None, b)
                | (Some m, False, b) \<Rightarrow> (NodeFailure (u ''children do not match: '' @ misReason m) (Some m), b))))"
| "diagnoseLevel env all [] nodes trail budget =
     \<lparr>misPath = trail, misExpected = (case all of [] \<Rightarrow> [] | p # _ \<Rightarrow> patHead p),
      misReason = u ''every expected node exists, but not in the expected order''\<rparr>"
| "diagnoseLevel env all (pattern # patterns) nodes trail budget =
     (case firstMatch env pattern nodes trail budget None of
        (True, _) \<Rightarrow> diagnoseLevel env all patterns nodes trail budget
      | (False, best) \<Rightarrow> noCandidate trail pattern nodes best)"
| "firstMatch env pattern [] trail budget best = (False, best)"
| "firstMatch env pattern (node # nodes) trail budget best =
     (case matchNode env pattern node trail (max budget 1000) of
        (NodeOk, _) \<Rightarrow> (True, best)
      | (NodeFailure reason nested, _) \<Rightarrow> firstMatch env pattern nodes trail budget (betterFailure best (NodeFailure reason nested)))"
  by pat_completeness auto
termination
  by (relation "measures [\<lambda>x. case x of Inl (Inl (_, ps, _)) \<Rightarrow> size_list size ps | Inl (Inr (_, ps, _)) \<Rightarrow> size_list size ps
      | Inr (Inl (_, p, _)) \<Rightarrow> size p | Inr (Inr (Inl (_, _, ps, _))) \<Rightarrow> size_list size ps | Inr (Inr (Inr (_, p, _))) \<Rightarrow> size p,
    \<lambda>x. case x of Inl (Inl _) \<Rightarrow> 3 | Inl (Inr _) \<Rightarrow> 2 | Inr (Inl _) \<Rightarrow> 0 | Inr (Inr (Inl _)) \<Rightarrow> 2 | Inr (Inr (Inr _)) \<Rightarrow> 1,
    \<lambda>x. case x of Inl (Inr (_, _, ns, _)) \<Rightarrow> length ns | Inr (Inr (Inr (_, _, ns, _))) \<Rightarrow> length ns | _ \<Rightarrow> 0]") simp_all

record match_options =
  matchRootId :: "node_id option"
  matchIncludeRoot :: bool
  maxComparisons :: int

definition matchSemanticSnapshot ::
  "(rat \<Rightarrow> js_string) \<Rightarrow> node_pattern list \<Rightarrow> tree_snapshot \<Rightarrow> match_options \<Rightarrow> bool \<times> mismatch option" where
  "matchSemanticSnapshot numberText patterns snapshot options =
     (let children = childIndex (treeNodes snapshot);
          roots = topLevel snapshot children (matchRootId options) (matchIncludeRoot options)
      in case matchLevel \<lparr>envNumberText = numberText, envChildren = children\<rparr> patterns roots [] (maxComparisons options) of
           (m, ok, _) \<Rightarrow> (ok, m))"

end
