(* ===== verification/Yaml_Props.thy ===== *)
theory Yaml_Props
  imports Yaml_Pattern Snapshot_Props "HOL-Library.Sublist"
begin

text \<open>
  Properties of the snapshot patterns. \<open>fitsNode\<close> and \<open>levelFits\<close> say what a match is: the patterns of a level fit a subsequence of the
  nodes there. The backtracking search never accepts anything else, and decides it when the ceiling exceeds \<open>searchCost\<close>, the
  number of comparisons of the search that never succeeds.
\<close>

section \<open>What a match is\<close>

definition flagHolds :: "(rat \<Rightarrow> js_string) \<Rightarrow> flag_assertion \<Rightarrow> json option \<Rightarrow> bool" where
  "flagHolds numberText flag actual \<longleftrightarrow>
     (if flagNegated flag then actual \<in> {None, Some (JBool False)}
      else case flagValue flag of
             None \<Rightarrow> actual = Some (JBool True)
           | Some value \<Rightarrow> (case actual of None \<Rightarrow> u ''undefined'' | Some v \<Rightarrow> js_String numberText v) = value)"

definition headFits :: "(rat \<Rightarrow> js_string) \<Rightarrow> node_pattern \<Rightarrow> semantic_node \<Rightarrow> bool" where
  "headFits numberText p n \<longleftrightarrow> patRole p \<in> {u ''*'', role n} \<and>
     (\<forall>m. patName p = Some m \<longrightarrow> nameTest m (normalizeName (nodeName n))) \<and>
     (\<forall>flag \<in> set (patFlags p). flagHolds numberText flag (Option.bind (nodeState n) (\<lambda>st. js_get st (flagKey flag))))"

inductive fitsNode :: "match_env \<Rightarrow> node_pattern \<Rightarrow> semantic_node \<Rightarrow> bool" for env where
  leaf: "headFits (envNumberText env) p n \<Longrightarrow> patChildren p = None \<Longrightarrow> fitsNode env p n"
| inner: "headFits (envNumberText env) p n \<Longrightarrow> patChildren p = Some ps \<Longrightarrow>
    subseq found (items (js_get (envChildren env) (nodeId n))) \<Longrightarrow> list_all2 (fitsNode env) ps found \<Longrightarrow> fitsNode env p n"

definition levelFits :: "match_env \<Rightarrow> node_pattern list \<Rightarrow> semantic_node list \<Rightarrow> bool" where
  "levelFits env ps ns \<longleftrightarrow> (\<exists>found. subseq found ns \<and> list_all2 (fitsNode env) ps found)"

lemma matchFlag_None: "matchFlag numberText flag state = None \<longleftrightarrow> flagHolds numberText flag (Option.bind state (\<lambda>st. js_get st (flagKey flag)))"
  by (auto simp: matchFlag_def flagHolds_def Let_def split: option.splits)

lemma headProblem_None: "headProblem numberText p n = None \<longleftrightarrow> headFits numberText p n"
proof -
  have empty: "List.map_filter f xs = [] \<longleftrightarrow> (\<forall>x \<in> set xs. f x = None)" for f :: "flag_assertion \<Rightarrow> js_string option" and xs
    by (induction xs) (auto simp: List.map_filter_simps split: option.splits)
  have first: "(case rs of [] \<Rightarrow> None | r # _ \<Rightarrow> Some r) = None \<longleftrightarrow> rs = []" for rs :: "js_string list"
    by (cases rs) simp_all
  show ?thesis
    by (cases "patName p") (auto simp: headProblem_def headFits_def first empty matchFlag_None Let_def split: if_splits)
qed

lemma fitsNode_iff:
  "fitsNode env p n \<longleftrightarrow> headFits (envNumberText env) p n \<and>
     (case patChildren p of None \<Rightarrow> True | Some ps \<Rightarrow> levelFits env ps (items (js_get (envChildren env) (nodeId n))))"
  by (subst fitsNode.simps) (auto simp: levelFits_def split: option.splits)

lemma levelFits_Nil [simp]: "levelFits env [] ns"
  by (auto simp: levelFits_def intro: exI [of _ "[]"])

lemma levelFits_Nil2 [simp]: "\<not> levelFits env (p # ps) []"
  by (auto simp: levelFits_def list_all2_Cons1)

lemma levelFits_Cons: "levelFits env (p # ps) (n # ns) \<longleftrightarrow> fitsNode env p n \<and> levelFits env ps ns \<or> levelFits env (p # ps) ns"
proof
  assume "levelFits env (p # ps) (n # ns)"
  then obtain m found where "subseq (m # found) (n # ns)" "fitsNode env p m" "list_all2 (fitsNode env) ps found"
    by (auto simp: levelFits_def list_all2_Cons1)
  then show "fitsNode env p n \<and> levelFits env ps ns \<or> levelFits env (p # ps) ns"
    by (cases "m = n") (auto simp: levelFits_def)
next
  assume "fitsNode env p n \<and> levelFits env ps ns \<or> levelFits env (p # ps) ns"
  then show "levelFits env (p # ps) (n # ns)"
  proof
    assume "fitsNode env p n \<and> levelFits env ps ns"
    then obtain found where "fitsNode env p n" "subseq found ns" "list_all2 (fitsNode env) ps found" by (auto simp: levelFits_def)
    then show ?thesis by (auto simp: levelFits_def intro!: exI [of _ "n # found"])
  qed (auto simp: levelFits_def)
qed

text \<open>When the rest of the patterns does not fit behind a candidate, a later candidate does not help: the search steps back in vain.\<close>

lemma levelFits_weaken: "levelFits env (p # ps) ns \<Longrightarrow> levelFits env ps ns"
  by (induction ns) (auto simp: levelFits_Cons, (metis levelFits_Cons levelFits_Nil neq_Nil_conv)+)

section \<open>The search\<close>

text \<open>The comparisons of a search that visits everything.\<close>

function searchCost :: "match_env \<Rightarrow> node_pattern list \<Rightarrow> semantic_node list \<Rightarrow> nat"
  and nodeCost :: "match_env \<Rightarrow> node_pattern \<Rightarrow> semantic_node \<Rightarrow> nat" where
  "searchCost env [] ns = 0"
| "searchCost env (p # ps) [] = 0"
| "searchCost env (p # ps) (n # ns) = Suc (nodeCost env p n + searchCost env ps ns + searchCost env (p # ps) ns)"
| "nodeCost env (NodePattern r name flags children head) n =
     (case children of None \<Rightarrow> 0 | Some ps \<Rightarrow> searchCost env ps (items (js_get (envChildren env) (nodeId n))))"
  by pat_completeness auto
termination
  by (relation "measures [\<lambda>x. case x of Inl (_, ps, _) \<Rightarrow> size_list size ps | Inr (_, p, _) \<Rightarrow> size p,
    \<lambda>x. case x of Inl (_, _, ns) \<Rightarrow> length ns | _ \<Rightarrow> 0]") simp_all

text \<open>The result and the budget that is left, against the budget at the start: nothing but a match is accepted, and a result with budget
  left is right.\<close>

definition decides :: "int \<Rightarrow> nat \<Rightarrow> bool \<Rightarrow> int \<Rightarrow> bool \<Rightarrow> bool" where
  "decides b cost ok rest spec \<longleftrightarrow> rest \<le> b \<and> b - int cost \<le> rest \<and> (ok \<longrightarrow> spec) \<and> (0 < rest \<longrightarrow> ok = spec)"

lemma match_decides:
  "decides b (searchCost env ps ns) (fst (snd (matchLevel env ps ns trail b))) (snd (snd (matchLevel env ps ns trail b))) (levelFits env ps ns)"
  "decides b (searchCost env ps ns) (fst (search env ps ns trail b)) (snd (search env ps ns trail b)) (levelFits env ps ns)"
  "decides b (nodeCost env p n) (fst (matchNode env p n trail b) = NodeOk) (snd (matchNode env p n trail b)) (fitsNode env p n)"
  "diagnoseLevel env every ps ns trail b = diagnoseLevel env every ps ns trail b"
  "firstMatch env p ns trail b best = firstMatch env p ns trail b best"
proof (induction env ps ns trail b and env ps ns trail b and env p n trail b and env every ps ns trail b and env p ns trail b best
    rule: matchLevel_search_matchNode_diagnoseLevel_firstMatch.induct)
  case (1 env patterns nodes trail budget)
  then show ?case by (auto simp: decides_def split: prod.splits bool.splits)
next
  case (4 env pattern patterns node nodes trail budget)
  show ?case
  proof (cases "budget \<le> 0")
    case False
    obtain r b where m: "matchNode env pattern node trail (budget - 1) = (r, b)" by fastforce
    have node: "decides (budget - 1) (nodeCost env pattern node) (r = NodeOk) b (fitsNode env pattern node)" using 4(1) False m by simp
    show ?thesis
    proof (cases r)
      case NodeOk
      obtain ok b1 where s: "search env patterns nodes trail b = (ok, b1)" by fastforce
      have sub: "decides b (searchCost env patterns nodes) ok b1 (levelFits env patterns nodes)" using 4(2) False m NodeOk s by simp
      show ?thesis
      proof (cases ok)
        case True
        then show ?thesis using False m NodeOk s node sub by (simp add: decides_def levelFits_Cons)
      next
        case no: False
        then have "decides b1 (searchCost env (pattern # patterns) nodes) (fst (search env (pattern # patterns) nodes trail b1))
            (snd (search env (pattern # patterns) nodes trail b1)) (levelFits env (pattern # patterns) nodes)"
          using 4(3) False m NodeOk s by simp
        then show ?thesis using False m NodeOk s node sub no unfolding levelFits_Cons decides_def by auto
      qed
    next
      case (NodeFailure x y)
      then have "decides b (searchCost env (pattern # patterns) nodes) (fst (search env (pattern # patterns) nodes trail b))
            (snd (search env (pattern # patterns) nodes trail b)) (levelFits env (pattern # patterns) nodes)"
        using 4(4) False m by simp
      then show ?thesis using False m NodeFailure node unfolding levelFits_Cons decides_def by auto
    qed
  qed (simp add: decides_def)
next
  case (5 env r name flags children head node trail budget)
  let ?p = "NodePattern r name flags children head" and ?kids = "items (js_get (envChildren env) (nodeId node))"
  show ?case
  proof (cases "headProblem (envNumberText env) ?p node = None \<and> children \<noteq> None")
    case True
    then obtain ps where ps: "children = Some ps" "headProblem (envNumberText env) (NodePattern r name flags (Some ps) head) node = None" by auto
    obtain m ok b where l: "matchLevel env ps ?kids (extendTrail env trail node) budget = (m, ok, b)" using prod_cases3 by blast
    have "decides budget (searchCost env ps ?kids) ok b (levelFits env ps ?kids)" using 5 [OF _ ps(1)] ps l by simp
    moreover have "fitsNode env ?p node = levelFits env ps ?kids"
      using ps(2) unfolding ps(1) fitsNode_iff headProblem_None by simp
    ultimately show ?thesis using ps l by (cases ok; cases m) (simp_all del: matchLevel.simps)
  next
    case False
    then show ?thesis
      by (cases "headProblem (envNumberText env) ?p node"; cases children) (simp_all add: decides_def fitsNode_iff headProblem_None [symmetric])
  qed
qed (auto simp: decides_def)

text \<open>C17: A snapshot that is accepted has the expected structure: the patterns of every level fit a subsequence of the nodes there. With a
  ceiling above the number of comparisons of a full search the matcher accepts exactly these.\<close>

theorem snapshot_match_exact:
  assumes "env = \<lparr>envNumberText = numberText, envChildren = childIndex (treeNodes t)\<rparr>"
    and "roots = topLevel t (childIndex (treeNodes t)) (matchRootId opts) (matchIncludeRoot opts)"
  shows "(fst (matchSemanticSnapshot numberText ps t opts) \<longrightarrow> levelFits env ps roots) \<and>
    (int (searchCost env ps roots) < maxComparisons opts \<longrightarrow> (fst (matchSemanticSnapshot numberText ps t opts) \<longleftrightarrow> levelFits env ps roots))"
  using match_decides(1) [of "maxComparisons opts" env ps roots "[]"]
  by (auto simp: assms matchSemanticSnapshot_def decides_def Let_def simp del: matchLevel.simps split: prod.splits)

text \<open>A pattern with a child, on the tree of two nodes.\<close>

definition demo_pattern :: "node_pattern list" where
  "demo_pattern = [NodePattern (u ''*'') None [] (Some [NodePattern (u ''*'') None [\<lparr>flagKey = u ''focused'', flagNegated = True, flagValue = None,
     flagSource = u ''!focused''\<rparr>] None (u ''* [!focused]'')]) (u ''*'')]"

lemma demo_pattern_accepted:
  "fst (matchSemanticSnapshot (\<lambda>_. []) demo_pattern demo_tree \<lparr>matchRootId = None, matchIncludeRoot = True, maxComparisons = 50000\<rparr>)"
  by code_simp

lemma demo_pattern_refused:
  "\<not> fst (matchSemanticSnapshot (\<lambda>_. []) (demo_pattern @ demo_pattern) demo_tree \<lparr>matchRootId = None, matchIncludeRoot = True, maxComparisons = 50000\<rparr>)"
  "searchCost \<lparr>envNumberText = (\<lambda>_. []), envChildren = childIndex (treeNodes demo_tree)\<rparr> (demo_pattern @ demo_pattern)
     (topLevel demo_tree (childIndex (treeNodes demo_tree)) None True) < 50000"
  by code_simp+

theorem snapshot_match_exact_witness:
  "levelFits \<lparr>envNumberText = (\<lambda>_. []), envChildren = childIndex (treeNodes demo_tree)\<rparr> demo_pattern
     (topLevel demo_tree (childIndex (treeNodes demo_tree)) None True) \<and>
   \<not> levelFits \<lparr>envNumberText = (\<lambda>_. []), envChildren = childIndex (treeNodes demo_tree)\<rparr> (demo_pattern @ demo_pattern)
     (topLevel demo_tree (childIndex (treeNodes demo_tree)) None True)"
proof -
  let ?opts = "\<lparr>matchRootId = None, matchIncludeRoot = True, maxComparisons = 50000\<rparr>"
  show ?thesis
    using snapshot_match_exact [OF refl refl, of "\<lambda>_. []" demo_pattern demo_tree ?opts]
      snapshot_match_exact [OF refl refl, of "\<lambda>_. []" "demo_pattern @ demo_pattern" demo_tree ?opts]
      demo_pattern_accepted demo_pattern_refused by simp
qed

end
