(* ===== verification/Yaml_Print.thy ===== *)
theory Yaml_Print
  imports Yaml Snapshot_Props "HOL-Library.Multiset"
begin

text \<open>
  The printer of snapshots on a validated tree: it returns, and prints every node once, indented by its depth. \<open>visit\<close> lists the nodes
  in the order of printing with a bound on the depth; level by level the nodes it meets are all the nodes of that depth.
\<close>

section \<open>Children\<close>

abbreviation kids_of :: "semantic_node list \<Rightarrow> semantic_node \<Rightarrow> semantic_node list" where
  "kids_of ns n \<equiv> filter (\<lambda>c. parentId c = Some (nodeId n)) ns"

lemma childIndex_get: "items (js_get (childIndex ns) p) = filter (\<lambda>c. parentId c = Some p) ns"
proof -
  have "items (js_get (fold (\<lambda>node children. case parentId node of None \<Rightarrow> children
      | Some q \<Rightarrow> js_set q (items (js_get children q) @ [node]) children) ns acc) p) = items (js_get acc p) @ filter (\<lambda>c. parentId c = Some p) ns" for acc
    by (induction ns arbitrary: acc) (auto simp: update_conv' split: option.splits)
  from this [of "[]"] show ?thesis by (simp add: childIndex_def)
qed

lemma filter_disjoint:
  "(\<And>x. \<not> (p x \<and> q x)) \<Longrightarrow> mset (filter (\<lambda>x. p x \<or> q x) xs) = mset (filter p xs) + mset (filter q xs)"
  by (induction xs) auto

lemma kids_concat:
  "distinct (map nodeId ps) \<Longrightarrow> mset (concat (map (kids_of ns) ps)) = mset (filter (\<lambda>c. \<exists>n \<in> set ps. parentId c = Some (nodeId n)) ns)"
proof (induction ps)
  case (Cons p ps)
  have "mset (filter (\<lambda>c. parentId c = Some (nodeId p) \<or> (\<exists>n \<in> set ps. parentId c = Some (nodeId n))) ns) =
      mset (kids_of ns p) + mset (filter (\<lambda>c. \<exists>n \<in> set ps. parentId c = Some (nodeId n)) ns)"
    using Cons.prems by (intro filter_disjoint) (auto simp: image_iff)
  then show ?case using Cons by simp
qed simp

section \<open>Visiting\<close>

primrec visit :: "nat \<Rightarrow> semantic_node list \<Rightarrow> semantic_node list \<Rightarrow> nat \<Rightarrow> (semantic_node \<times> nat) list" where
  "visit 0 ns xs d = []"
| "visit (Suc f) ns xs d = concat (map (\<lambda>n. (n, d) # visit f ns (kids_of ns n) (Suc d)) xs)"

lemma visit_append: "visit f ns (xs @ ys) d = visit f ns xs d @ visit f ns ys d"
  by (cases f) simp_all

lemma visit_mset: "mset xs = mset ys \<Longrightarrow> mset (visit f ns xs d) = mset (visit f ns ys d)"
proof (induction xs arbitrary: ys)
  case (Cons x xs)
  then have "x \<in> set ys" by (metis list.set_intros(1) set_mset_mset)
  then obtain as bs where ys: "ys = as @ x # bs" by (meson split_list)
  with Cons have "mset (visit f ns xs d) = mset (visit f ns (as @ bs) d)" by simp
  then show ?case unfolding ys visit_append [of f ns "[x]" xs, simplified] visit_append [of f ns as]
      visit_append [of f ns "[x]" bs, simplified] by (simp add: visit_append)
qed simp

lemma visit_level: "mset (map fst (visit (Suc f) ns xs d)) = mset xs + mset (map fst (visit f ns (concat (map (kids_of ns) xs)) (Suc d)))"
proof (induction xs)
  case Nil
  then show ?case by (cases f) simp_all
next
  case (Cons x xs)
  then show ?case by (simp add: visit_append)
qed

lemma visit_depth: "\<forall>n \<in> set xs. depth_of ns (nodeId n) (Suc d) \<Longrightarrow> \<forall>(n, k) \<in> set (visit f ns xs d). depth_of ns (nodeId n) (Suc k)"
proof (induction f arbitrary: xs d)
  case (Suc f)
  have "\<forall>(m, k) \<in> set (visit f ns (kids_of ns n) (Suc d)). depth_of ns (nodeId m) (Suc k)" if "n \<in> set xs" for n
    using Suc.prems that by (intro Suc.IH) (auto intro: depth_child)
  with Suc.prems show ?case by auto
qed simp

lemma depth_unique: "depth_of ns i d \<Longrightarrow> tree_ok ns \<Longrightarrow> depth_of ns i e \<Longrightarrow> d = e"
proof (induction arbitrary: e rule: depth_of.induct)
  case (depth_root n)
  have same: "m = n" if "m \<in> set ns" "nodeId m = nodeId n" for m
    using that depth_root.hyps(1) depth_root.prems(1) unfolding tree_ok_def distinct_map by (meson inj_onD)
  from depth_root.prems(2) show ?case by cases (use same depth_root.hyps in auto)
next
  case (depth_child n p d)
  have same: "m = n" if "m \<in> set ns" "nodeId m = nodeId n" for m
    using that depth_child.hyps(1) depth_child.prems(1) unfolding tree_ok_def distinct_map by (meson inj_onD)
  from depth_child.prems(2) show ?case
  proof cases
    case (depth_root m)
    with same depth_child.hyps(2) show ?thesis by auto
  next
    case (depth_child m q k)
    with same depth_child.hyps(2) have "depth_of ns p k" "e = Suc k" by auto
    with depth_child.IH depth_child.prems(1) show ?thesis by simp
  qed
qed

lemma depth_positive: "depth_of ns i d \<Longrightarrow> 0 < d"
  by (cases rule: depth_of.cases) auto

lemma validated_roots:
  assumes "checkSnapshot l t = None" "n \<in> set (treeNodes t)"
  shows "nodeId n \<in> set (rootIds t) \<longleftrightarrow> depth_of (treeNodes t) (nodeId n) (Suc 0)"
proof -
  let ?ns = "treeNodes t"
  have inj: "m = n" if "m \<in> set ?ns" "nodeId m = nodeId n" for m
    using validated_depths(1) [OF assms(1)] that assms(2) unfolding tree_ok_def distinct_map by (meson inj_onD)
  have "nodeId n \<in> set (rootIds t) \<longleftrightarrow> parentId n = None"
    using validated_root_ids [OF assms(1)] inj assms(2) by (auto simp: image_iff)
  also have "\<dots> \<longleftrightarrow> depth_of ?ns (nodeId n) (Suc 0)"
  proof
    assume "depth_of ?ns (nodeId n) (Suc 0)"
    then show "parentId n = None" using inj by cases (auto dest: depth_positive)
  qed (use depth_root [OF assms(2)] in simp)
  finally show ?thesis .
qed

section \<open>Printing\<close>

lemma emit_visit:
  assumes ok: "tree_ok ns" and deep: "\<And>n. n \<in> set ns \<Longrightarrow> \<exists>d \<le> D. depth_of ns (nodeId n) d" and shown: "\<not> skipHidden opts"
  shows "\<forall>n \<in> set xs. n \<in> set ns \<and> depth_of ns (nodeId n) (Suc d) \<Longrightarrow> D < Suc d + f \<Longrightarrow>
    emitNodes nt opts (childIndex ns) xs d = Some (map (\<lambda>(n, k). nodeLine nt opts (childIndex ns) n k) (visit f ns xs d))"
proof (induction f arbitrary: xs d)
  case 0
  have "xs = []"
  proof (cases xs)
    case (Cons n ys)
    with 0(1) have n: "n \<in> set ns" "depth_of ns (nodeId n) (Suc d)" by simp_all
    then obtain e where "e \<le> D" "depth_of ns (nodeId n) e" using deep by blast
    with depth_unique [OF n(2) ok] 0(2) show ?thesis by simp
  qed
  then show ?case by (subst emitNodes.simps) simp
next
  case (Suc f)
  note outer = Suc
  show ?case using Suc.prems(1)
  proof (induction xs)
    case Nil
    then show ?case by (subst emitNodes.simps) simp
  next
    case (Cons n ys)
    have kids: "shownKids opts (childIndex ns) n = kids_of ns n" using shown by (simp add: shownKids_def childIndex_get)
    have "emitNodes nt opts (childIndex ns) (kids_of ns n) (Suc d) =
        Some (map (\<lambda>(n, k). nodeLine nt opts (childIndex ns) n k) (visit f ns (kids_of ns n) (Suc d)))"
      using Cons.prems outer(3) by (intro outer(1)) (auto intro: depth_child)
    moreover have "emitNodes nt opts (childIndex ns) ys d = Some (map (\<lambda>(n, k). nodeLine nt opts (childIndex ns) n k) (visit (Suc f) ns ys d))"
      using Cons by simp
    ultimately show ?case using shown kids by (subst emitNodes.simps) simp
  qed
qed

text \<open>The nodes of one depth are the children of those of the depth before.\<close>

lemma visit_levels:
  assumes ok: "tree_ok ns" and deep: "\<And>n. n \<in> set ns \<Longrightarrow> \<exists>d \<le> D. depth_of ns (nodeId n) d"
  shows "D < Suc d + f \<Longrightarrow> mset (map fst (visit f ns (filter (\<lambda>n. depth_of ns (nodeId n) (Suc d)) ns) d)) =
    mset (filter (\<lambda>n. \<exists>e > d. depth_of ns (nodeId n) e) ns)"
proof (induction f arbitrary: d)
  case 0
  have "\<not> (\<exists>e > d. depth_of ns (nodeId n) e)" if "n \<in> set ns" for n
  proof
    note n = that
    assume "\<exists>e > d. depth_of ns (nodeId n) e"
    then obtain e where e: "d < e" "depth_of ns (nodeId n) e" by blast
    obtain k where "k \<le> D" "depth_of ns (nodeId n) k" using deep [OF n] by blast
    with depth_unique [OF e(2) ok] e(1) 0 show False by simp
  qed
  then have "filter (\<lambda>n. \<exists>e > d. depth_of ns (nodeId n) e) ns = []" by (simp add: filter_empty_conv)
  then show ?case by simp
next
  case (Suc f)
  let ?level = "\<lambda>d. filter (\<lambda>n. depth_of ns (nodeId n) (Suc d)) ns"
  have "mset (concat (map (kids_of ns) (?level d))) = mset (filter (\<lambda>c. \<exists>n \<in> set (?level d). parentId c = Some (nodeId n)) ns)"
    using ok by (intro kids_concat) (simp add: tree_ok_def distinct_map_filter)
  also have "filter (\<lambda>c. \<exists>n \<in> set (?level d). parentId c = Some (nodeId n)) ns = ?level (Suc d)"
  proof (rule filter_cong [OF refl])
    fix c assume c: "c \<in> set ns"
    show "(\<exists>n \<in> set (?level d). parentId c = Some (nodeId n)) = depth_of ns (nodeId c) (Suc (Suc d))"
    proof
      assume "\<exists>n \<in> set (?level d). parentId c = Some (nodeId n)"
      with c show "depth_of ns (nodeId c) (Suc (Suc d))" by (auto intro: depth_child)
    next
      assume "depth_of ns (nodeId c) (Suc (Suc d))"
      then obtain m p where m: "m \<in> set ns" "nodeId m = nodeId c" "parentId m = Some p" "depth_of ns p (Suc d)" by cases auto
      with c ok have "m = c" unfolding tree_ok_def distinct_map by (meson inj_onD)
      moreover obtain n where "n \<in> set ns" "nodeId n = p" using m ok by (auto simp: tree_ok_def)
      ultimately show "\<exists>n \<in> set (?level d). parentId c = Some (nodeId n)" using m by auto
    qed
  qed
  finally have "mset (visit f ns (concat (map (kids_of ns) (?level d))) (Suc d)) = mset (visit f ns (?level (Suc d)) (Suc d))" by (rule visit_mset)
  then have "mset (map fst (visit f ns (concat (map (kids_of ns) (?level d))) (Suc d))) = mset (map fst (visit f ns (?level (Suc d)) (Suc d)))"
    by (simp only: mset_map)
  also have "\<dots> = mset (filter (\<lambda>n. \<exists>e > Suc d. depth_of ns (nodeId n) e) ns)" using Suc.IH [of "Suc d"] Suc.prems by simp
  finally have "mset (map fst (visit (Suc f) ns (?level d) d)) = mset (?level d) + mset (filter (\<lambda>n. \<exists>e > Suc d. depth_of ns (nodeId n) e) ns)"
    by (simp only: visit_level)
  also have "\<dots> = mset (filter (\<lambda>n. depth_of ns (nodeId n) (Suc d) \<or> (\<exists>e > Suc d. depth_of ns (nodeId n) e)) ns)"
    using depth_unique [OF _ ok] by (intro filter_disjoint [symmetric]) blast
  also have "(\<lambda>n. depth_of ns (nodeId n) (Suc d) \<or> (\<exists>e > Suc d. depth_of ns (nodeId n) e)) = (\<lambda>n. \<exists>e > d. depth_of ns (nodeId n) e)"
    by (rule ext) (metis Suc_lessI less_Suc_eq Suc_lessD)
  finally show ?case .
qed

text \<open>C28: A validated snapshot is printed: the recursion over the children ends, every node has one line, and a line is indented by the
  depth of its node.\<close>

theorem serialize_complete:
  assumes "checkSnapshot l t = None" and "optRootId opts = None" and "\<not> skipHidden opts"
  shows "\<exists>visited. serializeSemanticSnapshot nt t opts = Some (if visited = [] then []
        else join_with [10] (map (\<lambda>(n, k). nodeLine nt opts (childIndex (treeNodes t)) n k) visited) @ [10]) \<and>
     mset (map fst visited) = mset (treeNodes t) \<and> (\<forall>(n, k) \<in> set visited. depth_of (treeNodes t) (nodeId n) (Suc k))"
proof -
  let ?ns = "treeNodes t" and ?f = "Suc (maxDepthL l)"
  note ok = validated_depths(1) [OF assms(1)] and deep = validated_depths(2) [OF assms(1)]
  have roots: "topLevel t (childIndex ?ns) None (optIncludeRoot opts) = filter (\<lambda>n. depth_of ?ns (nodeId n) (Suc 0)) ?ns"
    unfolding topLevel_def option.case by (rule filter_cong [OF refl], rule validated_roots [OF assms(1)])
  define visited where "visited = visit ?f ?ns (filter (\<lambda>n. depth_of ?ns (nodeId n) (Suc 0)) ?ns) 0"
  have "emitNodes nt opts (childIndex ?ns) (filter (\<lambda>n. depth_of ?ns (nodeId n) (Suc 0)) ?ns) 0 =
      Some (map (\<lambda>(n, k). nodeLine nt opts (childIndex ?ns) n k) visited)"
    unfolding visited_def using ok deep assms(3) by (intro emit_visit [where D = "maxDepthL l"]) auto
  then have "serializeSemanticSnapshot nt t opts = Some (if visited = [] then []
        else join_with [10] (map (\<lambda>(n, k). nodeLine nt opts (childIndex ?ns) n k) visited) @ [10])"
    by (simp add: serializeSemanticSnapshot_def assms(2) roots Let_def)
  moreover have "mset (map fst visited) = mset ?ns"
  proof -
    have "filter (\<lambda>n. \<exists>e > 0. depth_of ?ns (nodeId n) e) ?ns = ?ns"
      using deep by (intro filter_True ballI) (metis depth_positive)
    then show ?thesis using visit_levels [OF ok deep, of 0 ?f] unfolding visited_def by simp
  qed
  moreover have "\<forall>(n, k) \<in> set visited. depth_of ?ns (nodeId n) (Suc k)" unfolding visited_def by (rule visit_depth) simp
  ultimately show ?thesis by blast
qed

definition plain_options :: serialize_options where
  "plain_options = \<lparr>optStates = Stable, optIndent = 4, optRootId = None, optIncludeRoot = True, skipHidden = False\<rparr>"

theorem serialize_complete_witness:
  "\<exists>visited. serializeSemanticSnapshot (\<lambda>_. []) demo_tree plain_options = Some (if visited = [] then []
        else join_with [10] (map (\<lambda>(n, k). nodeLine (\<lambda>_. []) plain_options (childIndex (treeNodes demo_tree)) n k) visited) @ [10]) \<and>
     mset (map fst visited) = mset (treeNodes demo_tree) \<and> (\<forall>(n, k) \<in> set visited. depth_of (treeNodes demo_tree) (nodeId n) (Suc k))"
  using serialize_complete [OF demo_tree_ok, of plain_options "\<lambda>_. []"] by (simp add: plain_options_def)

end
