(* ===== verification/Yaml_Head.thy ===== *)
theory Yaml_Head
  imports Yaml_Props Yaml_Print
begin

text \<open>
  The printed head of a node is read back as a pattern that the node fits: normalised names, strings in JSON, the head expression and
  the flags, one layer after the other.
\<close>

section \<open>Names\<close>

text \<open>Only single blanks.\<close>

fun tidy :: "js_string \<Rightarrow> bool" where
  "tidy [] \<longleftrightarrow> True"
| "tidy [c] \<longleftrightarrow> (space_unit c \<longrightarrow> c = 32)"
| "tidy (c # d # s) \<longleftrightarrow> (space_unit c \<longrightarrow> c = 32 \<and> \<not> space_unit d) \<and> tidy (d # s)"

lemma blank_space [simp]: "space_unit 32"
  by (simp add: space_unit_def)

lemma tidy_Cons: "tidy (c # s) \<longleftrightarrow> (space_unit c \<longrightarrow> c = 32 \<and> (s = [] \<or> \<not> space_unit (hd s))) \<and> tidy s"
  by (cases s) auto

lemma dropWhile_hd: "dropWhile p xs = ys \<Longrightarrow> ys = [] \<or> \<not> p (hd ys)"
  by (cases ys) (auto simp: dropWhile_eq_Cons_conv)

lemma collapse_hd: "collapseSpaces s \<noteq> [] \<Longrightarrow> space_unit (hd (collapseSpaces s)) = space_unit (hd s)"
  by (cases s) auto

lemma collapse_tidy: "tidy (collapseSpaces s)"
proof (induction s rule: collapseSpaces.induct)
  case (2 c s)
  have "collapseSpaces (dropWhile space_unit s) = [] \<or> \<not> space_unit (hd (collapseSpaces (dropWhile space_unit s)))"
  proof -
    obtain ys where "dropWhile space_unit s = ys" by simp
    with dropWhile_hd [OF this] collapse_hd [of ys] show ?thesis by auto
  qed
  with 2 show ?case by (simp add: tidy_Cons)
qed simp

lemma tidy_collapse: "tidy s \<Longrightarrow> collapseSpaces s = s"
proof (induction s)
  case (Cons c s)
  then have "space_unit c \<longrightarrow> dropWhile space_unit s = s" by (cases s) auto
  with Cons show ?case by (auto simp: tidy_Cons)
qed simp

lemma tidy_append: "tidy (xs @ ys) \<Longrightarrow> tidy xs \<and> tidy ys"
  by (induction xs) (auto simp: tidy_Cons)

lemma trim_split: "\<exists>xs ys. s = xs @ trim s @ ys"
proof -
  let ?t = "rev (dropWhile space_unit (rev s))"
  have "s = ?t @ rev (takeWhile space_unit (rev s))"
    by (metis rev_append rev_rev_ident takeWhile_dropWhile_id)
  moreover have "?t = takeWhile space_unit ?t @ trim s" by (simp add: trim_def)
  ultimately show ?thesis by (metis append.assoc)
qed

lemma trim_id: "s = [] \<or> \<not> space_unit (hd s) \<and> \<not> space_unit (last s) \<Longrightarrow> trim s = s"
proof -
  have id: "dropWhile space_unit t = t" if "t = [] \<or> \<not> space_unit (hd t)" for t using that by (cases t) auto
  assume "s = [] \<or> \<not> space_unit (hd s) \<and> \<not> space_unit (last s)"
  then show ?thesis unfolding trim_def by (subst id [of "rev s"]) (auto simp: hd_rev id)
qed

lemma trim_ends: "trim s = [] \<or> \<not> space_unit (hd (trim s)) \<and> \<not> space_unit (last (trim s))"
proof -
  obtain r where r: "dropWhile space_unit (rev s) = r" by simp
  obtain t where t: "dropWhile space_unit (rev r) = t" by simp
  have "last t = hd r" if "t \<noteq> []" using that t by (metis last_appendR last_rev takeWhile_dropWhile_id)
  moreover have "r \<noteq> []" if "t \<noteq> []" using that t by auto
  moreover have "trim s = t" by (simp add: trim_def r t)
  ultimately show ?thesis using dropWhile_hd [OF r] dropWhile_hd [OF t] by metis
qed

lemma normalizeName_idem [simp]: "normalizeName (normalizeName s) = normalizeName s"
proof -
  have "tidy (normalizeName s)"
    using trim_split [of "collapseSpaces s"] collapse_tidy [of s] tidy_append unfolding normalizeName_def by metis
  then have "normalizeName (normalizeName s) = trim (trim (collapseSpaces s))"
    unfolding normalizeName_def using tidy_collapse by simp
  then show ?thesis unfolding normalizeName_def using trim_id [OF trim_ends] by simp
qed

section \<open>Strings in JSON\<close>

lemma hexDigit_hexUnit: "n < 16 \<Longrightarrow> hexDigit (hexUnit n) = Some n"
proof -
  have "list_all (\<lambda>n. hexDigit (hexUnit n) = Some n) [0..<16]" by code_simp
  then show "n < 16 \<Longrightarrow> hexDigit (hexUnit n) = Some n" by (simp only: list_all_iff) simp
qed

lemma hex_sum: "16 * (16 * (16 * (n div 4096) + n div 256 mod 16) + n div 16 mod 16) + n mod 16 = (n :: nat)"
  using mult_div_mod_eq [of 16 n] mult_div_mod_eq [of 16 "n div 16"] mult_div_mod_eq [of 16 "n div 256"]
  by (simp add: div_mult2_eq [symmetric])

lemma hexValue_escape: "hexValue (map hexUnit [unat c div 4096, unat c div 256 mod 16, unat c div 16 mod 16, unat (c :: code_unit) mod 16]) = Some (unat c)"
proof -
  have "unat c div 4096 < 16" using unat_unit_lt [of c] by simp
  then show ?thesis using hex_sum [of "unat c"] by (simp add: hexValue_def hexDigit_hexUnit)
qed

lemma u_units [simp]:
  "u [] = []" "u (c # s) = word_of_nat (of_char c) # u s"
  by (simp_all add: u_def)

lemma jsonChars_unit: "jsonChars (jsonUnit c @ t) = map_option ((#) c) (jsonChars t)"
proof (cases "c \<in> {34, 92, 8, 9, 10, 12, 13}")
  case True
  then show ?thesis by (auto simp: jsonUnit_def)
next
  case False
  then show ?thesis
  proof (cases "c < 32 \<or> high_surrogate c \<or> low_surrogate c")
    case True
    with False have "jsonUnit c = 92 # 117 # map hexUnit [unat c div 4096, unat c div 256 mod 16, unat c div 16 mod 16, unat c mod 16]"
      by (simp add: jsonUnit_def unicodeEscape_def)
    then show ?thesis using hexValue_escape [of c] by simp
  next
    case plain: False
    with False have "jsonUnit c = [c]" by (simp add: jsonUnit_def)
    with plain False show ?thesis by simp
  qed
qed

text \<open>What \<open>JSON.stringify\<close> puts between the quotes.\<close>

definition jsonBody :: "js_string \<Rightarrow> js_string" where
  "jsonBody s = concat (map (\<lambda>character. case character of [c] \<Rightarrow> jsonUnit c | cs \<Rightarrow> cs) (characters s))"

lemma jsonString_body: "jsonString s = 34 # jsonBody s @ [34]"
  by (simp add: jsonString_def jsonBody_def)

lemma surrogate_plain: "high_surrogate c \<or> low_surrogate c \<Longrightarrow> c \<noteq> 34 \<and> c \<noteq> 92 \<and> \<not> c < 32 \<and> \<not> line_end c"
  by (auto simp: high_surrogate_def low_surrogate_def line_end_def word_less_nat_alt word_le_nat_alt)

lemma jsonParseString_jsonString: "jsonParseString (jsonString s) = Some s"
proof -
  have "jsonChars (jsonBody s @ [34]) = Some s"
  proof (induction s rule: characters.induct)
    case (3 c d s)
    then show ?case
      using jsonChars_unit surrogate_plain by (cases "high_surrogate c \<and> low_surrogate d") (auto simp: jsonBody_def)
  qed (simp_all add: jsonBody_def jsonChars_unit)
  then show ?thesis by (simp add: jsonParseString_def jsonString_body)
qed

lemma closed_unit: "closedText 34 t = Some (m, r) \<Longrightarrow> closedText 34 (jsonUnit c @ t) = Some (jsonUnit c @ m, r)"
proof -
  assume t: "closedText 34 t = Some (m, r)"
  have hex: "n < 16 \<Longrightarrow> hexUnit n \<noteq> 34 \<and> hexUnit n \<noteq> 92" for n
    using hexDigit_hexUnit [of n] by (auto simp: hexDigit_def digit_unit_def)
  show ?thesis
  proof (cases "c \<in> {34, 92, 8, 9, 10, 12, 13}")
    case True
    then show ?thesis using t by (auto simp: jsonUnit_def line_end_def)
  next
    case False
    show ?thesis
    proof (cases "c < 32 \<or> high_surrogate c \<or> low_surrogate c")
      case True
      have "unat c div 4096 < 16" using unat_unit_lt [of c] by simp
      moreover from False True have "jsonUnit c = 92 # 117 # map hexUnit [unat c div 4096, unat c div 256 mod 16, unat c div 16 mod 16, unat c mod 16]"
        by (simp add: jsonUnit_def unicodeEscape_def)
      ultimately show ?thesis using hex t by (simp add: line_end_def)
    next
      case ok: False
      with False have "jsonUnit c = [c]" by (simp add: jsonUnit_def)
      with False t show ?thesis by simp
    qed
  qed
qed

lemma closed_body: "closedText 34 (jsonBody s @ 34 # t) = Some (jsonBody s @ [34], t)"
proof (induction s rule: characters.induct)
  case (3 c d s)
  then show ?case
    using closed_unit surrogate_plain by (cases "high_surrogate c \<and> low_surrogate d") (auto simp: jsonBody_def)
qed (simp_all add: jsonBody_def closed_unit)

section \<open>Flags\<close>

text \<open>The units of a state value that can be printed in a list of flags.\<close>

definition plain_unit :: "code_unit \<Rightarrow> bool" where
  "plain_unit c \<longleftrightarrow> \<not> space_unit c \<and> c \<noteq> 44 \<and> c \<noteq> 93"

lemma letter_range: "letter_unit c \<Longrightarrow> 65 \<le> unat c \<and> unat c \<le> 122 \<and> c \<noteq> 93"
  unfolding letter_unit_def word_le_nat_alt by (elim disjE) auto

lemma letter_plain: "letter_unit c \<Longrightarrow> plain_unit c \<and> c \<noteq> 33 \<and> c \<noteq> 61 \<and> c \<noteq> 42 \<and> c \<noteq> 34"
proof -
  assume c: "letter_unit c"
  have "\<not> space_unit c" using letter_range [OF c] space_range [of c] by linarith
  moreover have "c \<noteq> 44" "c \<noteq> 33" "c \<noteq> 61" "c \<noteq> 42" "c \<noteq> 34" using letter_range [OF c] by auto
  ultimately show ?thesis using letter_range [OF c] by (simp add: plain_unit_def)
qed

lemma letters_plain: "list_all letter_unit s \<Longrightarrow> list_all plain_unit s"
  by (auto simp: list_all_iff letter_plain)

lemma trim_plain: "list_all plain_unit s \<Longrightarrow> trim s = s"
  by (rule trim_id) (cases s; auto simp: plain_unit_def list_all_iff)

lemma keys_letters: "k \<in> set STATE_KEYS \<Longrightarrow> list_all letter_unit k \<and> k \<noteq> []"
proof -
  have "list_all (\<lambda>k. list_all letter_unit k \<and> k \<noteq> []) STATE_KEYS" by code_simp
  then show "k \<in> set STATE_KEYS \<Longrightarrow> list_all letter_unit k \<and> k \<noteq> []" by (simp only: list_all_iff) blast
qed

lemma roles_letters: "r \<in> set SEMANTIC_ROLES \<Longrightarrow> list_all letter_unit r \<and> r \<noteq> []"
proof -
  have "list_all (\<lambda>r. list_all letter_unit r \<and> r \<noteq> []) SEMANTIC_ROLES" by code_simp
  then show "r \<in> set SEMANTIC_ROLES \<Longrightarrow> list_all letter_unit r \<and> r \<noteq> []" by (simp only: list_all_iff) blast
qed

lemma keys_units:
  assumes "k \<in> set STATE_KEYS"
  shows "k \<noteq> []" "trim k = k" "take 1 (k @ s) \<noteq> [33]" "61 \<notin> set k" "list_all plain_unit k"
proof -
  from keys_letters [OF assms] have k: "k \<noteq> []" "list_all letter_unit k" by simp_all
  then have units: "\<forall>c \<in> set k. plain_unit c \<and> c \<noteq> 33 \<and> c \<noteq> 61" using letter_plain unfolding list_all_iff by blast
  show "k \<noteq> []" "list_all plain_unit k" "61 \<notin> set k" using k(1) units unfolding list_all_iff by blast+
  then show "trim k = k" using trim_plain by simp
  show "take 1 (k @ s) \<noteq> [33]" using k(1) units by (cases k) auto
qed

lemma parseFlag_bare: "k \<in> set STATE_KEYS \<Longrightarrow> parseFlag k = Inr \<lparr>flagKey = k, flagNegated = False, flagValue = None, flagSource = k\<rparr>"
proof -
  assume k: "k \<in> set STATE_KEYS"
  note units = keys_units [OF k]
  have "takeWhile (\<lambda>c. c \<noteq> 61) k = k" using units(4) by (auto simp: takeWhile_eq_all_conv)
  then show ?thesis using units(2) units(3) [of "[]"] k by (simp add: parseFlag_def Let_def del: takeWhile_eq_all_conv)
qed

lemma parseFlag_value:
  assumes "k \<in> set STATE_KEYS" "list_all plain_unit v"
  shows "parseFlag (k @ u ''='' @ v) = Inr \<lparr>flagKey = k, flagNegated = False, flagValue = Some v, flagSource = k @ u ''='' @ v\<rparr>"
proof -
  note units = keys_units [OF assms(1)]
  have "takeWhile (\<lambda>c. c \<noteq> 61) (k @ 61 # v) = k" using units(4) by (induction k) auto
  then show ?thesis using units(2) units(3) [of "61 # v"] assms trim_plain by (simp add: parseFlag_def Let_def)
qed

lemma splitOn_none: "q \<notin> set x \<Longrightarrow> splitOn q x = [x]"
  by (induction x) auto

lemma splitOn_first: "q \<notin> set x \<Longrightarrow> splitOn q (x @ q # s) = x # splitOn q s"
  by (induction x) auto

lemma splitOn_join: "xs \<noteq> [] \<Longrightarrow> \<forall>x \<in> set xs. q \<notin> set x \<Longrightarrow> splitOn q (join_with [q] xs) = xs"
proof (induction xs)
  case (Cons x xs)
  show ?case
  proof (cases xs)
    case Nil
    with Cons show ?thesis by (simp add: splitOn_none)
  next
    case (Cons y ys)
    then have "join_with [q] (x # xs) = x @ q # join_with [q] xs" by simp
    with Cons.IH Cons.prems Cons show ?thesis by (simp add: splitOn_first)
  qed
qed simp

lemma parseFlags_join:
  assumes "es \<noteq> []" "\<forall>e \<in> set es. e \<noteq> [] \<and> list_all plain_unit e"
  shows "parseFlags (Some (join_with (u '','') es)) = res_all parseFlag es"
proof -
  have "splitOn 44 (join_with [44] es) = es" using assms by (intro splitOn_join) (auto simp: list_all_iff plain_unit_def)
  moreover have "map trim es = es" using assms(2) trim_plain by (simp add: map_idI)
  moreover have "filter (\<lambda>e. e \<noteq> []) es = es" using assms(2) by (simp add: filter_id_conv)
  ultimately show ?thesis by (simp add: parseFlags_def)
qed

text \<open>The printed flags of a state are read back as assertions that hold of it.\<close>

lemma state_flags:
  assumes "set keys \<subseteq> set STATE_KEYS" and "\<forall>k \<in> set keys. \<forall>v. js_get st k = Some v \<longrightarrow> list_all plain_unit (js_String numberText v)"
  shows "\<exists>fs. res_all parseFlag (describeState numberText (Some st) keys) = Inr fs \<and> (\<forall>f \<in> set fs. flagHolds numberText f (js_get st (flagKey f)))"
    and "\<forall>e \<in> set (describeState numberText (Some st) keys). e \<noteq> [] \<and> list_all plain_unit e"
proof -
  have plain: "k \<noteq> [] \<and> list_all plain_unit k \<and> plain_unit 61" if "k \<in> set keys" for k
    using that assms(1) keys_units(1,5) [of k] by (auto simp: plain_unit_def space_unit_def)
  show "\<forall>e \<in> set (describeState numberText (Some st) keys). e \<noteq> [] \<and> list_all plain_unit e"
    using plain assms(2) by (auto simp: describeState_def List.map_filter_def split: option.splits json.splits bool.splits)
  show "\<exists>fs. res_all parseFlag (describeState numberText (Some st) keys) = Inr fs \<and> (\<forall>f \<in> set fs. flagHolds numberText f (js_get st (flagKey f)))"
    using assms
  proof (induction keys)
    case (Cons k keys)
    then obtain fs where fs: "res_all parseFlag (describeState numberText (Some st) keys) = Inr fs" "\<forall>f \<in> set fs. flagHolds numberText f (js_get st (flagKey f))"
      by auto
    let ?e = "describeState numberText (Some st) [k]"
    have split: "describeState numberText (Some st) (k # keys) = ?e @ describeState numberText (Some st) keys"
      by (simp add: describeState_def List.map_filter_def)
    consider "?e = []" | "js_get st k = Some (JBool True)" "?e = [k]"
      | v where "js_get st k = Some v" "?e = [k @ u ''='' @ js_String numberText v]"
      by (cases "js_get st k"; fastforce simp: describeState_def List.map_filter_def split: option.splits json.splits bool.splits)
    then show ?case
    proof cases
      case 2
      then show ?thesis using fs Cons.prems(1) by (auto simp: split parseFlag_bare flagHolds_def)
    next
      case 3
      then show ?thesis using fs Cons.prems parseFlag_value [of k "js_String numberText v"] by (auto simp: split flagHolds_def)
    qed (use fs split in auto)
  qed (simp add: describeState_def List.map_filter_def)
qed

section \<open>Heads\<close>

lemma headFlags_print:
  assumes "\<forall>e \<in> set es. list_all plain_unit e"
  shows "headFlags (if es = [] then [] else 32 # 91 # join_with (u '','') es @ [93]) = Some (if es = [] then None else Some (join_with (u '','') es))"
proof -
  have "93 \<notin> set (join_with [44] es)"
    using assms by (induction es) (auto simp: list_all_iff plain_unit_def)
  then have "list_all (\<lambda>d. d \<noteq> 93) (join_with [44] es)" by (auto simp: list_all_iff)
  then have "takeWhile (\<lambda>d. d \<noteq> 93) (join_with [44] es @ [93]) = join_with [44] es \<and> dropWhile (\<lambda>d. d \<noteq> 93) (join_with [44] es @ [93]) = [93]"
    by (rule takeWhile_units) simp
  moreover have "\<not> space_unit 91" by (simp add: space_unit_def)
  ultimately show ?thesis by (simp add: headFlags_def)
qed

lemma headGroups_print:
  assumes "list_all letter_unit r" "r \<noteq> []" "\<forall>e \<in> set es. list_all plain_unit e"
  shows "headGroups (r @ (if name = [] then [] else 32 # jsonString name) @ (if es = [] then [] else 32 # 91 # join_with (u '','') es @ [93])) =
    Some (r, if name = [] then None else Some (jsonString name), if es = [] then None else Some (join_with (u '','') es))"
proof -
  let ?f = "if es = [] then [] else 32 # 91 # join_with (u '','') es @ [93]"
  let ?s = "(if name = [] then [] else 32 # jsonString name) @ ?f"
  have "\<not> letter_unit 32" by (simp add: letter_unit_def)
  then have split: "takeWhile letter_unit (r @ ?s) = r" "dropWhile letter_unit (r @ ?s) = ?s"
    using takeWhile_units [OF assms(1), of 32] takeWhile_all [OF assms(1)] by auto
  have star: "take 1 (r @ ?s) \<noteq> [42]" using assms(1,2) letter_plain [of "hd r"] by (cases r) auto
  have spaces: "\<not> space_unit 91" "\<not> space_unit 34" by (simp_all add: space_unit_def)
  note flags = headFlags_print [OF assms(3)]
  show ?thesis
  proof (cases "name = []")
    case True
    moreover have "headName (dropWhile space_unit ?f) = None" using spaces by (simp add: headName_def)
    ultimately show ?thesis using split star assms(2) flags by (auto simp: headGroups_def Let_def)
  next
    case False
    have "dropWhile space_unit ?s = 34 # jsonBody name @ 34 # ?f" using False spaces by (simp add: jsonString_body)
    moreover have "headName (34 # jsonBody name @ 34 # ?f) = Some (jsonString name, ?f)"
      using closed_body [of name ?f] by (simp add: headName_def jsonString_body)
    moreover have "?s \<noteq> 34 # jsonBody name @ 34 # ?f" using False by (simp add: jsonString_body)
    ultimately show ?thesis using split star assms(2) flags False by (auto simp: headGroups_def Let_def)
  qed
qed

lemma describeNode_parts:
  "describeNode numberText n keys = role n @ (if normalizeName (nodeName n) = [] then [] else 32 # jsonString (normalizeName (nodeName n))) @
     (let es = describeState numberText (nodeState n) keys in if es = [] then [] else 32 # 91 # join_with (u '','') es @ [93])"
  by (auto simp: describeNode_def Let_def)

definition printable :: "(rat \<Rightarrow> js_string) \<Rightarrow> semantic_node \<Rightarrow> js_string list \<Rightarrow> bool" where
  "printable numberText n keys \<longleftrightarrow> role n \<in> set SEMANTIC_ROLES \<and> set keys \<subseteq> set STATE_KEYS \<and>
     (case nodeState n of None \<Rightarrow> True
      | Some st \<Rightarrow> list_all (\<lambda>k. case js_get st k of None \<Rightarrow> True | Some v \<Rightarrow> list_all plain_unit (js_String numberText v)) keys)"

lemma printable_flags:
  assumes "printable numberText n keys"
  shows "\<exists>fs. res_all parseFlag (describeState numberText (nodeState n) keys) = Inr fs \<and>
      (\<forall>f \<in> set fs. flagHolds numberText f (Option.bind (nodeState n) (\<lambda>st. js_get st (flagKey f))))"
    and "\<forall>e \<in> set (describeState numberText (nodeState n) keys). e \<noteq> [] \<and> list_all plain_unit e"
proof -
  have some: "set keys \<subseteq> set STATE_KEYS" "\<forall>k \<in> set keys. \<forall>v. js_get st k = Some v \<longrightarrow> list_all plain_unit (js_String numberText v)"
    if "nodeState n = Some st" for st using assms that by (fastforce simp: printable_def list_all_iff)+
  show "\<exists>fs. res_all parseFlag (describeState numberText (nodeState n) keys) = Inr fs \<and>
      (\<forall>f \<in> set fs. flagHolds numberText f (Option.bind (nodeState n) (\<lambda>st. js_get st (flagKey f))))"
    using state_flags(1) [OF some] by (cases "nodeState n") (simp_all add: describeState_def)
  show "\<forall>e \<in> set (describeState numberText (nodeState n) keys). e \<noteq> [] \<and> list_all plain_unit e"
    using state_flags(2) [OF some] by (cases "nodeState n") (simp_all add: describeState_def)
qed

lemma trim_head:
  assumes "list_all letter_unit r" "r \<noteq> []"
  shows "trim (r @ (if name = [] then [] else 32 # jsonString name) @ (if es = [] then [] else 32 # 91 # join_with (u '','') es @ [93])) =
    r @ (if name = [] then [] else 32 # jsonString name) @ (if es = [] then [] else 32 # 91 # join_with (u '','') es @ [93])"
proof (rule trim_id, rule disjI2, rule conjI)
  have letters: "\<not> space_unit (hd r)" "\<not> space_unit (last r)"
    using assms letter_plain hd_in_set [OF assms(2)] last_in_set [OF assms(2)] unfolding list_all_iff plain_unit_def by blast+
  have ends: "\<not> space_unit 34" "\<not> space_unit 93" by (simp_all add: space_unit_def)
  show "\<not> space_unit (hd (r @ (if name = [] then [] else 32 # jsonString name) @ (if es = [] then [] else 32 # 91 # join_with (u '','') es @ [93])))"
    using letters(1) assms(2) by simp
  show "\<not> space_unit (last (r @ (if name = [] then [] else 32 # jsonString name) @ (if es = [] then [] else 32 # 91 # join_with (u '','') es @ [93])))"
    using letters(2) assms(2) ends by (simp add: jsonString_body)
qed

text \<open>C27: The printed head of a node is read back, whatever the regular expressions do, as a pattern without children that the matcher
  accepts for this node, and which other nodes fit only with the same role and, unless it is empty, the same normalised name.\<close>

theorem head_roundtrip:
  assumes "printable numberText n keys"
  shows "\<exists>p. parseNodeHead regExp (describeNode numberText n keys) = Inr p \<and>
    (\<forall>env trail b. envNumberText env = numberText \<longrightarrow> matchNode env p n trail b = (NodeOk, b)) \<and>
    (\<forall>m. headFits numberText p m \<longrightarrow> role m = role n \<and>
       (normalizeName (nodeName n) \<noteq> [] \<longrightarrow> normalizeName (nodeName m) = normalizeName (nodeName n)))"
proof -
  let ?name = "normalizeName (nodeName n)" and ?es = "describeState numberText (nodeState n) keys" and ?head = "describeNode numberText n keys"
  have r: "list_all letter_unit (role n)" "role n \<noteq> []" "role n \<in> set SEMANTIC_ROLES"
    using assms roles_letters by (simp_all add: printable_def)
  then have star: "role n \<noteq> u ''*''" using letter_plain [of 42] by auto
  obtain fs where fs: "res_all parseFlag ?es = Inr fs" "\<forall>f \<in> set fs. flagHolds numberText f (Option.bind (nodeState n) (\<lambda>st. js_get st (flagKey f)))"
    using printable_flags(1) [OF assms] by blast
  have plain: "\<forall>e \<in> set ?es. e \<noteq> [] \<and> list_all plain_unit e" by (rule printable_flags(2) [OF assms])
  define p where "p = NodePattern (role n) (if ?name = [] then None else Some (LiteralName (jsonString ?name) ?name)) fs None ?head"
  have groups: "headGroups (trim ?head) = Some (role n, if ?name = [] then None else Some (jsonString ?name), if ?es = [] then None else Some (join_with (u '','') ?es))"
    unfolding describeNode_parts Let_def trim_head [OF r(1,2)] using plain by (intro headGroups_print r) blast
  have head: "trim ?head = ?head" unfolding describeNode_parts Let_def by (rule trim_head [OF r(1,2)])
  have flags: "parseFlags (if ?es = [] then None else Some (join_with (u '','') ?es)) = Inr fs"
    using fs(1) parseFlags_join [OF _ plain] by (cases "?es = []") (auto simp: parseFlags_def)
  have name: "parseName regExp (jsonString ?name) = Inr (LiteralName (jsonString ?name) ?name)"
    by (simp add: parseName_def jsonParseString_jsonString) (simp add: jsonString_body)
  have "parseNodeHead regExp ?head = Inr p"
    unfolding parseNodeHead_def groups using r(3) flags name head by (simp add: p_def)
  moreover have fits: "headFits numberText p n" using fs(2) by (auto simp: headFits_def p_def)
  then have "matchNode env p n trail b = (NodeOk, b)" if "envNumberText env = numberText" for env trail b
    using that unfolding headProblem_None [symmetric] by (simp add: p_def)
  moreover have "role m = role n \<and> (?name \<noteq> [] \<longrightarrow> normalizeName (nodeName m) = ?name)" if "headFits numberText p m" for m
    using that star by (auto simp: headFits_def p_def)
  ultimately show ?thesis by blast
qed

definition demo_button :: semantic_node where
  "demo_button = (leaf_node ''a'' None)\<lparr>role := u ''button'', nodeName := u '' Save  all '',
     nodeState := Some [(u ''focused'', JBool True), (u ''checked'', JString (u ''mixed''))]\<rparr>"

lemma demo_button_printable: "printable (\<lambda>_. []) demo_button STABLE_STATE_KEYS"
  by code_simp

theorem head_roundtrip_witness:
  "\<exists>p. parseNodeHead (\<lambda>_ _. None) (describeNode (\<lambda>_. []) demo_button STABLE_STATE_KEYS) = Inr p \<and>
    (\<forall>m. headFits (\<lambda>_. []) p m \<longrightarrow> role m = u ''button'')"
proof -
  have "role demo_button = u ''button''" by (simp add: demo_button_def)
  then show ?thesis using head_roundtrip [OF demo_button_printable, of "\<lambda>_ _. None"] by auto
qed

section \<open>What is not printed, and what the ceiling does\<close>

text \<open>Three states of a node are neither printed, even when all keys are selected, nor accepted in a pattern: \<open>required\<close>,
  \<open>multiselectable\<close> and \<open>offscreen\<close>.\<close>

theorem state_not_expressible:
  "list_all (\<lambda>key. describeState (\<lambda>_. []) (Some [(u key, JBool True)]) (stateKeys All) = [] \<and> parseFlags (Some (u key)) = Inl UnknownFlag)
     [''required'', ''multiselectable'', ''offscreen'']"
  by code_simp

definition one_button :: tree_snapshot where
  "one_button = demo_tree\<lparr>rootIds := [u ''a''], treeNodes := [demo_button]\<rparr>"

text \<open>When the ceiling on comparisons is reached, the matcher reports an ordering problem that is not there: with a ceiling of zero a tree
  of one button does not match the pattern of one button, because every expected node exists, but not in the expected order.\<close>

theorem ceiling_reported_as_order:
  "let p = NodePattern (u ''button'') None [] None (u ''button'') in
   matchSemanticSnapshot (\<lambda>_. []) [p] one_button \<lparr>matchRootId = None, matchIncludeRoot = True, maxComparisons = 0\<rparr> =
     (False, Some \<lparr>misPath = [], misExpected = u ''button'', misReason = u ''every expected node exists, but not in the expected order''\<rparr>) \<and>
   matchSemanticSnapshot (\<lambda>_. []) [p] one_button \<lparr>matchRootId = None, matchIncludeRoot = True, maxComparisons = 1\<rparr> = (True, None)"
  by code_simp

end
