(* ===== verification/Budget.thy ===== *)
theory Budget
  imports Prelude
begin

text \<open>
  The time budget of a test attempt (\<open>src/packages/test/src/attempt-budget.ts\<close>). Times are rational milliseconds, without the rounding of
  floating-point sums; a method takes the readings of the clock that it makes as arguments, \<open>now\<close> for the first and \<open>later\<close> for the one of
  the error. A method that throws after a change returns the changed budget with the error.
\<close>

section \<open>The class\<close>

datatype attempt_phase = BeforeEach | Fixture | Operation | Assertion | Diagnostics | TraceFlush | Teardown | Cleanup

record reserves =
  diagnosticsMs :: rat
  traceFlushMs :: rat
  teardownMs :: rat

definition DEFAULT_ATTEMPT_BUDGET_RESERVES :: reserves where
  "DEFAULT_ATTEMPT_BUDGET_RESERVES = \<lparr>diagnosticsMs = 250, traceFlushMs = 500, teardownMs = 1000\<rparr>"

record test_budget =
  startedAt :: rat
  endsAt :: rat
  totalMs :: rat
  budgetReserves :: reserves
  budgetStarted :: bool
  budgetPhase :: attempt_phase

datatype budget_error =
    BudgetExceeded (exceededPhase: attempt_phase) (exceededElapsed: rat) (exceededTotal: rat) (exceededReserves: reserves)
  | NotFiniteNonNegative | AlreadyStarted | NotStarted

definition finiteNonNegative :: "js_number \<Rightarrow> (budget_error, rat) res" where
  "finiteNonNegative value = (case value of Num q \<Rightarrow> if q < 0 then Inl NotFiniteNonNegative else Inr q | _ \<Rightarrow> Inl NotFiniteNonNegative)"


definition start :: "rat \<Rightarrow> test_budget \<Rightarrow> test_budget \<times> (budget_error, unit) res" where
  "start now b =
     (if budgetStarted b then (b, Inl AlreadyStarted)
      else (b\<lparr>startedAt := now, endsAt := now + totalMs b, budgetStarted := True\<rparr>, Inr ()))"

definition creditAdmissionWait :: "js_number \<Rightarrow> test_budget \<Rightarrow> test_budget \<times> (budget_error, unit) res" where
  "creditAdmissionWait waited b =
     (case finiteNonNegative waited of Inl e \<Rightarrow> (b, Inl e) | Inr w \<Rightarrow> (b\<lparr>endsAt := endsAt b + w\<rparr>, Inr ()))"

definition assertStarted :: "test_budget \<Rightarrow> (budget_error, unit) res" where
  "assertStarted b = (if budgetStarted b then Inr () else Inl NotStarted)"

definition deadlineFor :: "attempt_phase \<Rightarrow> test_budget \<Rightarrow> rat" where
  "deadlineFor phase b =
     (let r = budgetReserves b in
      case phase of
        Diagnostics \<Rightarrow> endsAt b - traceFlushMs r - teardownMs r
      | TraceFlush \<Rightarrow> endsAt b - teardownMs r
      | Teardown \<Rightarrow> endsAt b
      | Cleanup \<Rightarrow> endsAt b
      | _ \<Rightarrow> endsAt b - diagnosticsMs r - traceFlushMs r - teardownMs r)"

definition expired :: "attempt_phase \<Rightarrow> rat \<Rightarrow> test_budget \<Rightarrow> budget_error" where
  "expired phase now b = BudgetExceeded phase (now - startedAt b) (totalMs b) (budgetReserves b)"

definition remaining :: "attempt_phase \<Rightarrow> rat \<Rightarrow> test_budget \<Rightarrow> (budget_error, rat) res" where
  "remaining phase now b = res_map (\<lambda>_. max 0 (deadlineFor phase b - now)) (assertStarted b)"

definition assertAvailable :: "attempt_phase \<Rightarrow> rat \<Rightarrow> rat \<Rightarrow> test_budget \<Rightarrow> (budget_error, unit) res" where
  "assertAvailable phase now later b =
     res_bind (assertStarted b) (\<lambda>_. res_bind (remaining phase now b) (\<lambda>left.
       if left \<le> 0 then Inl (expired phase later b) else Inr ()))"

definition enterPhase :: "attempt_phase \<Rightarrow> rat \<Rightarrow> rat \<Rightarrow> test_budget \<Rightarrow> test_budget \<times> (budget_error, unit) res" where
  "enterPhase phase now later b =
     (case assertStarted b of
        Inl e \<Rightarrow> (b, Inl e)
      | Inr _ \<Rightarrow> (let b1 = b\<lparr>budgetPhase := phase\<rparr> in (b1, assertAvailable phase now later b1)))"

definition markPhase :: "attempt_phase \<Rightarrow> test_budget \<Rightarrow> test_budget" where
  "markPhase phase b = b\<lparr>budgetPhase := phase\<rparr>"

definition operationTimeout :: "js_number \<Rightarrow> attempt_phase \<Rightarrow> rat \<Rightarrow> rat \<Rightarrow> test_budget \<Rightarrow> test_budget \<times> (budget_error, rat) res" where
  "operationTimeout requested phase now later b =
     (case res_bind (assertStarted b) (\<lambda>_. finiteNonNegative requested) of
        Inl e \<Rightarrow> (b, Inl e)
      | Inr req \<Rightarrow>
          let b1 = b\<lparr>budgetPhase := phase\<rparr>; left = deadlineFor phase b1 - now
          in (b1, if left \<le> 0 then Inl (expired phase later b1) else Inr (min req left)))"

definition finalizationTimeout :: "js_number \<Rightarrow> rat \<Rightarrow> test_budget \<Rightarrow> test_budget \<times> (budget_error, rat) res" where
  "finalizationTimeout requested now b =
     (case res_bind (assertStarted b) (\<lambda>_. finiteNonNegative requested) of
        Inl e \<Rightarrow> (b, Inl e)
      | Inr req \<Rightarrow>
          let b1 = b\<lparr>budgetPhase := Cleanup\<rparr>
          in (b1, res_map (\<lambda>left. if left > 0 then min req left else min req (teardownMs (budgetReserves b1))) (remaining Cleanup now b1)))"

section \<open>Uses of a budget\<close>

text \<open>The calls that an attempt makes, each with the readings of the clock, and what it sees of the answers: the elapsed time of an
  exhausted budget goes into the message only.\<close>

datatype budget_call =
    CallEnter attempt_phase | CallMark attempt_phase | CallOperation js_number attempt_phase | CallRemaining attempt_phase
  | CallFinalization js_number | CallCredit js_number

datatype budget_answer = Done | Granted rat | Exhausted attempt_phase | Misused budget_error

fun answer :: "(budget_error, budget_answer) res \<Rightarrow> budget_answer" where
  "answer (Inr a) = a"
| "answer (Inl (BudgetExceeded phase _ _ _)) = Exhausted phase"
| "answer (Inl e) = Misused e"

primrec call :: "budget_call \<Rightarrow> rat \<times> rat \<Rightarrow> test_budget \<Rightarrow> test_budget \<times> budget_answer" where
  "call (CallEnter phase) t b = (case enterPhase phase (fst t) (snd t) b of (b1, r) \<Rightarrow> (b1, answer (res_map (\<lambda>_. Done) r)))"
| "call (CallMark phase) t b = (markPhase phase b, Done)"
| "call (CallOperation req phase) t b = (case operationTimeout req phase (fst t) (snd t) b of (b1, r) \<Rightarrow> (b1, answer (res_map Granted r)))"
| "call (CallRemaining phase) t b = (b, answer (res_map Granted (remaining phase (fst t) b)))"
| "call (CallFinalization req) t b = (case finalizationTimeout req (fst t) b of (b1, r) \<Rightarrow> (b1, answer (res_map Granted r)))"
| "call (CallCredit w) t b = (case creditAdmissionWait w b of (b1, r) \<Rightarrow> (b1, answer (res_map (\<lambda>_. Done) r)))"

primrec calls :: "(budget_call \<times> rat \<times> rat) list \<Rightarrow> test_budget \<Rightarrow> budget_answer list" where
  "calls [] b = []"
| "calls (c # cs) b = (case call (fst c) (snd c) b of (b1, a) \<Rightarrow> a # calls cs b1)"

text \<open>The same calls, later.\<close>

definition delayed :: "rat \<Rightarrow> budget_call \<times> rat \<times> rat \<Rightarrow> budget_call \<times> rat \<times> rat" where
  "delayed w = (\<lambda>(c, now, later). (c, now + w, later + w))"

section \<open>Theorems\<close>

definition reserves_ok :: "test_budget \<Rightarrow> bool" where
  "reserves_ok b \<longleftrightarrow> 0 \<le> diagnosticsMs (budgetReserves b) \<and> 0 \<le> traceFlushMs (budgetReserves b) \<and> 0 \<le> teardownMs (budgetReserves b)"



lemma call_reserves: "budgetReserves (fst (call c t b)) = budgetReserves b"
  by (cases c) (auto simp: enterPhase_def markPhase_def operationTimeout_def finalizationTimeout_def creditAdmissionWait_def Let_def
      split: sum.splits prod.splits)



lemma credit_Num: "0 \<le> w \<Longrightarrow> creditAdmissionWait (Num w) b = (b\<lparr>endsAt := endsAt b + w\<rparr>, Inr ())"
  by (simp add: creditAdmissionWait_def finiteNonNegative_def)

lemma deadline_credit: "deadlineFor phase (b\<lparr>endsAt := endsAt b + w\<rparr>) = deadlineFor phase b + w"
  by (cases phase) (simp_all add: deadlineFor_def Let_def)

lemma call_delayed:
  assumes "budgetStarted b"
  shows "call c (now + w, later + w) (b\<lparr>endsAt := endsAt b + w\<rparr>) =
      ((fst (call c (now, later) b))\<lparr>endsAt := endsAt (fst (call c (now, later) b)) + w\<rparr>, snd (call c (now, later) b))"
    and "budgetStarted (fst (call c (now, later) b))"
proof -
  have credited: "deadlineFor p (b\<lparr>endsAt := endsAt b + w, budgetPhase := q\<rparr>) = deadlineFor p b + w"
    and plain: "deadlineFor p (b\<lparr>budgetPhase := q\<rparr>) = deadlineFor p b" for p q
    by (cases p; simp add: deadlineFor_def Let_def)+
  show "call c (now + w, later + w) (b\<lparr>endsAt := endsAt b + w\<rparr>) =
      ((fst (call c (now, later) b))\<lparr>endsAt := endsAt (fst (call c (now, later) b)) + w\<rparr>, snd (call c (now, later) b))"
  proof (cases c)
    case (CallEnter p)
    then show ?thesis using assms
      by (simp add: credited plain enterPhase_def assertStarted_def assertAvailable_def remaining_def expired_def Let_def)
  next
    case (CallMark p)
    then show ?thesis by (simp add: markPhase_def)
  next
    case (CallOperation req p)
    then show ?thesis using assms
      by (simp add: credited plain operationTimeout_def assertStarted_def expired_def Let_def split: sum.split)
  next
    case (CallRemaining p)
    then show ?thesis using assms by (simp add: remaining_def assertStarted_def deadline_credit)
  next
    case (CallFinalization req)
    then show ?thesis using assms
      by (simp add: credited plain finalizationTimeout_def remaining_def assertStarted_def Let_def split: sum.split)
  next
    case (CallCredit v)
    then show ?thesis by (simp add: creditAdmissionWait_def add.assoc add.commute split: sum.split)
  qed
  show "budgetStarted (fst (call c (now, later) b))"
    using assms by (cases c) (simp_all add: enterPhase_def markPhase_def operationTimeout_def finalizationTimeout_def creditAdmissionWait_def
        assertStarted_def Let_def split: sum.split)
qed

text \<open>C32: Waiting for resources costs an attempt nothing: when the wait is credited, every later call gets the same answer as it would have got
  that much earlier without the wait, in every phase and for any sequence of calls.\<close>

theorem admission_wait_free:
  assumes "budgetStarted b" and "0 \<le> w" and "creditAdmissionWait (Num w) b = (b1, r)"
  shows "r = Inr () \<and> calls (map (delayed w) cs) b1 = calls cs b"
proof -
  have "calls (map (delayed w) cs) (b\<lparr>endsAt := endsAt b + w\<rparr>) = calls cs b" if "budgetStarted b" for b
    using that
  proof (induction cs arbitrary: b)
    case (Cons c cs)
    obtain k now later where c: "c = (k, now, later)" by (cases c)
    note step = call_delayed(1) [OF Cons.prems, of k now w later] and started = call_delayed(2) [OF Cons.prems, of k now later]
    show ?case using Cons.IH [OF started] by (simp add: c delayed_def step split: prod.split)
  qed simp
  moreover have "b1 = b\<lparr>endsAt := endsAt b + w\<rparr>" "r = Inr ()" using assms(3) credit_Num [OF assms(2), of b] by simp_all
  ultimately show ?thesis using assms(1) by simp
qed

theorem admission_wait_free_witness:
  "let b = \<lparr>startedAt = 0, endsAt = 4000, totalMs = 4000, budgetReserves = DEFAULT_ATTEMPT_BUDGET_RESERVES, budgetStarted = True, budgetPhase = BeforeEach\<rparr> in
   calls [(CallOperation (Num 5000) Operation, 92000, 92000)] (b\<lparr>endsAt := 94000\<rparr>) = calls [(CallOperation (Num 5000) Operation, 2000, 2000)] b"
proof -
  define b where "b = \<lparr>startedAt = 0, endsAt = 4000, totalMs = 4000, budgetReserves = DEFAULT_ATTEMPT_BUDGET_RESERVES, budgetStarted = True, budgetPhase = BeforeEach\<rparr>"
  have "creditAdmissionWait (Num 90000) b = (b\<lparr>endsAt := 94000\<rparr>, Inr ())" using credit_Num [of 90000 b] by (simp add: b_def)
  from admission_wait_free [OF _ _ this, of "[(CallOperation (Num 5000) Operation, 2000, 2000)]"]
  have "calls [(CallOperation (Num 5000) Operation, 92000, 92000)] (b\<lparr>endsAt := 94000\<rparr>) = calls [(CallOperation (Num 5000) Operation, 2000, 2000)] b"
    by (simp add: delayed_def b_def)
  then show ?thesis unfolding b_def Let_def .
qed

text \<open>The time for the last event of a failed attempt is bounded also when the budget is exhausted: it is what was asked for, cut to what is
  left of the budget or else to the reserve for the teardown, and positive when both are.\<close>

theorem finalization_bounded:
  assumes "budgetStarted b" and "0 \<le> q" and "reserves_ok b"
  shows "\<exists>t. finalizationTimeout (Num q) now b = (b\<lparr>budgetPhase := Cleanup\<rparr>, Inr t) \<and> 0 \<le> t \<and> t \<le> q \<and>
     t \<le> max (endsAt b - now) (teardownMs (budgetReserves b)) \<and> (0 < q \<and> 0 < teardownMs (budgetReserves b) \<longrightarrow> 0 < t)"
  using assms
  by (auto simp: finalizationTimeout_def assertStarted_def finiteNonNegative_def remaining_def deadlineFor_def reserves_ok_def Let_def)

end
