(* ===== verification/InputDecode.thy ===== *)
theory InputDecode
  imports Keys
begin

text \<open>
  The input decoder of the recorder (\<open>src/packages/ui/src/input-decode.ts\<close>), the inverse of the key encoder: bytes that a terminal sent
  become presses, typed text, pastes and raw bytes.

  \<^item> A byte is a \<open>char\<close> and \<open>code\<close> its number. The loop of \<open>push\<close> works on the bytes from \<open>index\<close> on, which shrink.
  \<^item> \<open>decodeUtf8\<close>, the \<open>TextDecoder\<close> of the module, is a parameter; it decodes each piece on its own.
\<close>

section \<open>Tables\<close>

abbreviation code :: "char \<Rightarrow> nat" where
  "code c \<equiv> of_char c"

datatype decoded_input = Press js_string | TypeText js_string | PasteText js_string | RawBytes string

definition MAX_PENDING_BYTES :: nat where
  "MAX_PENDING_BYTES = 64 * 1024"

definition CURSOR_FINALS :: "(string, js_string) js_map" where
  "CURSOR_FINALS = [(''A'', u ''ArrowUp''), (''B'', u ''ArrowDown''), (''C'', u ''ArrowRight''), (''D'', u ''ArrowLeft''), (''H'', u ''Home''), (''F'', u ''End'')]"

definition TILDE_NAMES :: "(nat, js_string) js_map" where
  "TILDE_NAMES = [(2, u ''Insert''), (3, u ''Delete''), (5, u ''PageUp''), (6, u ''PageDown''), (15, u ''F5''), (17, u ''F6''), (18, u ''F7''),
     (19, u ''F8''), (20, u ''F9''), (21, u ''F10''), (23, u ''F11''), (24, u ''F12'')]"

definition SS3_FUNCTION_FINALS :: "(string, js_string) js_map" where
  "SS3_FUNCTION_FINALS = [(''P'', u ''F1''), (''Q'', u ''F2''), (''R'', u ''F3''), (''S'', u ''F4'')]"

definition CONTROL_NAMES :: "(nat, js_string) js_map" where
  "CONTROL_NAMES = [(0x0D, u ''Enter''), (0x0A, u ''Enter''), (0x09, u ''Tab''), (0x7F, u ''Backspace''), (0x00, u ''Control+@'')]"

definition PASTE_START :: string where
  "PASTE_START = CHR 0x1B # ''[200~''"

definition PASTE_END :: string where
  "PASTE_END = CHR 0x1B # ''[201~''"

section \<open>Escape sequences\<close>

text \<open>\<open>Number.parseInt(text, 10)\<close> on the parameters: white space and a sign are skipped, the digits end at the first other unit; \<open>None\<close>
  is \<open>NaN\<close>.\<close>

definition parseInt10 :: "js_string \<Rightarrow> int option" where
  "parseInt10 s =
     (let s1 = dropWhile space_unit s;
          negative = take 1 s1 = u ''-'';
          s2 = (if negative \<or> take 1 s1 = u ''+'' then drop 1 s1 else s1);
          ds = takeWhile digit_unit s2
      in if ds = [] then None else Some (if negative then - int (name_value ds) else int (name_value ds)))"

fun splitSemicolon :: "js_string \<Rightarrow> js_string list" where
  "splitSemicolon [] = [[]]"
| "splitSemicolon (c # s) =
     (if [c] = u '';'' then [] # splitSemicolon s else case splitSemicolon s of [] \<Rightarrow> [[c]] | x # xs \<Rightarrow> (c # x) # xs)"

text \<open>The bit operations of the source work on 32 bits, of which the last three are read; the digits are read exactly, as \<open>parseInt\<close> does up
  to \<open>MAX_SAFE_INTEGER\<close>.\<close>

definition modifierPrefix :: "js_string \<Rightarrow> js_string" where
  "modifierPrefix params =
     (case splitSemicolon params of
        _ # second # _ \<Rightarrow>
          (case parseInt10 second of
             None \<Rightarrow> []
           | Some value \<Rightarrow>
               if value \<le> 1 then []
               else let bits = nat (value - 1)
                    in (if odd (bits div 4) then u ''Control+'' else []) @ (if odd (bits div 2) then u ''Alt+'' else []) @
                       (if odd bits then u ''Shift+'' else []))
      | _ \<Rightarrow> [])"

text \<open>A result is the input and the number of bytes that it takes; \<open>None\<close> is \<open>'incomplete'\<close>.\<close>

definition final_byte :: "char \<Rightarrow> bool" where
  "final_byte c \<longleftrightarrow> 0x40 \<le> code c \<and> code c \<le> 0x7E"

definition decodeCsi :: "(string \<Rightarrow> js_string) \<Rightarrow> string \<Rightarrow> (decoded_input \<times> nat) option" where
  "decodeCsi decodeUtf8 buffer =
     (let raw = takeWhile (\<lambda>c. \<not> final_byte c) (drop 2 buffer)
      in case dropWhile (\<lambda>c. \<not> final_byte c) (drop 2 buffer) of
           [] \<Rightarrow> None
         | final # _ \<Rightarrow>
             let params = decodeUtf8 raw;
                 n = 3 + length raw;
                 modifier = modifierPrefix params
             in if [final] = ''~'' then
                  (case Option.bind (parseInt10 (hd (splitSemicolon params))) (\<lambda>k. if k < 0 then None else js_get TILDE_NAMES (nat k)) of
                     None \<Rightarrow> Some (RawBytes (take n buffer), n)
                   | Some key \<Rightarrow> Some (Press (modifier @ key), n))
                else if [final] = ''Z'' then Some (Press (u ''Shift+Tab''), n)
                else case js_get CURSOR_FINALS [final] of
                       Some cursor \<Rightarrow> Some (Press (modifier @ cursor), n)
                     | None \<Rightarrow> Some (RawBytes (take n buffer), n))"

definition decodeEscape :: "(string \<Rightarrow> js_string) \<Rightarrow> string \<Rightarrow> (decoded_input \<times> nat) option" where
  "decodeEscape decodeUtf8 buffer =
     (case drop 1 buffer of
        [] \<Rightarrow> Some (Press (u ''Escape''), 1)
      | second # rest \<Rightarrow>
          if code second = 0x5B then decodeCsi decodeUtf8 buffer
          else if code second = 0x4F then
            (case rest of
               [] \<Rightarrow> None
             | final # _ \<Rightarrow>
                 (case js_get SS3_FUNCTION_FINALS [final] of
                    Some key \<Rightarrow> Some (Press key, 3)
                  | None \<Rightarrow>
                      (case js_get CURSOR_FINALS [final] of
                         Some key \<Rightarrow> Some (Press key, 3)
                       | None \<Rightarrow> Some (RawBytes (take 3 buffer), 3))))
          else if code second = 0x1B then Some (Press (u ''Escape''), 1)
          else if 0x20 \<le> code second \<and> code second \<noteq> 0x7F then Some (Press (u ''Alt+'' @ [word_of_nat (code second)]), 2)
          else Some (Press (u ''Escape''), 1))"

section \<open>Text\<close>

definition printable_byte :: "char \<Rightarrow> bool" where
  "printable_byte c \<longleftrightarrow> 0x20 \<le> code c \<and> code c \<noteq> 0x7F"

text \<open>The loop over the last three bytes, which are given in reverse order.\<close>

fun completeFrom :: "nat \<Rightarrow> nat \<Rightarrow> string \<Rightarrow> nat" where
  "completeFrom n back [] = n"
| "completeFrom n back (c # cs) =
     (if back > 3 then n
      else if code c div 64 = 2 then completeFrom n (Suc back) cs
      else let expected = (if code c \<ge> 0xF0 then 4 else if code c \<ge> 0xE0 then 3 else if code c \<ge> 0xC0 then 2 else 1)
           in if expected > back then n - back else n)"

definition completeUtf8Length :: "string \<Rightarrow> nat" where
  "completeUtf8Length bytes = completeFrom (length bytes) 1 (rev bytes)"

function indexOfAscii :: "string \<Rightarrow> string \<Rightarrow> nat \<Rightarrow> nat option" where
  "indexOfAscii buffer t i =
     (if length buffer < i + length t then None
      else if take (length t) (drop i buffer) = t then Some i
      else indexOfAscii buffer t (Suc i))"
  by pat_completeness auto
termination by (relation "measure (\<lambda>(b, t, i). Suc (length b) - i)") auto

declare indexOfAscii.simps [simp del]

section \<open>The decoder\<close>

record input_decoder =
  decPending :: string
  inPaste :: bool
  decPaste :: js_string

definition createDecoder :: input_decoder where
  "createDecoder = \<lparr>decPending = [], inPaste = False, decPaste = []\<rparr>"

definition flushText :: "js_string \<Rightarrow> decoded_input list" where
  "flushText t = (if t = [] then [] else [TypeText t])"

definition andThen :: "decoded_input list \<Rightarrow> decoded_input list \<times> input_decoder \<Rightarrow> decoded_input list \<times> input_decoder" where
  "andThen out r = (out @ fst r, snd r)"

lemma decodeCsi_positive: "decodeCsi dec b = Some (i, n) \<Longrightarrow> 0 < n"
  by (auto simp: decodeCsi_def Let_def split: list.splits option.splits if_splits)

lemma decodeEscape_positive: "decodeEscape dec b = Some (i, n) \<Longrightarrow> 0 < n"
  by (auto simp: decodeEscape_def decodeCsi_positive split: list.splits option.splits if_splits)

lemma printable_rest: "js_get CONTROL_NAMES (code c) = None \<Longrightarrow> \<not> code c < 0x20 \<Longrightarrow> printable_byte c"
  by (auto simp: printable_byte_def CONTROL_NAMES_def)

text \<open>The loop of \<open>push\<close> on the bytes that are left, with the text that was collected; what it leaves becomes \<open>#pending\<close>.\<close>

function inputLoop :: "(string \<Rightarrow> js_string) \<Rightarrow> string \<Rightarrow> bool \<Rightarrow> js_string \<Rightarrow> js_string \<Rightarrow> decoded_input list \<times> input_decoder" where
  "inputLoop dec rest paste collected t =
     (if rest = [] then (flushText t, \<lparr>decPending = [], inPaste = paste, decPaste = collected\<rparr>)
      else if paste then
        (case indexOfAscii rest PASTE_END 0 of
           None \<Rightarrow>
             let keep = length rest - (length PASTE_END - 1)
             in (flushText t, \<lparr>decPending = drop keep rest, inPaste = True, decPaste = collected @ dec (take keep rest)\<rparr>)
         | Some e \<Rightarrow> andThen [PasteText (collected @ dec (take e rest))] (inputLoop dec (drop (e + length PASTE_END) rest) False [] t))
      else if code (hd rest) = 0x1B then
        (if take (length PASTE_START) rest = PASTE_START
         then andThen (flushText t) (inputLoop dec (drop (length PASTE_START) rest) True collected [])
         else case decodeEscape dec rest of
                None \<Rightarrow> (flushText t, \<lparr>decPending = rest, inPaste = False, decPaste = collected\<rparr>)
              | Some (input, n) \<Rightarrow> andThen (flushText t @ [input]) (inputLoop dec (drop n rest) False collected []))
      else case js_get CONTROL_NAMES (code (hd rest)) of
             Some name \<Rightarrow> andThen (flushText t @ [Press name]) (inputLoop dec (drop 1 rest) False collected [])
           | None \<Rightarrow>
               if code (hd rest) < 0x20
               then andThen (flushText t @ [Press (u ''Control+'' @ [word_of_nat (code (hd rest) + 0x40)])])
                      (inputLoop dec (drop 1 rest) False collected [])
               else let chunk = takeWhile printable_byte rest;
                        complete = completeUtf8Length chunk;
                        t1 = t @ dec (take complete chunk)
                    in if complete < length chunk
                       then (flushText t1, \<lparr>decPending = drop complete rest, inPaste = False, decPaste = collected\<rparr>)
                       else inputLoop dec (drop (length chunk) rest) False collected t1)"
  by pat_completeness auto
termination
proof (relation "measure (\<lambda>(dec, rest, paste, collected, t). length rest)", goal_cases)
  case (6 dec rest paste collected t chunk)
  then have "printable_byte (hd rest)" by (intro printable_rest) simp_all
  with 6 show ?case by (cases rest) auto
qed (auto simp: PASTE_END_def PASTE_START_def dest: decodeEscape_positive)

declare inputLoop.simps [simp del]

definition pushInput :: "(string \<Rightarrow> js_string) \<Rightarrow> string \<Rightarrow> input_decoder \<Rightarrow> decoded_input list \<times> input_decoder" where
  "pushInput dec bytes d =
     (case inputLoop dec (decPending d @ bytes) (inPaste d) (decPaste d) [] of
        (out, d1) \<Rightarrow>
          if length (decPending d1) > MAX_PENDING_BYTES then (out @ [RawBytes (decPending d1)], createDecoder) else (out, d1))"

definition flushInput :: "(string \<Rightarrow> js_string) \<Rightarrow> input_decoder \<Rightarrow> decoded_input list \<times> input_decoder" where
  "flushInput dec d =
     (if inPaste d
      then let t = decPaste d @ dec (decPending d) in (if t \<noteq> [] then [PasteText t] else [], createDecoder)
      else (if decPending d \<noteq> [] then [RawBytes (decPending d)] else [], d\<lparr>decPending := []\<rparr>))"

definition decodeInput :: "(string \<Rightarrow> js_string) \<Rightarrow> string \<Rightarrow> decoded_input list" where
  "decodeInput dec bytes = (case pushInput dec bytes createDecoder of (out, d) \<Rightarrow> out @ fst (flushInput dec d))"

fun coalesceStep :: "decoded_input list \<Rightarrow> decoded_input \<Rightarrow> decoded_input list" where
  "coalesceStep out input =
     (case (rev out, input) of
        (TypeText a # before, TypeText b) \<Rightarrow> rev before @ [TypeText (a @ b)]
      | _ \<Rightarrow> out @ [input])"

definition coalesceInput :: "decoded_input list \<Rightarrow> decoded_input list" where
  "coalesceInput inputs = foldl coalesceStep [] inputs"

end
