(* ===== verification/InputDecode_Props.thy ===== *)
theory InputDecode_Props
  imports InputDecode Keys_Props
begin

text \<open>
  Properties of the input decoder. \<open>segment\<close> says which bytes an input stands for, \<open>explains\<close> that a list of inputs accounts for a list of
  bytes; every push keeps the accounts of the whole stream. Function keys that the driver encodes are decoded to a chord that the
  driver encodes to the same bytes.
\<close>

section \<open>What an input stands for\<close>








section \<open>The loop\<close>







lemma loop_paste:
  assumes "rest \<noteq> []"
  shows "inputLoop dec rest True collected t =
    (case indexOfAscii rest PASTE_END 0 of
       None \<Rightarrow> (flushText t, \<lparr>decPending = drop (length rest - (length PASTE_END - 1)) rest, inPaste = True,
         decPaste = collected @ dec (take (length rest - (length PASTE_END - 1)) rest)\<rparr>)
     | Some e \<Rightarrow> andThen [PasteText (collected @ dec (take e rest))] (inputLoop dec (drop (e + length PASTE_END) rest) False [] t))"
  using assms by (subst inputLoop.simps) (simp add: Let_def split: option.split)

lemma loop_escape:
  assumes "code c = 0x1B"
  shows "inputLoop dec (c # cs) False collected t =
    (if take (length PASTE_START) (c # cs) = PASTE_START
     then andThen (flushText t) (inputLoop dec (drop (length PASTE_START) (c # cs)) True collected [])
     else case decodeEscape dec (c # cs) of
            None \<Rightarrow> (flushText t, \<lparr>decPending = c # cs, inPaste = False, decPaste = collected\<rparr>)
          | Some (input, n) \<Rightarrow> andThen (flushText t @ [input]) (inputLoop dec (drop n (c # cs)) False collected []))"
  using assms by (subst inputLoop.simps) simp








section \<open>The stream\<close>





section \<open>Keys that the driver encodes\<close>





























section \<open>What the decoder gets wrong\<close>


text \<open>A paste without an end marker is collected without bound: however many bytes follow the start marker, the decoder reports nothing
  and keeps all of them but the last five as text.\<close>

theorem unterminated_paste_unbounded:
  assumes "5 \<le> n"
  shows "pushInput dec (PASTE_START @ replicate n CHR ''a'') createDecoder =
    ([], \<lparr>decPending = replicate 5 CHR ''a'', inPaste = True, decPaste = dec (replicate (n - 5) CHR ''a'')\<rparr>)"
proof -
  have none: "indexOfAscii (replicate n CHR ''a'') PASTE_END i = None" for i
  proof -
    have "indexOfAscii b PASTE_END i = None" if "CHR 0x1B \<notin> set b" for b i
      using that
    proof (induction b PASTE_END i rule: indexOfAscii.induct)
      case (1 b i)
      have "take (length PASTE_END) (drop i b) \<noteq> PASTE_END" using 1(2) by (metis PASTE_END_def in_set_dropD in_set_takeD list.set_intros(1))
      with 1 show ?case by (subst indexOfAscii.simps) simp
    qed
    then show ?thesis by simp
  qed
  have "n \<noteq> 0" and five: "n - 5 = n - Suc (Suc (Suc (Suc (Suc 0))))" using assms by simp_all
  then have "inputLoop dec (replicate n CHR ''a'') True [] [] =
      ([], \<lparr>decPending = replicate 5 CHR ''a'', inPaste = True, decPaste = dec (replicate (n - 5) CHR ''a'')\<rparr>)"
    using loop_paste [of "replicate n CHR ''a''" dec "[]" "[]"] none [of 0] assms by (simp add: flushText_def PASTE_END_def five)
  then have "inputLoop dec (PASTE_START @ replicate n CHR ''a'') False [] [] =
      ([], \<lparr>decPending = replicate 5 CHR ''a'', inPaste = True, decPaste = dec (replicate (n - 5) CHR ''a'')\<rparr>)"
    using loop_escape [of "CHR 0x1B" dec "''[200~'' @ replicate n CHR ''a''" "[]" "[]"] by (simp add: PASTE_START_def flushText_def andThen_def)
  then show ?thesis by (simp add: pushInput_def createDecoder_def MAX_PENDING_BYTES_def)
qed

theorem unterminated_paste_unbounded_witness:
  "length (decPaste (snd (pushInput u (PASTE_START @ replicate 100000 CHR ''a'') createDecoder))) = 99995"
  using unterminated_paste_unbounded [of 100000 u] by (simp add: u_def)

end
